(* ===== verification/Prelude.thy ===== *)
theory Prelude
  imports Main "HOL-Library.Word" "HOL-Library.List_Lexorder" "HOL-Library.Char_ord" "HOL-Library.Product_Lexorder"
begin

text \<open>
  Shared vocabulary of the development.

  \<^item> Python exceptions as values: \<open>py_error\<close>, the result type \<open>'a result\<close> and its
    sequencing operator \<open>rbind\<close> (a statement that raises ends the function).
  \<^item> Byte strings: \<open>bytes\<close> is a list of 8-bit words; \<open>pyslice\<close> is Python's
    \<open>data[a:b]\<close> for non-negative bounds, \<open>byte_at\<close> is \<open>data[i]\<close>, \<open>from_bytes\<close> and
    \<open>to_bytes\<close> are the big-endian \<open>int.from_bytes\<close> and \<open>int.to_bytes\<close>.
  \<^item> \<open>xor_loop\<close>: the loop \<open>for index in range(a, b): forged[index] ^= 0xFF\<close> that both the
    TLS and the SSH forger contain.
  \<^item> Generic lemmas on these, collected in \<open>res_simps\<close> (results), \<open>byte_simps\<close> (slices and
    big-endian integers).
\<close>

unbundle bit_operations_syntax

text \<open>Offsets such as \<open>cursor + 2\<close> stay sums.\<close>

declare add_2_eq_Suc [simp del] add_2_eq_Suc' [simp del]

named_theorems res_simps
named_theorems byte_simps

section \<open>Exceptions as values\<close>

datatype py_error =
    ValueError string
  | UnicodeDecodeError
  | UnicodeEncodeError
  | OverflowError
  | IndexError
  | KeyError string
  | TypeError string
  | AttributeError string
  | RuntimeError string
  | TimeoutError string
  | OSError string
  | TimeoutExpired

type_synonym 'a result = "py_error + 'a"

text \<open>
  What a handler \<open>except ValueError\<close> catches: the two Unicode errors are subclasses of
  \<open>ValueError\<close>, the other exceptions of the model are not.
\<close>

fun is_ValueError :: "py_error \<Rightarrow> bool" where
  "is_ValueError (ValueError _) = True"
| "is_ValueError UnicodeDecodeError = True"
| "is_ValueError UnicodeEncodeError = True"
| "is_ValueError _ = False"

definition rbind :: "'a result \<Rightarrow> ('a \<Rightarrow> 'b result) \<Rightarrow> 'b result" where
  "rbind m f = (case m of Inl e \<Rightarrow> Inl e | Inr x \<Rightarrow> f x)"

text \<open>A list comprehension or loop whose body may raise: stops at the first exception.\<close>

fun rmap :: "('a \<Rightarrow> 'b result) \<Rightarrow> 'a list \<Rightarrow> 'b list result" where
  "rmap f [] = Inr []"
| "rmap f (x # xs) = rbind (f x) (\<lambda>y. rbind (rmap f xs) (\<lambda>ys. Inr (y # ys)))"

definition ve_only :: "'a result \<Rightarrow> bool" where
  "ve_only r \<longleftrightarrow> (case r of Inl e \<Rightarrow> is_ValueError e | Inr _ \<Rightarrow> True)"

section \<open>Byte strings\<close>

type_synonym byte = "8 word"
type_synonym bytes = "byte list"

definition pyslice :: "'a list \<Rightarrow> nat \<Rightarrow> nat \<Rightarrow> 'a list" where
  "pyslice xs a b = take (b - a) (drop a xs)"

text \<open>\<open>range(start, stop, step)\<close> for a positive step.\<close>

definition pyrange :: "nat \<Rightarrow> nat \<Rightarrow> nat \<Rightarrow> nat list" where
  "pyrange start stop step = map (\<lambda>k. start + step * k) [0..<(stop - start + step - 1) div step]"

definition byte_at :: "bytes \<Rightarrow> nat \<Rightarrow> nat result" where
  "byte_at data i = (if i < length data then Inr (unat (data ! i)) else Inl IndexError)"

definition from_bytes :: "bytes \<Rightarrow> nat" where
  "from_bytes bs = foldl (\<lambda>n b. n * 256 + unat b) 0 bs"

primrec be_bytes :: "nat \<Rightarrow> nat \<Rightarrow> bytes" where
  "be_bytes 0 n = []"
| "be_bytes (Suc k) n = be_bytes k (n div 256) @ [word_of_nat n]"

definition to_bytes :: "nat \<Rightarrow> nat \<Rightarrow> bytes result" where
  "to_bytes k n = (if n < 256 ^ k then Inr (be_bytes k n) else Inl OverflowError)"

fun xor_loop :: "nat list \<Rightarrow> bytes \<Rightarrow> bytes result" where
  "xor_loop [] forged = Inr forged"
| "xor_loop (i # is) forged =
     (if i < length forged then xor_loop is (forged[i := forged ! i XOR 0xFF]) else Inl IndexError)"

section \<open>Lemmas on results\<close>

lemma rbind_simps [simp]:
  "rbind (Inl e) f = Inl e"
  "rbind (Inr x) f = f x"
  by (simp_all add: rbind_def)

lemma rbind_Inr_iff [res_simps]: "rbind m f = Inr y \<longleftrightarrow> (\<exists>x. m = Inr x \<and> f x = Inr y)"
  by (cases m) auto

lemma rbind_Inl_iff [res_simps]:
  "rbind m f = Inl e \<longleftrightarrow> m = Inl e \<or> (\<exists>x. m = Inr x \<and> f x = Inl e)"
  by (cases m) auto

lemma rbind_cong [fundef_cong]:
  "m = m' \<Longrightarrow> (\<And>x. m' = Inr x \<Longrightarrow> f x = g x) \<Longrightarrow> rbind m f = rbind m' g"
  by (cases m') auto

lemma rbind_assoc [simp]: "rbind (rbind m f) g = rbind m (\<lambda>x. rbind (f x) g)"
  by (cases m) auto

lemma ve_only_simps [simp]:
  "ve_only (Inr x)"
  "ve_only (Inl e) = is_ValueError e"
  by (simp_all add: ve_only_def)

lemma ve_only_rbind [intro]:
  "ve_only m \<Longrightarrow> (\<And>x. m = Inr x \<Longrightarrow> ve_only (f x)) \<Longrightarrow> ve_only (rbind m f)"
  by (cases m) auto

lemma ve_onlyD: "ve_only r \<Longrightarrow> r = Inl e \<Longrightarrow> is_ValueError e"
  by simp

lemma rmap_Inr_map: "(\<And>x. x \<in> set xs \<Longrightarrow> f x = Inr (g x)) \<Longrightarrow> rmap f xs = Inr (map g xs)"
  by (induction xs) auto

lemma rmap_Inr_iff: "rmap f xs = Inr ys \<longleftrightarrow> list_all2 (\<lambda>x y. f x = Inr y) xs ys"
proof (induction xs arbitrary: ys)
  case (Cons x xs)
  then show ?case by (cases ys) (auto simp: rbind_Inr_iff)
qed (auto simp: list_all2_Nil)

lemma rmap_Inr_in: "rmap f xs = Inr ys \<Longrightarrow> y \<in> set ys \<Longrightarrow> \<exists>x \<in> set xs. f x = Inr y"
  unfolding rmap_Inr_iff by (induction xs ys rule: list_all2_induct) auto

lemma rmap_Inr_length: "rmap f xs = Inr ys \<Longrightarrow> length ys = length xs"
  by (induction xs arbitrary: ys) (auto simp: res_simps)

lemma rmap_append: "rmap f (xs @ ys) = rbind (rmap f xs) (\<lambda>a. rbind (rmap f ys) (\<lambda>b. Inr (a @ b)))"
proof (induction xs)
  case Nil
  then show ?case by (cases "rmap f ys") auto
qed simp

lemma ve_only_rmap: "(\<And>x. x \<in> set xs \<Longrightarrow> ve_only (f x)) \<Longrightarrow> ve_only (rmap f xs)"
  by (induction xs) (auto intro!: ve_only_rbind)

section \<open>Lemmas on slices\<close>

lemma length_pyslice [simp]: "length (pyslice xs a b) = min (b - a) (length xs - a)"
  by (simp add: pyslice_def)

lemma nth_pyslice [simp]: "i < b - a \<Longrightarrow> i < length xs - a \<Longrightarrow> pyslice xs a b ! i = xs ! (a + i)"
  by (simp add: pyslice_def)

lemma pyslice_self [simp]: "pyslice xs a a = []"
  by (simp add: pyslice_def)

lemma pyslice_all: "b = length xs \<Longrightarrow> pyslice xs 0 b = xs"
  by (simp add: pyslice_def)

lemma pyslice_append_left: "b \<le> length xs \<Longrightarrow> pyslice (xs @ ys) a b = pyslice xs a b"
  by (cases "a \<le> length xs") (simp_all add: pyslice_def)

lemma pyslice_append_right:
  "length xs \<le> a \<Longrightarrow> pyslice (xs @ ys) a b = pyslice ys (a - length xs) (b - length xs)"
  by (simp add: pyslice_def)

lemma pyslice_Cons: "0 < a \<Longrightarrow> pyslice (x # xs) a b = pyslice xs (a - 1) (b - 1)"
  by (cases a) (simp_all add: pyslice_def)

lemmas pyslice_append = pyslice_Cons pyslice_append_left pyslice_append_right pyslice_all

lemma pyslice_split: "a \<le> m \<Longrightarrow> m \<le> b \<Longrightarrow> pyslice xs a b = pyslice xs a m @ pyslice xs m b"
proof -
  assume *: "a \<le> m" "m \<le> b"
  then obtain i j where "m = a + i" "b = a + i + j" by (metis le_Suc_ex)
  then show ?thesis by (simp add: pyslice_def take_add add.commute)
qed

lemma pyslice_take_drop: "pyslice xs a (a + n) = take n (drop a xs)"
  by (simp add: pyslice_def)

lemma pyslice_pyslice:
  "a + d \<le> b \<Longrightarrow> pyslice (pyslice xs a b) c d = pyslice xs (a + c) (a + d)"
  by (rule nth_equalityI) (auto simp: add.assoc)

lemma split_at_slices:
  assumes "a \<le> b"
  shows "xs = take a xs @ pyslice xs a b @ drop b xs"
proof -
  obtain n where n: "b = a + n" using assms by (metis le_Suc_ex)
  have "drop a xs = take n (drop a xs) @ drop n (drop a xs)"
    by (simp only: append_take_drop_id)
  then have "xs = take a xs @ take n (drop a xs) @ drop n (drop a xs)"
    by (metis append_take_drop_id)
  then show ?thesis unfolding n pyslice_def by (simp add: add.commute)
qed

lemma pyslice_middle [simp]:
  "a = length xs \<Longrightarrow> b = length xs + length ys \<Longrightarrow> pyslice (xs @ ys @ zs) a b = ys"
  by (simp add: pyslice_def)

lemma pyslice_take: "b \<le> n \<Longrightarrow> pyslice (take n xs) a b = pyslice xs a b"
  by (simp add: pyslice_def drop_take min_def)

lemma pyslice_eqI:
  assumes "length xs = length ys" "\<And>i. a \<le> i \<Longrightarrow> i < b \<Longrightarrow> i < length xs \<Longrightarrow> xs ! i = ys ! i"
  shows "pyslice xs a b = pyslice ys a b"
  using assms by (intro nth_equalityI) auto

section \<open>Lemmas on big-endian integers\<close>

lemma from_bytes_Nil [simp]: "from_bytes [] = 0"
  by (simp add: from_bytes_def)

lemma from_bytes_snoc: "from_bytes (bs @ [b]) = from_bytes bs * 256 + unat b"
  by (simp add: from_bytes_def)

lemma from_bytes_single [simp]: "from_bytes [b] = unat b"
  by (simp add: from_bytes_def)

lemma from_bytes_two: "from_bytes [a, b] = unat a * 256 + unat b"
  by (simp add: from_bytes_def)

lemma length_be_bytes [simp]: "length (be_bytes k n) = k"
  by (induction k arbitrary: n) auto

lemma unat_byte_less: "unat (b :: byte) < 256"
  using unsigned_less [of b] by simp

lemma unat_byte_mod [simp]: "unat (b :: byte) mod 256 = unat b"
  using unat_byte_less [of b] by simp

lemma from_bytes_less: "from_bytes bs < 256 ^ length bs"
proof (induction bs rule: rev_induct)
  case (snoc b bs)
  have "from_bytes bs * 256 + unat b < (from_bytes bs + 1) * 256"
    using unat_byte_less [of b] by simp
  also have "\<dots> \<le> 256 ^ length bs * 256"
    using snoc by (intro mult_right_mono) auto
  finally show ?case by (simp add: from_bytes_snoc mult.commute)
qed simp

lemma from_bytes_less_two: "from_bytes (pyslice xs i (i + 2)) < 65536"
proof -
  have "(256 :: nat) ^ length (pyslice xs i (i + 2)) \<le> 256 ^ 2"
    by (rule power_increasing) auto
  then show ?thesis using from_bytes_less [of "pyslice xs i (i + 2)"] by simp
qed

lemma from_bytes_be_bytes [simp]: "from_bytes (be_bytes k n) = n mod 256 ^ k"
proof (induction k arbitrary: n)
  case (Suc k)
  have "unat (word_of_nat n :: byte) = n mod 256"
    by (simp add: unat_of_nat)
  then show ?case
    using Suc by (simp add: from_bytes_snoc mod_mult2_eq)
qed simp

lemma be_bytes_from_bytes: "be_bytes (length bs) (from_bytes bs) = bs"
proof (induction bs rule: rev_induct)
  case (snoc b bs)
  have "word_of_nat (from_bytes bs * 256 + unat b) = (b :: byte)"
  proof -
    have "(256 :: byte) = 0" by (transfer; simp)
    then have "word_of_nat (from_bytes bs) * (256 :: byte) = 0"
      by (metis mult_zero_right)
    then show ?thesis by simp
  qed
  then show ?case
    using snoc unat_byte_less [of b] by (simp add: from_bytes_snoc)
qed simp

lemma to_bytes_Inr: "n < 256 ^ k \<Longrightarrow> to_bytes k n = Inr (be_bytes k n)"
  by (simp add: to_bytes_def)

lemma pow256: "(256 :: nat) ^ 2 = 65536" "(256 :: nat) ^ 3 = 16777216" "(256 :: nat) ^ 4 = 4294967296"
  by simp_all

lemma to_bytes_Inr_iff [res_simps]: "to_bytes k n = Inr bs \<longleftrightarrow> n < 256 ^ k \<and> bs = be_bytes k n"
  by (auto simp: to_bytes_def)

lemma from_bytes_inj: "length as = length bs \<Longrightarrow> from_bytes as = from_bytes bs \<Longrightarrow> as = bs"
  by (metis be_bytes_from_bytes)

section \<open>Lemmas on the xor loop\<close>

lemma byte_xor_FF_twice [simp]: "(b XOR 0xFF) XOR 0xFF = (b :: byte)"
  by (simp add: xor.assoc)

lemma byte_xor_FF_neq: "b XOR 0xFF \<noteq> (b :: byte)"
proof
  assume "b XOR 0xFF = b"
  then have "b XOR (b XOR 0xFF) = b XOR b" by simp
  then have "(0xFF :: byte) = 0" by (simp flip: xor.assoc)
  then show False by simp
qed

lemma xor_loop_length: "xor_loop is bs = Inr bs' \<Longrightarrow> length bs' = length bs"
  by (induction "is" bs rule: xor_loop.induct) (auto split: if_splits)

lemma xor_loop_Inr: "(\<forall>i \<in> set is. i < length bs) \<Longrightarrow> \<exists>bs'. xor_loop is bs = Inr bs'"
  by (induction "is" bs rule: xor_loop.induct) auto

lemma xor_loop_nth:
  "distinct is \<Longrightarrow> xor_loop is bs = Inr bs' \<Longrightarrow> j < length bs \<Longrightarrow>
   bs' ! j = (if j \<in> set is then bs ! j XOR 0xFF else bs ! j)"
  by (induction "is" bs rule: xor_loop.induct) (auto split: if_splits simp: nth_list_update)

lemma xor_loop_involutive:
  assumes "distinct is" "xor_loop is bs = Inr bs'"
  shows "xor_loop is bs' = Inr bs"
proof -
  have len: "length bs' = length bs" by (rule xor_loop_length [OF assms(2)])
  have "\<forall>i \<in> set is. i < length bs" using assms(2)
    by (induction "is" bs rule: xor_loop.induct) (auto split: if_splits)
  then obtain b2 where b2: "xor_loop is bs' = Inr b2" using xor_loop_Inr [of "is" bs'] len by auto
  have "b2 = bs"
  proof (rule nth_equalityI)
    show l2: "length b2 = length bs" using xor_loop_length [OF b2] len by simp
    show "b2 ! i = bs ! i" if "i < length b2" for i
      using xor_loop_nth [OF assms(1) b2, of i] xor_loop_nth [OF assms, of i] that l2 len by simp
  qed
  with b2 show ?thesis by simp
qed

end
