(* ===== verification/Py_Str.thy ===== *)
theory Py_Str
  imports Prelude
begin

text \<open>
  The string operations of Python that the source uses: number formatting (\<open>str(n)\<close>,
  \<open>f"{n:02d}"\<close>, \<open>f"{n:04x}"\<close>), \<open>str.join\<close>, \<open>str.split\<close> with a one-character separator and
  with white space, \<open>str.splitlines\<close>, substring tests, ASCII case mapping. A string is a list of
  8-bit characters, read as code points below 256. In \<open>lines_acc\<close> the flag says that the previous
  character was a carriage return that ended a line.
\<close>

section \<open>Numbers\<close>

definition digit_char :: "nat \<Rightarrow> char" where
  "digit_char d = char_of (if d < 10 then 48 + d else 87 + d)"

fun base_digits :: "nat \<Rightarrow> nat \<Rightarrow> string" where
  "base_digits b n =
     (if b < 2 \<or> n < b then [digit_char n] else base_digits b (n div b) @ [digit_char (n mod b)])"

declare base_digits.simps [simp del]

definition dec :: "nat \<Rightarrow> string" where "dec n = base_digits 10 n"
definition hexs :: "nat \<Rightarrow> string" where "hexs n = base_digits 16 n"

definition zfill :: "nat \<Rightarrow> string \<Rightarrow> string" where
  "zfill w s = replicate (w - length s) CHR ''0'' @ s"

definition dec02 :: "nat \<Rightarrow> string" where "dec02 n = zfill 2 (dec n)"
definition hex04 :: "nat \<Rightarrow> string" where "hex04 n = zfill 4 (hexs n)"

section \<open>Joining and splitting\<close>

fun join :: "string \<Rightarrow> string list \<Rightarrow> string" where
  "join sep [] = []"
| "join sep [x] = x"
| "join sep (x # y # ys) = x @ sep @ join sep (y # ys)"

text \<open>\<open>s.split(c)\<close> for a one-character separator: never the empty list.\<close>

fun split_char :: "'a \<Rightarrow> 'a list \<Rightarrow> 'a list list" where
  "split_char c [] = [[]]"
| "split_char c (x # xs) =
     (if x = c then [] # split_char c xs
      else (case split_char c xs of [] \<Rightarrow> [[x]] | p # ps \<Rightarrow> (x # p) # ps))"

text \<open>
  The dash U+2014 of two messages lies outside the modelled code points; it is written as two hyphens.
  Nothing reads these messages back.
\<close>

definition em_dash :: string where "em_dash = ''--''"

text \<open>White space of \<open>str.split()\<close> and of \<open>\s\<close>, for code points below 256.\<close>

definition is_space :: "char \<Rightarrow> bool" where
  "is_space c = (let n = of_char c :: nat in
     9 \<le> n \<and> n \<le> 13 \<or> 28 \<le> n \<and> n \<le> 32 \<or> n = 133 \<or> n = 160)"

fun words_acc :: "string \<Rightarrow> string \<Rightarrow> string list" where
  "words_acc acc [] = (if acc = [] then [] else [acc])"
| "words_acc acc (c # cs) =
     (if is_space c then (if acc = [] then words_acc [] cs else acc # words_acc [] cs)
      else words_acc (acc @ [c]) cs)"

definition split_ws :: "string \<Rightarrow> string list" where "split_ws s = words_acc [] s"

text \<open>Line boundaries of \<open>str.splitlines\<close> below 256; \<open>\r\n\<close> is one boundary.\<close>

definition is_linebreak :: "char \<Rightarrow> bool" where
  "is_linebreak c = (let n = of_char c :: nat in 10 \<le> n \<and> n \<le> 13 \<or> 28 \<le> n \<and> n \<le> 30 \<or> n = 133)"

fun lines_acc :: "bool \<Rightarrow> string \<Rightarrow> string \<Rightarrow> string list" where
  "lines_acc cr acc [] = (if acc = [] then [] else [acc])"
| "lines_acc cr acc (c # cs) =
     (if cr \<and> c = CHR 0x0A then lines_acc False acc cs
      else if is_linebreak c then acc # lines_acc (c = CHR 0x0D) [] cs
      else lines_acc False (acc @ [c]) cs)"

definition splitlines :: "string \<Rightarrow> string list" where "splitlines s = lines_acc False [] s"

section \<open>Substrings\<close>

fun starts_with :: "'a list \<Rightarrow> 'a list \<Rightarrow> bool" where
  "starts_with [] s = True"
| "starts_with (p # ps) [] = False"
| "starts_with (p # ps) (c # cs) = (p = c \<and> starts_with ps cs)"

fun contains :: "'a list \<Rightarrow> 'a list \<Rightarrow> bool" where
  "contains p [] = (p = [])"
| "contains p (c # cs) = (starts_with p (c # cs) \<or> contains p cs)"

definition ends_with :: "'a list \<Rightarrow> 'a list \<Rightarrow> bool" where
  "ends_with p s = starts_with (rev p) (rev s)"

definition upper_char :: "char \<Rightarrow> char" where
  "upper_char c = (let n = of_char c :: nat in if 97 \<le> n \<and> n \<le> 122 then char_of (n - 32) else c)"

definition lower_char :: "char \<Rightarrow> char" where
  "lower_char c = (let n = of_char c :: nat in if 65 \<le> n \<and> n \<le> 90 then char_of (n + 32) else c)"

definition upper :: "string \<Rightarrow> string" where "upper s = map upper_char s"

text \<open>\<open>s.rsplit(c, 1)\<close> of a string that contains \<open>c\<close>, and \<open>s.split(sep, 1)\<close> for a longer separator.\<close>

definition rsplit_once :: "char \<Rightarrow> string \<Rightarrow> (string \<times> string) option" where
  "rsplit_once c s =
     (if c \<in> set s
      then Some (rev (drop 1 (dropWhile (\<lambda>x. x \<noteq> c) (rev s))), rev (takeWhile (\<lambda>x. x \<noteq> c) (rev s))) else None)"

fun split_first :: "'a list \<Rightarrow> 'a list \<Rightarrow> ('a list \<times> 'a list) option" where
  "split_first sep [] = (if sep = [] then Some ([], []) else None)"
| "split_first sep (x # xs) =
     (if starts_with sep (x # xs) then Some ([], drop (length sep) (x # xs))
      else map_option (\<lambda>(a, b). (x # a, b)) (split_first sep xs))"

text \<open>\<open>repr\<close> of a string, for code points below 256.\<close>

definition repr_char :: "char \<Rightarrow> char \<Rightarrow> string" where
  "repr_char quote c = (let n = of_char c :: nat in
     if c = quote \<or> c = CHR 0x5C then [CHR 0x5C, c]
     else if n = 10 then [CHR 0x5C, CHR ''n''] else if n = 13 then [CHR 0x5C, CHR ''r'']
     else if n = 9 then [CHR 0x5C, CHR ''t'']
     else if n < 32 \<or> 127 \<le> n \<and> n \<le> 160 \<or> n = 173 then [CHR 0x5C, CHR ''x''] @ zfill 2 (hexs n) else [c])"

definition py_repr :: "string \<Rightarrow> string" where
  "py_repr s = (let quote = (if CHR 0x27 \<in> set s \<and> CHR 0x22 \<notin> set s then CHR 0x22 else CHR 0x27) in
     [quote] @ concat (map (repr_char quote) s) @ [quote])"

section \<open>Lemmas: splitting and joining\<close>

lemma split_char_ne [simp]: "split_char c s \<noteq> []"
  by (induction s) (auto split: list.splits)

lemma split_char_no_sep: "c \<notin> set s \<Longrightarrow> split_char c s = [s]"
  by (induction s) auto

lemma split_char_append: "c \<notin> set p \<Longrightarrow> split_char c (p @ c # s) = p # split_char c s"
  by (induction p) auto

lemma join_split_char [simp]: "join [c] (split_char c s) = s"
proof (induction s)
  case (Cons x xs)
  obtain p ps where "split_char c xs = p # ps" by (cases "split_char c xs") auto
  with Cons show ?case by (cases ps) auto
qed simp

lemma split_char_pieces: "p \<in> set (split_char c s) \<Longrightarrow> c \<notin> set p \<and> set p \<subseteq> set s"
proof (induction s arbitrary: p)
  case (Cons x xs)
  obtain q qs where q: "split_char c xs = q # qs" by (cases "split_char c xs") auto
  with Cons.IH [of q] Cons.IH [of p] Cons.prems show ?case by (auto split: if_splits)
qed simp

lemma split_char_join:
  "xs \<noteq> [] \<Longrightarrow> (\<forall>x \<in> set xs. c \<notin> set x) \<Longrightarrow> split_char c (join [c] xs) = xs"
  by (induction "[c]" xs rule: join.induct) (auto simp: split_char_no_sep split_char_append)

lemma set_join: "set (join sep xs) \<subseteq> set sep \<union> (\<Union>x \<in> set xs. set x)"
  by (induction sep xs rule: join.induct) auto

lemma length_join: "xs \<noteq> [] \<Longrightarrow> length (join [c] xs) + 1 = (\<Sum>x\<leftarrow>xs. length x + 1)"
  by (induction "[c]" xs rule: join.induct) auto

lemma sum_list_filter_split:
  "(\<Sum>x\<leftarrow>xs. f x) = (\<Sum>x\<leftarrow>filter P xs. f x) + (\<Sum>x\<leftarrow>filter (\<lambda>x. \<not> P x) xs. (f x :: nat))"
  by (induction xs) auto

lemma sum_list_filter_count:
  "(\<Sum>x\<leftarrow>xs. f x) = (\<Sum>x\<leftarrow>filter (\<lambda>x. x \<noteq> a) xs. f x) + count_list xs a * (f a :: nat)"
  by (induction xs) auto

lemma length_join_filter: "length (join [c] (filter P xs)) \<le> length (join [c] xs)"
proof (cases "filter P xs = []")
  case False
  then have "xs \<noteq> []" by auto
  with False length_join [of "filter P xs" c] length_join [of xs c]
    sum_list_filter_split [of "\<lambda>x. length x + 1" xs P] show ?thesis by linarith
qed simp

lemma length_join_remove:
  assumes "filter (\<lambda>x. x \<noteq> a) xs \<noteq> []"
  shows "length (join [c] xs) = length (join [c] (filter (\<lambda>x. x \<noteq> a) xs)) + count_list xs a * (length a + 1)"
proof -
  have "xs \<noteq> []" using assms by auto
  then show ?thesis
    using length_join [OF assms, of c] length_join [of xs c] sum_list_filter_count [of "\<lambda>x. length x + 1" xs a] by linarith
qed

lemma length_filter_count: "length (filter (\<lambda>x. x \<noteq> a) xs) + count_list xs a = length xs"
  by (induction xs) auto

lemma join_eq_Nil: "join [c] xs = [] \<longleftrightarrow> xs = [] \<or> xs = [[]]"
  by (induction "[c]" xs rule: join.induct) auto

section \<open>Lemmas: substrings\<close>

lemma starts_with_iff: "starts_with p s \<longleftrightarrow> (\<exists>t. s = p @ t)"
  by (induction p s rule: starts_with.induct) auto

lemma starts_with_take: "starts_with p s \<longleftrightarrow> take (length p) s = p"
proof
  assume "take (length p) s = p"
  then show "starts_with p s" unfolding starts_with_iff by (metis append_take_drop_id)
qed (auto simp: starts_with_iff)

lemma contains_iff: "contains p s \<longleftrightarrow> (\<exists>a b. s = a @ p @ b)"
proof (induction s)
  case (Cons c cs)
  have "(\<exists>a b. c # cs = a @ p @ b) \<longleftrightarrow> (\<exists>b. c # cs = p @ b) \<or> (\<exists>a b. cs = a @ p @ b)"
    by (metis append_Cons append_Nil list.exhaust list.inject)
  then show ?case using Cons by (simp add: starts_with_iff)
qed simp

lemma ends_with_iff: "ends_with p s \<longleftrightarrow> (\<exists>t. s = t @ p)"
proof -
  have "ends_with p s \<longleftrightarrow> (\<exists>t. rev s = rev p @ t)"
    by (simp add: ends_with_def starts_with_iff)
  also have "\<dots> \<longleftrightarrow> (\<exists>t. s = t @ p)"
    by (metis rev_append rev_rev_ident)
  finally show ?thesis .
qed

section \<open>Lemmas: numbers\<close>

lemma digit_char_inj: "i < 16 \<Longrightarrow> j < 16 \<Longrightarrow> digit_char i = digit_char j \<Longrightarrow> i = j"
proof -
  assume *: "i < 16" "j < 16" "digit_char i = digit_char j"
  then have "of_char (digit_char i) = (of_char (digit_char j) :: nat)" by simp
  with *(1,2) show ?thesis by (auto simp: digit_char_def split: if_splits)
qed

lemma base_digits_ne [simp]: "base_digits b n \<noteq> []"
  by (subst base_digits.simps) simp

lemma base_digits_chars: "2 \<le> b \<Longrightarrow> set (base_digits b n) \<subseteq> digit_char ` {..<b}"
proof (induction b n rule: base_digits.induct)
  case (1 b n)
  show ?case
    by (subst base_digits.simps) (use 1 in \<open>auto intro!: imageI\<close>)
qed

definition digit_val :: "char \<Rightarrow> nat" where
  "digit_val c = (if of_char c < (58 :: nat) then of_char c - 48 else of_char c - 87)"

definition base_val :: "nat \<Rightarrow> string \<Rightarrow> nat" where
  "base_val b s = foldl (\<lambda>n c. n * b + digit_val c) 0 s"

lemma digit_val_char [simp]: "d < 16 \<Longrightarrow> digit_val (digit_char d) = d"
  by (simp add: digit_val_def digit_char_def)

lemma base_val_digits: "2 \<le> b \<Longrightarrow> b \<le> 16 \<Longrightarrow> base_val b (base_digits b n) = n"
proof (induction b n rule: base_digits.induct)
  case (1 b n)
  show ?case
  proof (cases "n < b")
    case True
    then show ?thesis using 1 by (subst base_digits.simps) (simp add: base_val_def)
  next
    case False
    then have "base_val b (base_digits b (n div b)) = n div b" using 1 by simp
    moreover have "n mod b < 16" using 1(2,3) mod_less_divisor [of b n] by linarith
    ultimately show ?thesis using 1 False by (subst base_digits.simps) (simp add: base_val_def)
  qed
qed

lemma base_val_zfill [simp]: "base_val b (zfill w s) = base_val b s"
proof -
  have "foldl (\<lambda>n c. n * b + digit_val c) 0 (replicate k CHR ''0'') = 0" for k
    by (induction k) (simp_all add: digit_val_def)
  then show ?thesis by (simp add: base_val_def zfill_def)
qed

lemma base_val_dec [simp]: "base_val 10 (dec n) = n" "base_val 10 (dec02 n) = n" "base_val 16 (hex04 n) = n"
  by (simp_all add: dec_def dec02_def hex04_def hexs_def base_val_digits)

lemma dec_inj [simp]: "dec m = dec n \<longleftrightarrow> m = n"
  by (metis base_val_dec(1))

lemma dec02_inj [simp]: "dec02 m = dec02 n \<longleftrightarrow> m = n"
  by (metis base_val_dec(2))

lemma hex04_inj [simp]: "hex04 m = hex04 n \<longleftrightarrow> m = n"
  by (metis base_val_dec(3))

lemma digit_char_range: "d < 16 \<Longrightarrow> 48 \<le> (of_char (digit_char d) :: nat)" "d < 10 \<Longrightarrow> (of_char (digit_char d) :: nat) < 58"
  by (simp_all add: digit_char_def)

lemma dec_chars: "c \<in> set (dec n) \<Longrightarrow> 48 \<le> (of_char c :: nat) \<and> (of_char c :: nat) < 58"
  using base_digits_chars [of 10 n] digit_char_range by (fastforce simp: dec_def)

lemma dec02_chars: "c \<in> set (dec02 n) \<Longrightarrow> 48 \<le> (of_char c :: nat) \<and> (of_char c :: nat) < 58"
  using dec_chars [of c n] by (auto simp: dec02_def zfill_def)

lemma hex04_chars: "c \<in> set (hex04 n) \<Longrightarrow> 48 \<le> (of_char c :: nat) \<and> (of_char c :: nat) < 103"
proof -
  have "set (hexs n) \<subseteq> digit_char ` {..<16}" using base_digits_chars [of 16 n] by (simp add: hexs_def)
  moreover have "(of_char (digit_char d) :: nat) < 103" if "d < 16" for d using that by (simp add: digit_char_def)
  moreover assume "c \<in> set (hex04 n)"
  ultimately show ?thesis using digit_char_range(1) by (fastforce simp: hex04_def zfill_def)
qed

lemma sep_append_inj:
  "c \<notin> set a \<Longrightarrow> c \<notin> set a' \<Longrightarrow> a @ c # b = a' @ c # b' \<longleftrightarrow> a = a' \<and> b = b'"
proof (induction a arbitrary: a')
  case Nil
  then show ?case by (cases a') auto
next
  case (Cons x xs)
  then show ?case by (cases a') auto
qed

lemma rsplit_once_append: "c \<notin> set b \<Longrightarrow> rsplit_once c (a @ c # b) = Some (a, b)"
proof -
  assume "c \<notin> set b"
  then have "\<forall>x \<in> set (rev b). x \<noteq> c" by auto
  then have "takeWhile (\<lambda>x. x \<noteq> c) (rev b @ c # rev a) = rev b" "dropWhile (\<lambda>x. x \<noteq> c) (rev b @ c # rev a) = c # rev a"
    by (simp_all add: takeWhile_append dropWhile_append)
  then show ?thesis by (simp add: rsplit_once_def)
qed

lemma starts_with_butlast:
  assumes "starts_with w (b @ w @ r)" "b \<noteq> []"
  shows "starts_with w (b @ butlast w)"
proof -
  have t: "take (length w) (b @ w @ r) = w" using assms(1) by (simp only: starts_with_take)
  obtain c b' where b: "b = c # b'" using assms(2) by (cases b) auto
  have "take (length w) (b @ w) = take (length w) (b @ butlast w)"
  proof (cases "w = []")
    case False
    then have "b @ w = (b @ butlast w) @ [last w]" by simp
    then have "take (length w) (b @ w) = take (length w) ((b @ butlast w) @ [last w])" by simp
    also have "\<dots> = take (length w) (b @ butlast w)" by (simp only: take_append) (simp add: b)
    finally show ?thesis .
  qed simp
  moreover have "take (length w) (b @ w @ r) = take (length w) (b @ w)"
    by (simp only: append_assoc [symmetric] take_append) simp
  ultimately have "take (length w) (b @ butlast w) = w" using t by simp
  then show ?thesis by (simp only: starts_with_take)
qed

lemma contains_later: "starts_with w (b @ x) \<Longrightarrow> contains w (a @ b @ x)"
  by (auto simp: contains_iff starts_with_iff)

lemma split_first_append:
  "\<not> contains sep (a @ butlast sep) \<Longrightarrow> sep \<noteq> [] \<Longrightarrow> split_first sep (a @ sep @ b) = Some (a, b)"
proof (induction a)
  case Nil
  obtain x xs where "sep = x # xs" using Nil.prems(2) by (cases sep) auto
  moreover have "starts_with sep (sep @ b)" by (auto simp: starts_with_iff)
  ultimately show ?case by simp
next
  case (Cons x a)
  have "\<not> starts_with sep ((x # a) @ sep @ b)"
    using starts_with_butlast [of sep "x # a" b] contains_later [of sep "x # a" "butlast sep" "[]"] Cons.prems(1) by auto
  moreover have "\<not> contains sep (a @ butlast sep)" using Cons.prems(1) by auto
  ultimately show ?case using Cons by simp
qed

end
