(* ===== verification/Run_Record.thy ===== *)
theory Run_Record
  imports Py_Str
begin

text \<open>
  Model of \<open>tools/faultinject/record.py\<close>: the record of one run, its identifier and its JSON form.
  A JSON document is a value of the type \<open>json\<close>; \<open>asdict_record\<close> is the document that
  \<open>to_json_path\<close> writes (\<open>dataclasses.asdict\<close>), \<open>from_json\<close> the reading back, with the errors of a
  missing key and of the keyword arguments of the two dataclasses. The text layer of the \<open>json\<close>
  module is not modelled. A value that does not have the annotated type of its field, which Python
  would store unchecked, is an error of the model.
\<close>

section \<open>Definitions\<close>

datatype json = JNull | JBool bool | JInt int | JStr string | JList "json list" | JObj "(string \<times> json) list"

type_synonym dict = "(string \<times> json) list"

definition HYBRID_GROUPS :: "string list" where
  "HYBRID_GROUPS = [''X25519MLKEM768'', ''X25519Kyber768Draft00'', ''sntrup761x25519-sha512@openssh.com'']"

definition run_id :: "string \<Rightarrow> string \<Rightarrow> nat \<Rightarrow> string \<Rightarrow> string" where
  "run_id impl fault rep condition = impl @ ''_'' @ fault @ ''_r'' @ dec02 rep @ ''_'' @ condition"

record Metrics =
  negotiated_group :: "string option"
  is_hybrid :: bool
  downgrade_visible :: bool
  handshake_result :: string
  detail :: string
  hrr_present :: "bool option"
  downgrade_flagged :: "bool option"
  advertised_hybrid :: "bool option"
  hrr_pcap_present :: "bool option"
  hrr_log_present :: "bool option"
  server_hello_count :: "nat option"
  final_negotiated_group :: "string option"
  client_precondition_verified :: "bool option"

text \<open>\<open>Metrics(...)\<close> with the defaults of the dataclass.\<close>

definition new_metrics :: "string option \<Rightarrow> bool \<Rightarrow> bool \<Rightarrow> string \<Rightarrow> Metrics" where
  "new_metrics g h d r = \<lparr>negotiated_group = g, is_hybrid = h, downgrade_visible = d, handshake_result = r,
     detail = '''', hrr_present = None, downgrade_flagged = None, advertised_hybrid = None, hrr_pcap_present = None,
     hrr_log_present = None, server_hello_count = None, final_negotiated_group = None,
     client_precondition_verified = None\<rparr>"

record RunRecord =
  rec_run_id :: string
  implementation :: string
  fault_type :: string
  repetition :: nat
  rec_condition :: string
  metrics :: Metrics
  manipulation_verified :: bool
  artifacts :: dict
  provenance :: dict
  audit :: dict

fun jopt :: "('a \<Rightarrow> json) \<Rightarrow> 'a option \<Rightarrow> json" where
  "jopt f None = JNull"
| "jopt f (Some x) = f x"

abbreviation jnat :: "nat \<Rightarrow> json" where "jnat n \<equiv> JInt (int n)"

definition asdict_metrics :: "Metrics \<Rightarrow> dict" where
  "asdict_metrics m =
     [(''negotiated_group'', jopt JStr (negotiated_group m)), (''is_hybrid'', JBool (is_hybrid m)),
      (''downgrade_visible'', JBool (downgrade_visible m)), (''handshake_result'', JStr (handshake_result m)),
      (''detail'', JStr (detail m)), (''hrr_present'', jopt JBool (hrr_present m)),
      (''downgrade_flagged'', jopt JBool (downgrade_flagged m)), (''advertised_hybrid'', jopt JBool (advertised_hybrid m)),
      (''hrr_pcap_present'', jopt JBool (hrr_pcap_present m)), (''hrr_log_present'', jopt JBool (hrr_log_present m)),
      (''server_hello_count'', jopt jnat (server_hello_count m)),
      (''final_negotiated_group'', jopt JStr (final_negotiated_group m)),
      (''client_precondition_verified'', jopt JBool (client_precondition_verified m))]"

definition asdict_record :: "RunRecord \<Rightarrow> dict" where
  "asdict_record r =
     [(''run_id'', JStr (rec_run_id r)), (''implementation'', JStr (implementation r)),
      (''fault_type'', JStr (fault_type r)), (''repetition'', jnat (repetition r)),
      (''condition'', JStr (rec_condition r)), (''metrics'', JObj (asdict_metrics (metrics r))),
      (''manipulation_verified'', JBool (manipulation_verified r)), (''artifacts'', JObj (artifacts r)),
      (''provenance'', JObj (provenance r)), (''audit'', JObj (audit r))]"

text \<open>\<open>to_json_path\<close>: the name of the file and the document it holds.\<close>

definition to_json_path :: "RunRecord \<Rightarrow> (string \<rightharpoonup> dict) \<Rightarrow> (string \<rightharpoonup> dict)" where
  "to_json_path r files = files(rec_run_id r @ ''.json'' \<mapsto> asdict_record r)"

text \<open>\<open>bool(d.get(key))\<close>.\<close>

fun jtruthy :: "json option \<Rightarrow> bool" where
  "jtruthy None = False"
| "jtruthy (Some JNull) = False"
| "jtruthy (Some (JBool b)) = b"
| "jtruthy (Some (JInt i)) = (i \<noteq> 0)"
| "jtruthy (Some (JStr s)) = (s \<noteq> [])"
| "jtruthy (Some (JList l)) = (l \<noteq> [])"
| "jtruthy (Some (JObj d)) = (d \<noteq> [])"

text \<open>Reading one keyword argument: a required one, or one with a default.\<close>

definition bad_type :: "'a result" where "bad_type = Inl (TypeError ''field of another type'')"

fun as_str :: "json \<Rightarrow> string result" where
  "as_str (JStr s) = Inr s" | "as_str _ = bad_type"

fun as_bool :: "json \<Rightarrow> bool result" where
  "as_bool (JBool b) = Inr b" | "as_bool _ = bad_type"

fun as_nat :: "json \<Rightarrow> nat result" where
  "as_nat (JInt i) = (if 0 \<le> i then Inr (nat i) else bad_type)" | "as_nat _ = bad_type"

fun as_dict :: "json \<Rightarrow> dict result" where
  "as_dict (JObj d) = Inr d" | "as_dict _ = bad_type"

definition as_opt :: "(json \<Rightarrow> 'a result) \<Rightarrow> json \<Rightarrow> 'a option result" where
  "as_opt f j = (if j = JNull then Inr None else rbind (f j) (\<lambda>x. Inr (Some x)))"

definition required :: "dict \<Rightarrow> string \<Rightarrow> (json \<Rightarrow> 'a result) \<Rightarrow> 'a result" where
  "required d k f = (case map_of d k of None \<Rightarrow> Inl (TypeError (''missing required argument: '' @ k)) | Some j \<Rightarrow> f j)"

definition optional :: "dict \<Rightarrow> string \<Rightarrow> (json \<Rightarrow> 'a result) \<Rightarrow> 'a \<Rightarrow> 'a result" where
  "optional d k f x = (case map_of d k of None \<Rightarrow> Inr x | Some j \<Rightarrow> f j)"

definition metrics_keys :: "string list" where
  "metrics_keys = [''negotiated_group'', ''is_hybrid'', ''downgrade_visible'', ''handshake_result'', ''detail'',
     ''hrr_present'', ''downgrade_flagged'', ''advertised_hybrid'', ''hrr_pcap_present'', ''hrr_log_present'',
     ''server_hello_count'', ''final_negotiated_group'', ''client_precondition_verified'']"

definition record_keys :: "string list" where
  "record_keys = [''run_id'', ''implementation'', ''fault_type'', ''repetition'', ''condition'', ''metrics'',
     ''manipulation_verified'', ''artifacts'', ''provenance'', ''audit'']"

definition Metrics_of :: "dict \<Rightarrow> Metrics result" where
  "Metrics_of d =
     (if \<not> list_all (\<lambda>k. List.member metrics_keys k) (map fst d) then Inl (TypeError ''unexpected keyword argument'') else
      rbind (required d ''negotiated_group'' (as_opt as_str)) (\<lambda>g.
      rbind (required d ''is_hybrid'' as_bool) (\<lambda>h.
      rbind (required d ''downgrade_visible'' as_bool) (\<lambda>v.
      rbind (required d ''handshake_result'' as_str) (\<lambda>r.
      rbind (optional d ''detail'' as_str '''') (\<lambda>dt.
      rbind (optional d ''hrr_present'' (as_opt as_bool) None) (\<lambda>hrr.
      rbind (optional d ''downgrade_flagged'' (as_opt as_bool) None) (\<lambda>fl.
      rbind (optional d ''advertised_hybrid'' (as_opt as_bool) None) (\<lambda>adv.
      rbind (optional d ''hrr_pcap_present'' (as_opt as_bool) None) (\<lambda>hp.
      rbind (optional d ''hrr_log_present'' (as_opt as_bool) None) (\<lambda>hl.
      rbind (optional d ''server_hello_count'' (as_opt as_nat) None) (\<lambda>n.
      rbind (optional d ''final_negotiated_group'' (as_opt as_str) None) (\<lambda>fg.
      rbind (optional d ''client_precondition_verified'' (as_opt as_bool) None) (\<lambda>cp.
        Inr \<lparr>negotiated_group = g, is_hybrid = h, downgrade_visible = v, handshake_result = r, detail = dt,
          hrr_present = hrr, downgrade_flagged = fl, advertised_hybrid = adv, hrr_pcap_present = hp,
          hrr_log_present = hl, server_hello_count = n, final_negotiated_group = fg,
          client_precondition_verified = cp\<rparr>))))))))))))))"

definition from_json :: "dict \<Rightarrow> RunRecord result" where
  "from_json d =
     (case map_of d ''metrics'' of None \<Rightarrow> Inl (KeyError ''metrics'')
      | Some mj \<Rightarrow>
        rbind (as_dict mj) (\<lambda>md. rbind (Metrics_of md) (\<lambda>ms.
        if \<not> list_all (\<lambda>k. List.member record_keys k) (map fst d) then Inl (TypeError ''unexpected keyword argument'') else
        rbind (required d ''run_id'' as_str) (\<lambda>i.
        rbind (required d ''implementation'' as_str) (\<lambda>im.
        rbind (required d ''fault_type'' as_str) (\<lambda>ft.
        rbind (required d ''repetition'' as_nat) (\<lambda>rep.
        rbind (required d ''condition'' as_str) (\<lambda>c.
        rbind (required d ''manipulation_verified'' as_bool) (\<lambda>v.
        rbind (optional d ''artifacts'' as_dict []) (\<lambda>a.
        rbind (optional d ''provenance'' as_dict []) (\<lambda>p.
        rbind (optional d ''audit'' as_dict []) (\<lambda>au.
          Inr \<lparr>rec_run_id = i, implementation = im, fault_type = ft, repetition = rep, rec_condition = c,
            metrics = ms, manipulation_verified = v, artifacts = a, provenance = p, audit = au\<rparr>))))))))))))"

section \<open>Round trip\<close>

lemma as_opt_jopt [simp]: "(\<And>x. enc x \<noteq> JNull) \<Longrightarrow> (\<And>x. f (enc x) = Inr x) \<Longrightarrow> as_opt f (jopt enc v) = Inr v"
  by (cases v) (simp_all add: as_opt_def)

lemma Metrics_of_asdict [simp]: "Metrics_of (asdict_metrics m) = Inr m"
  by (simp add: Metrics_of_def asdict_metrics_def metrics_keys_def required_def optional_def)

lemma from_json_asdict [simp]: "from_json (asdict_record r) = Inr r"
  by (simp add: from_json_def asdict_record_def record_keys_def required_def optional_def)

text \<open>
  C16. A record that \<open>to_json_path\<close> writes is read back unchanged by \<open>from_json\<close>, under the name
  made from its run id; and the documents of older runs, whose metrics lack the fields that were
  added with a default, are read with these defaults.
\<close>

theorem record_json_roundtrip:
  "(case to_json_path r files (rec_run_id r @ ''.json'') of None \<Rightarrow> False | Some doc \<Rightarrow> from_json doc = Inr r) \<and>
   from_json [(''run_id'', JStr (rec_run_id r)), (''implementation'', JStr (implementation r)),
      (''fault_type'', JStr (fault_type r)), (''repetition'', jnat (repetition r)), (''condition'', JStr (rec_condition r)),
      (''metrics'', JObj [(''negotiated_group'', jopt JStr g), (''is_hybrid'', JBool h),
        (''downgrade_visible'', JBool v), (''handshake_result'', JStr hr)]),
      (''manipulation_verified'', JBool (manipulation_verified r))] =
   Inr (r\<lparr>metrics := new_metrics g h v hr, artifacts := [], provenance := [], audit := []\<rparr>)"
proof
  show "case to_json_path r files (rec_run_id r @ ''.json'') of None \<Rightarrow> False | Some doc \<Rightarrow> from_json doc = Inr r"
    by (simp add: to_json_path_def)
  have "Metrics_of [(''negotiated_group'', jopt JStr g), (''is_hybrid'', JBool h),
        (''downgrade_visible'', JBool v), (''handshake_result'', JStr hr)] = Inr (new_metrics g h v hr)"
    by (simp add: Metrics_of_def metrics_keys_def required_def optional_def new_metrics_def)
  then show "from_json [(''run_id'', JStr (rec_run_id r)), (''implementation'', JStr (implementation r)),
      (''fault_type'', JStr (fault_type r)), (''repetition'', jnat (repetition r)), (''condition'', JStr (rec_condition r)),
      (''metrics'', JObj [(''negotiated_group'', jopt JStr g), (''is_hybrid'', JBool h),
        (''downgrade_visible'', JBool v), (''handshake_result'', JStr hr)]),
      (''manipulation_verified'', JBool (manipulation_verified r))] =
   Inr (r\<lparr>metrics := new_metrics g h v hr, artifacts := [], provenance := [], audit := []\<rparr>)"
    by (simp add: from_json_def record_keys_def required_def optional_def)
qed

section \<open>Run identifiers\<close>

lemma run_id_inj_lemma:
  assumes "CHR ''_'' \<notin> set impl" "CHR ''_'' \<notin> set impl'" "CHR ''_'' \<notin> set fault" "CHR ''_'' \<notin> set fault'"
  shows "run_id impl fault rep condition = run_id impl' fault' rep' condition' \<longleftrightarrow>
    impl = impl' \<and> fault = fault' \<and> rep = rep' \<and> condition = condition'"
proof -
  have d: "CHR ''_'' \<notin> set (dec02 n)" for n using dec02_chars by fastforce
  show ?thesis
    using assms d by (simp add: run_id_def sep_append_inj)
qed

text \<open>
  Run identifiers are unambiguous: two runs of implementations and faults whose names contain
  no underscore have the same identifier only if implementation, fault, repetition and condition
  are the same. The padding of the repetition to two digits does not merge repetitions.
\<close>

theorem run_id_injective:
  "inj_on (\<lambda>(impl, fault, rep, condition). run_id impl fault rep condition)
     {(impl, fault, rep, condition). CHR ''_'' \<notin> set impl \<and> CHR ''_'' \<notin> set fault}"
  by (rule inj_onI) (auto simp: run_id_inj_lemma)

end
