(* ===== verification/Tally.thy ===== *)
theory Tally
  imports Run_Record
begin

text \<open>
  Counting records per key, the way all the summaries of \<open>aggregate.py\<close> and \<open>analyze.py\<close> do it: a
  dictionary that keeps the order of insertion, \<open>setdefault\<close> with a row of zeros and an update of
  the row. \<open>load_records\<close> reads the documents of a run directory in the order of their file names.

  The locale \<open>tally\<close> is the contract of such a summary: it is determined by the key of a record, the
  row of zeros and the update. It shows that the summary has one row per key that occurs, and that
  the row of a key is the fold of the update over the records of that key.
\<close>

section \<open>Definitions\<close>

fun dict_update :: "'k \<Rightarrow> 'c \<Rightarrow> ('c \<Rightarrow> 'c) \<Rightarrow> ('k \<times> 'c) list \<Rightarrow> ('k \<times> 'c) list" where
  "dict_update k init f [] = [(k, f init)]"
| "dict_update k init f ((k', c) # d) = (if k' = k then (k', f c) # d else (k', c) # dict_update k init f d)"

text \<open>\<open>sorted(Path(run_dir).glob("*.json"))\<close> followed by \<open>RunRecord.from_json\<close>.\<close>

type_synonym run_dir = "(string \<times> dict) list"

definition load_records :: "run_dir \<Rightarrow> RunRecord list result" where
  "load_records files = rmap (\<lambda>f. from_json (snd f)) (sort_key fst files)"

section \<open>The contract of a summary\<close>

lemma map_of_dict_update:
  "map_of (dict_update k init f d) k' =
     (if k' = k then Some (f (case map_of d k of None \<Rightarrow> init | Some c \<Rightarrow> c)) else map_of d k')"
  by (induction d) auto

lemma dict_update_keys: "fst ` set (dict_update k init f d) = insert k (fst ` set d)"
proof (induction d)
  case (Cons x d)
  then show ?case by (cases x) (simp add: insert_commute)
qed simp

lemma dict_update_distinct: "distinct (map fst d) \<Longrightarrow> distinct (map fst (dict_update k init f d))"
proof (induction d)
  case (Cons x d)
  have "fst ` set (dict_update k init f d) = insert k (fst ` set d)" by (rule dict_update_keys)
  with Cons show ?case by (cases x) auto
qed simp

locale tally =
  fixes summary :: "'r list \<Rightarrow> ('k \<times> 'c) list"
    and key :: "'r \<Rightarrow> 'k"
    and init :: 'c
    and step :: "'r \<Rightarrow> 'c \<Rightarrow> 'c"
  assumes summary_fold: "summary rs = fold (\<lambda>r. dict_update (key r) init (step r)) rs []"
begin

lemma fold_update:
  "map_of (fold (\<lambda>r. dict_update (key r) init (step r)) rs d) k =
     (if k \<in> key ` set rs then Some (fold step (filter (\<lambda>r. key r = k) rs) (case map_of d k of None \<Rightarrow> init | Some c \<Rightarrow> c))
      else map_of d k)"
proof (induction rs arbitrary: d)
  case (Cons r rs)
  have "filter (\<lambda>x. key x = key r) rs = []" if "key r \<notin> key ` set rs" using that unfolding filter_empty_conv by (metis imageI)
  then show ?case using Cons by (auto simp: map_of_dict_update)
qed simp

lemma summary_lookup:
  "map_of (summary rs) k = (if k \<in> key ` set rs then Some (fold step (filter (\<lambda>r. key r = k) rs) init) else None)"
  by (simp add: summary_fold fold_update)

lemma summary_distinct: "distinct (map fst (summary rs))"
proof -
  have "distinct (map fst d) \<Longrightarrow> distinct (map fst (fold (\<lambda>r. dict_update (key r) init (step r)) rs d))" for d
    by (induction rs arbitrary: d) (auto intro: dict_update_distinct)
  then show ?thesis by (simp add: summary_fold)
qed

lemma summary_keys: "fst ` set (summary rs) = key ` set rs"
proof -
  have "fst ` set (fold (\<lambda>r. dict_update (key r) init (step r)) rs d) = fst ` set d \<union> key ` set rs" for d
    by (induction rs arbitrary: d) (auto simp: dict_update_keys)
  then show ?thesis by (simp add: summary_fold)
qed

lemma summary_length: "length (summary rs) = card (key ` set rs)"
  using distinct_card [OF summary_distinct] summary_keys by simp

lemma summary_rows: "(k, c) \<in> set (summary rs) \<longleftrightarrow> k \<in> key ` set rs \<and> c = fold step (filter (\<lambda>r. key r = k) rs) init"
  using map_of_eq_Some_iff [OF summary_distinct, of rs k c] by (auto simp: summary_lookup split: if_splits)

end

text \<open>A counter that a row keeps: how many of the records satisfy a condition.\<close>

definition count_if :: "('r \<Rightarrow> bool) \<Rightarrow> 'r list \<Rightarrow> nat" where
  "count_if P rs = length (filter P rs)"

lemma count_if_simps [simp]:
  "count_if P [] = 0"
  "count_if P (r # rs) = (if P r then Suc (count_if P rs) else count_if P rs)"
  by (simp_all add: count_if_def)

lemma count_if_True [simp]: "count_if (\<lambda>r. True) rs = length rs"
  by (simp add: count_if_def)

lemma count_if_all: "count_if P rs = length rs \<longleftrightarrow> (\<forall>r \<in> set rs. P r)"
proof (induction rs)
  case (Cons r rs)
  have "count_if P rs \<le> length rs" by (simp add: count_if_def)
  with Cons show ?case by auto
qed simp

lemma count_if_none: "count_if P rs = 0 \<longleftrightarrow> (\<forall>r \<in> set rs. \<not> P r)"
  by (auto simp: count_if_def filter_empty_conv)

lemma count_if_not: "count_if P rs + count_if (\<lambda>r. \<not> P r) rs = length rs"
  by (induction rs) auto

end
