(* ===== verification/Py_Regex.thy ===== *)
theory Py_Regex
  imports Py_Str
begin

text \<open>
  The fragment of Python's \<open>re\<close> module that the log readers use: characters, concatenation,
  alternation, greedy and lazy repetition of a character class, a capturing group, \<open>$\<close> and conditions
  on the text ahead.
  \<open>matches r s\<close> lists the matches at the start of \<open>s\<close> in the order in which the backtracking engine
  tries them, each with its captured groups and the rest of the input; \<open>search\<close> takes the first match
  at the first position that has one, as \<open>re.search\<close> does.
\<close>

section \<open>Definitions\<close>

datatype rx =
    Chr "char \<Rightarrow> bool"
  | Rep bool nat "char \<Rightarrow> bool" \<comment> \<open>greedy?, least number of characters, class\<close>
  | Seq rx rx
  | Alt rx rx
  | Grp rx
  | EndOfText
  | Ahead "string \<Rightarrow> bool" \<comment> \<open>condition on the rest of the input, such as the end of a word\<close>

fun matches :: "rx \<Rightarrow> string \<Rightarrow> (string list \<times> string) list" where
  "matches (Chr p) s = (case s of [] \<Rightarrow> [] | c # cs \<Rightarrow> if p c then [([], cs)] else [])"
| "matches (Rep greedy m p) s =
     (let ks = [m..<Suc (length (takeWhile p s))] in
      map (\<lambda>k. ([], drop k s)) (if greedy then rev ks else ks))"
| "matches (Seq a b) s = concat (map (\<lambda>(g, t). map (\<lambda>(h, u). (g @ h, u)) (matches b t)) (matches a s))"
| "matches (Alt a b) s = matches a s @ matches b s"
| "matches (Grp a) s = map (\<lambda>(g, t). (take (length s - length t) s # g, t)) (matches a s)"
| "matches EndOfText s = (if s = [] \<or> s = [CHR 0x0A] then [([], s)] else [])"
| "matches (Ahead p) s = (if p s then [([], s)] else [])"

fun search :: "rx \<Rightarrow> string \<Rightarrow> string list option" where
  "search r s = (case matches r s of m # _ \<Rightarrow> Some (fst m)
     | [] \<Rightarrow> (case s of [] \<Rightarrow> None | _ # cs \<Rightarrow> search r cs))"

declare search.simps [simp del]

text \<open>
  A pattern that begins with \<open>\b\<close> or \<open>^\<close> may start only where the character in front satisfies a
  condition; \<open>prev\<close> is that character, \<open>None\<close> at the start of the text.
\<close>

fun search_at :: "(char option \<Rightarrow> bool) \<Rightarrow> rx \<Rightarrow> char option \<Rightarrow> string \<Rightarrow> string list option" where
  "search_at ok r prev s = (case if ok prev then matches r s else [] of m # _ \<Rightarrow> Some (fst m)
     | [] \<Rightarrow> (case s of [] \<Rightarrow> None | c # cs \<Rightarrow> search_at ok r (Some c) cs))"

declare search_at.simps [simp del]

text \<open>\<open>\w\<close>: letters, digits and the underscore, for code points below 256.\<close>

definition is_word :: "char \<Rightarrow> bool" where
  "is_word c = (let n = of_char c :: nat in
     48 \<le> n \<and> n \<le> 57 \<or> 65 \<le> n \<and> n \<le> 90 \<or> n = 95 \<or> 97 \<le> n \<and> n \<le> 122 \<or>
     List.member [0xAA, 0xB2, 0xB3, 0xB5, 0xB9, 0xBA, 0xBC, 0xBD, 0xBE] n \<or> 0xC0 \<le> n \<and> n \<noteq> 0xD7 \<and> n \<noteq> 0xF7)"

text \<open>The condition of \<open>\b\<close> in front of and behind a word character.\<close>

definition word_starts :: "char option \<Rightarrow> bool" where
  "word_starts prev = (case prev of None \<Rightarrow> True | Some c \<Rightarrow> \<not> is_word c)"

definition word_ends :: "string \<Rightarrow> bool" where
  "word_ends s = (case s of [] \<Rightarrow> True | c # _ \<Rightarrow> \<not> is_word c)"

text \<open>A literal under \<open>(?i)\<close>; \<open>w\<close> is given in lower case.\<close>

fun ilit :: "string \<Rightarrow> rx" where
  "ilit [] = Ahead (\<lambda>_. True)"
| "ilit (c # cs) = Seq (Chr (\<lambda>x. lower_char x = c)) (ilit cs)"

fun lit :: "string \<Rightarrow> rx" where
  "lit [] = Rep True 0 (\<lambda>_. False)"
| "lit [c] = Chr (\<lambda>x. x = c)"
| "lit (c # d # cs) = Seq (Chr (\<lambda>x. x = c)) (lit (d # cs))"

abbreviation spaces :: rx where "spaces \<equiv> Rep True 0 is_space"
abbreviation non_spaces :: rx where "non_spaces \<equiv> Rep True 1 (\<lambda>c. \<not> is_space c)"

section \<open>Lemmas\<close>

lemma matches_suffix: "(g, t) \<in> set (matches r s) \<Longrightarrow> \<exists>p. s = p @ t"
proof (induction r arbitrary: s g t)
  case (Rep greedy m p)
  then obtain k where "t = drop k s" by (auto simp: Let_def split: if_splits)
  then show ?case by (metis append_take_drop_id)
next
  case (Seq a b)
  then obtain g' t' h where "(g', t') \<in> set (matches a s)" "(h, t) \<in> set (matches b t')" by auto
  with Seq.IH obtain p q where "s = p @ t'" "t' = q @ t" by blast
  then show ?case by auto
qed (auto split: list.splits if_splits)

lemma matches_lit: "matches (lit w) s = (if starts_with w s then [([], drop (length w) s)] else [])"
proof (induction w arbitrary: s rule: lit.induct)
  case 1
  then show ?case by (cases s) auto
next
  case (2 c)
  then show ?case by (cases s) auto
next
  case (3 c d cs)
  then show ?case by (cases s) auto
qed

lemma matches_ilit:
  "matches (ilit w) s = (if length w \<le> length s \<and> map lower_char (take (length w) s) = w then [([], drop (length w) s)] else [])"
proof (induction w arbitrary: s)
  case (Cons c w)
  then show ?case by (cases s) auto
qed simp

lemma matches_ilit_iff: "matches (ilit w) s \<noteq> [] \<longleftrightarrow> (\<exists>v t. s = v @ t \<and> map lower_char v = w)"
proof -
  have "(length w \<le> length s \<and> map lower_char (take (length w) s) = w) \<longleftrightarrow> (\<exists>v t. s = v @ t \<and> map lower_char v = w)"
    by (metis append_eq_conv_conj append_take_drop_id length_map length_take min_def le_add1 length_append)
  then show ?thesis by (simp add: matches_ilit)
qed

text \<open>The ways to match a sequence or an alternative, for patterns whose groups do not matter.\<close>

definition rests :: "rx \<Rightarrow> string \<Rightarrow> string set" where "rests r s = snd ` set (matches r s)"

lemma rests_Rep [simp]: "rests (Rep g m q) s = (\<lambda>k. drop k s) ` {m..length (takeWhile q s)}"
proof -
  have "set [m..<Suc (length (takeWhile q s))] = {m..length (takeWhile q s)}" by (simp only: set_upt atLeastLessThanSuc_atLeastAtMost)
  then show ?thesis by (simp only: rests_def matches.simps Let_def set_map if_distrib [of set] set_rev if_cancel image_image snd_conv)
qed

lemma rests_simps [simp]:
  "rests (Seq a b) s = (\<Union>t \<in> rests a s. rests b t)"
  "rests (Alt a b) s = rests a s \<union> rests b s"
  "rests (Grp a) s = rests a s"
  "rests (Ahead p) s = (if p s then {s} else {})"
  by (simp_all add: rests_def image_UN image_Un image_image split_def)

lemma rests_ilit: "rests (ilit w) s = {t. \<exists>v. s = v @ t \<and> map lower_char v = w}"
  by (auto simp: rests_def matches_ilit split: if_splits) (metis append_take_drop_id)

declare ilit.simps [simp del]

lemma matches_ne: "matches r s \<noteq> [] \<longleftrightarrow> rests r s \<noteq> {}"
  by (simp add: rests_def)

text \<open>Where a search with a condition on the character in front succeeds.\<close>

lemma search_at_Some_iff:
  "search_at ok r prev s \<noteq> None \<longleftrightarrow>
     (\<exists>a b. s = a @ b \<and> ok (if a = [] then prev else Some (last a)) \<and> rests r b \<noteq> {})"
proof (induction s arbitrary: prev)
  case Nil
  then show ?case by (auto simp: search_at.simps [of _ _ _ "[]"] matches_ne [symmetric] split: list.splits)
next
  case (Cons c s)
  have "(\<exists>a b. c # s = a @ b \<and> ok (if a = [] then prev else Some (last a)) \<and> rests r b \<noteq> {}) \<longleftrightarrow>
      (ok prev \<and> rests r (c # s) \<noteq> {}) \<or>
      (\<exists>a b. s = a @ b \<and> ok (if a = [] then Some c else Some (last a)) \<and> rests r b \<noteq> {})" (is "?L \<longleftrightarrow> ?R")
  proof
    assume ?L
    then obtain a b where ab: "c # s = a @ b" "ok (if a = [] then prev else Some (last a))" "rests r b \<noteq> {}" by blast
    then show ?R by (cases a) (auto split: if_splits)
  next
    assume ?R
    then show ?L
    proof
      assume "ok prev \<and> rests r (c # s) \<noteq> {}"
      then show ?L by (intro exI [of _ "[]"] exI [of _ "c # s"]) simp
    next
      assume "\<exists>a b. s = a @ b \<and> ok (if a = [] then Some c else Some (last a)) \<and> rests r b \<noteq> {}"
      then obtain a b where "s = a @ b" "ok (if a = [] then Some c else Some (last a))" "rests r b \<noteq> {}" by blast
      then show ?L by (intro exI [of _ "c # a"] exI [of _ b]) auto
    qed
  qed
  moreover have "search_at ok r prev (c # s) \<noteq> None \<longleftrightarrow> (ok prev \<and> rests r (c # s) \<noteq> {}) \<or> search_at ok r (Some c) s \<noteq> None"
    by (auto simp: search_at.simps [of _ _ _ "c # s"] matches_ne [symmetric] split: list.splits)
  ultimately show ?case using Cons by simp
qed

lemma matches_spaces_hd: "matches spaces s = ([], dropWhile is_space s) # tl (matches spaces s)"
  by (simp add: Let_def dropWhile_eq_drop)

lemma matches_non_spaces:
  "matches non_spaces s =
     map (\<lambda>k. ([], drop k s)) (rev [1..<Suc (length (takeWhile (\<lambda>c. \<not> is_space c) s))])"
  by (simp add: Let_def)

lemma search_Nil [simp]: "matches r [] = [] \<Longrightarrow> search r [] = None"
  by (simp add: search.simps)

lemma search_here: "matches r s = (g, t) # ms \<Longrightarrow> search r s = Some g"
  by (subst search.simps) simp

lemma search_later: "matches r (c # cs) = [] \<Longrightarrow> search r (c # cs) = search r cs"
  by (subst search.simps) simp

lemma search_Some:
  assumes "search r s = Some g"
  obtains a b t where "s = a @ b" "(g, t) \<in> set (matches r b)"
  using assms
proof (induction s arbitrary: thesis)
  case Nil
  from Nil.prems(2) obtain m ms where "matches r [] = m # ms" "fst m = g"
    by (auto simp: search.simps [of r "[]"] split: list.splits)
  then show ?case using Nil.prems(1) [of "[]" "[]" "snd m"] by (cases m) simp
next
  case (Cons c cs)
  show ?case
  proof (cases "matches r (c # cs)")
    case Nil
    then have "search r cs = Some g" using Cons.prems(2) by (simp add: search_later)
    then obtain a b t where "cs = a @ b" "(g, t) \<in> set (matches r b)" using Cons.IH by blast
    then show ?thesis using Cons.prems(1) [of "c # a" b t] by simp
  next
    case (Cons m ms)
    then have "fst m = g" using Cons.prems(2) by (subst (asm) search.simps) simp
    then show ?thesis using Cons Cons.prems(1) [of "[]" "c # cs" "snd m"] by (cases m) simp
  qed
qed

text \<open>Searching skips a prefix at none of whose positions a match starts.\<close>

lemma search_skip:
  "(\<And>a b. p = a @ b \<Longrightarrow> b \<noteq> [] \<Longrightarrow> matches r (b @ s) = []) \<Longrightarrow> search r (p @ s) = search r s"
proof (induction p)
  case (Cons c p)
  have "matches r ((c # p) @ s) = []" using Cons.prems [of "[]" "c # p"] by simp
  moreover have "search r (p @ s) = search r s"
    by (rule Cons.IH) (use Cons.prems in \<open>metis append_Cons\<close>)
  ultimately show ?case by (simp add: search_later)
qed simp

lemma matches_word:
  assumes "w \<noteq> []" "list_all (\<lambda>c. \<not> is_space c) w" "t = [] \<or> is_space (hd t)"
  shows "matches non_spaces (w @ t) = ([], t) # tl (matches non_spaces (w @ t))"
proof -
  have "takeWhile (\<lambda>c. \<not> is_space c) t = []" using assms(3) by (cases t) auto
  then have "takeWhile (\<lambda>c. \<not> is_space c) (w @ t) = w"
    using assms(2) by (simp add: list_all_iff takeWhile_append2)
  then show ?thesis using assms(1) unfolding matches_non_spaces by (cases "length w") auto
qed

end
