(* ===== verification/Harness_Logs.thy ===== *)
theory Harness_Logs
  imports Py_Regex Run_Record
begin

text \<open>
  The log readers of \<open>tools/faultinject/harness.py\<close>: the negotiated group (\<open>parse_group\<close>), the
  handshake result (\<open>parse_handshake\<close>), the HelloRetryRequest marks (\<open>detect_hrr\<close>), the size of the
  ServerHello (\<open>server_hello_is_hybrid\<close>) and the metrics made of them (\<open>collect_metrics\<close>,
  \<open>collect_metrics_v11\<close>). An implementation that the tables do not name raises \<open>KeyError\<close>.
\<close>

section \<open>Definitions\<close>

definition GROUP_RE :: "string \<rightharpoonup> rx" where
  "GROUP_RE = [''openssl'' \<mapsto>
       Seq (Alt (Seq (lit ''Negotiated TLS1.3 group:'') spaces) (Seq (lit ''Peer Temp Key:'') spaces))
         (Seq (Grp (Rep False 1 (\<lambda>c. \<not> is_space c))) (Alt (lit '','') (Alt (Chr is_space) EndOfText))),
     ''boringssl'' \<mapsto> Seq (lit ''ECDHE group:'') (Seq spaces (Grp non_spaces)),
     ''openssh'' \<mapsto> Seq (lit ''kex: algorithm:'') (Seq spaces (Grp non_spaces))]"

definition SUCCESS_MARK :: "string \<rightharpoonup> (string \<Rightarrow> bool)" where
  "SUCCESS_MARK = [
     ''openssl'' \<mapsto> (\<lambda>text. contains ''Negotiated TLS1.3 group:'' text \<or>
        (contains ''New, TLSv1.3'' text \<and> contains ''DONE'' text)),
     ''boringssl'' \<mapsto> (\<lambda>text. contains ''Connected.'' text \<and> contains ''Version: TLSv1.3'' text),
     ''openssh'' \<mapsto> (\<lambda>text. contains ''using \"publickey\"'' text)]"

definition parse_group :: "string \<Rightarrow> string \<Rightarrow> string option result" where
  "parse_group impl client_log_text =
     (case GROUP_RE impl of None \<Rightarrow> Inl (KeyError impl)
      | Some re \<Rightarrow>
        let grp = (case search re client_log_text of Some (g # _) \<Rightarrow> Some g | _ \<Rightarrow> None) in
        Inr (if grp = Some ''<NULL>'' then None else grp))"

definition parse_handshake :: "string \<Rightarrow> string \<Rightarrow> int \<Rightarrow> string result" where
  "parse_handshake impl client_log_text exit_code =
     (if exit_code = 0 then
        (case SUCCESS_MARK impl of None \<Rightarrow> Inl (KeyError impl)
         | Some mark \<Rightarrow> Inr (if mark client_log_text then ''success'' else ''failure''))
      else Inr ''failure'')"

definition collect_metrics :: "string \<Rightarrow> string \<Rightarrow> int \<Rightarrow> Metrics result" where
  "collect_metrics impl client_log_text exit_code =
     rbind (parse_group impl client_log_text) (\<lambda>grp.
     let is_hyb = (case grp of None \<Rightarrow> False | Some g \<Rightarrow> List.member HYBRID_GROUPS g) in
     rbind (parse_handshake impl client_log_text exit_code) (\<lambda>result.
       Inr (new_metrics grp is_hyb (grp \<noteq> None \<and> \<not> is_hyb) result)))"

definition is_hex_digit :: "char \<Rightarrow> bool" where
  "is_hex_digit c = (let n = of_char c :: nat in 48 \<le> n \<and> n \<le> 57 \<or> 97 \<le> n \<and> n \<le> 102 \<or> 65 \<le> n \<and> n \<le> 70)"

definition SERVERHELLO_LEN_RE :: rx where
  "SERVERHELLO_LEN_RE = Seq (lit ''Handshake [length '') (Seq (Grp (Rep True 1 is_hex_digit)) (lit ''], ServerHello''))"

definition detect_hrr :: "string \<Rightarrow> bool" where
  "detect_hrr client_log_text \<longleftrightarrow>
     contains ''HelloRetryRequest'' client_log_text \<or> contains ''03 03 cf 21 ad 74 e5 9a 61 11'' client_log_text"

definition server_hello_is_hybrid :: "string \<Rightarrow> bool option" where
  "server_hello_is_hybrid client_log_text =
     (case search SERVERHELLO_LEN_RE client_log_text of
        Some (h # _) \<Rightarrow> Some (base_val 16 (map lower_char h) \<ge> 0x0400)
      | _ \<Rightarrow> None)"

definition audit_flags_downgrade :: "bool \<Rightarrow> bool \<Rightarrow> bool" where
  "audit_flags_downgrade adv_hybrid negotiated_is_hybrid = False"

definition collect_metrics_v11 :: "string \<Rightarrow> string \<Rightarrow> int \<Rightarrow> bool \<Rightarrow> Metrics result" where
  "collect_metrics_v11 impl client_log_text exit_code adv_hybrid =
     rbind (collect_metrics impl client_log_text exit_code) (\<lambda>base.
     let base = (if negotiated_group base = None then
         (case server_hello_is_hybrid client_log_text of None \<Rightarrow> base
          | Some sh_hybrid \<Rightarrow> base\<lparr>is_hybrid := sh_hybrid, downgrade_visible := \<not> sh_hybrid\<rparr>)
         else base) in
     Inr (base\<lparr>hrr_present := Some (detect_hrr client_log_text), advertised_hybrid := Some adv_hybrid,
       downgrade_flagged := Some (audit_flags_downgrade adv_hybrid (is_hybrid base))\<rparr>))"

section \<open>Reading a group back\<close>

text \<open>The text in front of the group, per implementation.\<close>

definition group_marker :: "string \<rightharpoonup> string" where
  "group_marker = [''openssl'' \<mapsto> ''Negotiated TLS1.3 group:'', ''boringssl'' \<mapsto> ''ECDHE group:'',
     ''openssh'' \<mapsto> ''kex: algorithm:'']"

lemma starts_with_early:
  assumes "starts_with w (b @ v @ r)" "length w \<le> length v"
  shows "starts_with w (b @ v)"
proof -
  have "take (length w) (b @ v @ r) = w" using assms(1) by (simp only: starts_with_take)
  then have "take (length w) (b @ v) = w" using assms(2) by simp
  then show ?thesis by (simp only: starts_with_take)
qed

lemma no_early_start: "\<not> contains w (a @ b @ butlast w) \<Longrightarrow> b \<noteq> [] \<Longrightarrow> \<not> starts_with w (b @ w @ r)"
  using starts_with_butlast contains_later by blast

lemma starts_with_self [simp]: "starts_with w (w @ r)"
  by (auto simp: starts_with_iff)

lemma search_marker:
  assumes "\<not> contains w (pre @ butlast w)" "matches q s = (g, t) # ms"
  shows "search (Seq (lit w) q) (pre @ w @ s) = Some g"
proof -
  have "matches (Seq (lit w) q) (b @ w @ s) = []" if "pre = a @ b" "b \<noteq> []" for a b
    using no_early_start [of w a b s] that assms(1) by (simp add: matches_lit)
  then have "search (Seq (lit w) q) (pre @ w @ s) = search (Seq (lit w) q) (w @ s)"
    by (rule search_skip)
  also have "\<dots> = Some g" using assms(2) by (intro search_here) (auto simp: matches_lit)
  finally show ?thesis .
qed

lemma is_space_blank [simp]: "is_space CHR '' ''"
  by (simp add: is_space_def)

lemma matches_spaces_word:
  assumes "w \<noteq> []" "list_all (\<lambda>c. \<not> is_space c) w" "matches q (w @ t) = (g, u) # ms"
  shows "\<exists>ms'. matches (Seq spaces q) ('' '' @ w @ t) = (g, u) # ms'"
proof -
  have "dropWhile is_space ('' '' @ w @ t) = w @ t" using assms(1,2) by (cases w) auto
  then have "matches spaces ('' '' @ w @ t) = ([], w @ t) # tl (matches spaces ('' '' @ w @ t))"
    using matches_spaces_hd [of "'' '' @ w @ t"] by simp
  then obtain ms' where "matches spaces ('' '' @ w @ t) = ([], w @ t) # ms'" by blast
  then show ?thesis using assms(3) unfolding matches.simps(3) by (simp del: matches.simps)
qed

lemma matches_group_word:
  assumes "w \<noteq> []" "list_all (\<lambda>c. \<not> is_space c) w" "t = [] \<or> is_space (hd t)"
  shows "\<exists>ms. matches (Grp non_spaces) (w @ t) = ([w], t) # ms"
proof -
  obtain ms where "matches non_spaces (w @ t) = ([], t) # ms" using matches_word [OF assms] by blast
  then show ?thesis unfolding matches.simps(5) by (simp del: matches.simps)
qed

lemma lazy_group_word:
  assumes "w \<noteq> []" "list_all (\<lambda>c. \<not> is_space c \<and> c \<noteq> CHR '','') w" "t = [] \<or> is_space (hd t)"
  shows "\<exists>u ms. matches (Seq (Grp (Rep False 1 (\<lambda>c. \<not> is_space c))) (Alt (lit '','') (Alt (Chr is_space) EndOfText))) (w @ t) =
    ([w], u) # ms"
proof -
  let ?tail = "Alt (lit '','') (Alt (Chr is_space) EndOfText)"
  have tw: "takeWhile (\<lambda>c. \<not> is_space c) (w @ t) = w"
    using assms(2,3) by (cases t) (auto simp: list_all_iff takeWhile_append2)
  have early: "matches ?tail (drop k (w @ t)) = []" if k: "k < length w" for k
  proof -
    obtain c cs where c: "drop k w = c # cs" using k by (cases "drop k w") auto
    have "c \<in> set w" using c by (metis in_set_dropD list.set_intros(1))
    then have "\<not> is_space c" "c \<noteq> CHR '',''" using assms(2) by (auto simp: list_all_iff)
    moreover have "c # cs @ t \<noteq> [CHR 0x0A]" using \<open>\<not> is_space c\<close> by (auto simp: is_space_def)
    ultimately show ?thesis using c k by simp
  qed
  have last: "\<exists>u ms. matches ?tail t = ([], u) # ms"
  proof (cases t)
    case (Cons c cs)
    then have "is_space c" using assms(3) by simp
    moreover have "c \<noteq> CHR '',''" using \<open>is_space c\<close> by (auto simp: is_space_def)
    ultimately show ?thesis using Cons by simp
  qed simp
  have ks: "[1..<Suc (length w)] = [1..<length w] @ [length w]" using assms(1) by (cases w) auto
  have g: "matches (Grp (Rep False 1 (\<lambda>c. \<not> is_space c))) (w @ t) =
      map (\<lambda>k. ([take k (w @ t)], drop k (w @ t))) [1..<length w] @ [([w], t)]"
    using tw ks by (auto simp: Let_def)
  have "concat (map (\<lambda>(g, t). map (\<lambda>(h, u). (g @ h, u)) (matches ?tail t))
      (map (\<lambda>k. ([take k (w @ t)], drop k (w @ t))) [1..<length w])) = []"
    using early by (auto simp del: matches.simps lit.simps simp: comp_def split_def)
  then have "matches (Seq (Grp (Rep False 1 (\<lambda>c. \<not> is_space c))) ?tail) (w @ t) =
      map (\<lambda>(h, u). ([w] @ h, u)) (matches ?tail t)"
    unfolding matches.simps(3) g by (simp del: matches.simps lit.simps)
  moreover obtain u ms where "matches ?tail t = ([], u) # ms" using last by blast
  ultimately show ?thesis by (simp del: matches.simps lit.simps)
qed

lemma search_openssl:
  assumes "w \<noteq> []" "list_all (\<lambda>c. \<not> is_space c \<and> c \<noteq> CHR '','') w" "t = [] \<or> is_space (hd t)"
    and "\<not> contains ''Negotiated TLS1.3 group:'' (pre @ butlast ''Negotiated TLS1.3 group:'')"
    and "\<not> contains ''Peer Temp Key:'' (pre @ ''Negotiated TLS1.3 group:'')"
  shows "search (the (GROUP_RE ''openssl'')) (pre @ ''Negotiated TLS1.3 group:'' @ '' '' @ w @ t) = Some [w]"
proof -
  define A where "A = ''Negotiated TLS1.3 group:''"
  define B where "B = ''Peer Temp Key:''"
  define Q where "Q = Seq (Grp (Rep False 1 (\<lambda>c. \<not> is_space c))) (Alt (lit '','') (Alt (Chr is_space) EndOfText))"
  define R where "R = Seq (Alt (Seq (lit A) spaces) (Seq (lit B) spaces)) Q"
  have re: "the (GROUP_RE ''openssl'') = R" by (simp add: GROUP_RE_def R_def Q_def A_def B_def del: lit.simps)
  note ab = assms(4,5) [folded A_def B_def]
  have none: "matches R (b @ A @ '' '' @ w @ t) = []" if "pre = a @ b" "b \<noteq> []" for a b
  proof -
    have "\<not> starts_with A (b @ A @ '' '' @ w @ t)" using no_early_start [of A a b] ab(1) that by simp
    moreover have "\<not> starts_with B (b @ A @ '' '' @ w @ t)"
    proof
      assume "starts_with B (b @ A @ '' '' @ w @ t)"
      then have "starts_with B (b @ A)" by (rule starts_with_early) (simp add: A_def B_def)
      then show False using contains_later [of B b A a] ab(2) that by simp
    qed
    ultimately show ?thesis unfolding R_def matches.simps(3,4) by (simp add: matches_lit)
  qed
  have here: "\<exists>u ms. matches R (A @ '' '' @ w @ t) = ([w], u) # ms"
  proof -
    have "list_all (\<lambda>c. \<not> is_space c) w" using assms(2) by (auto simp: list_all_iff)
    then have "dropWhile is_space ('' '' @ w @ t) = w @ t" using assms(1) by (cases w) auto
    then obtain ms' where ms': "matches spaces ('' '' @ w @ t) = ([], w @ t) # ms'"
      using matches_spaces_hd [of "'' '' @ w @ t"] by metis
    have "matches (Seq (lit A) spaces) (A @ '' '' @ w @ t) = ([], w @ t) # map (\<lambda>(h, u). (h, u)) ms'"
      unfolding matches.simps(3) using ms' by (simp add: matches_lit del: matches.simps)
    moreover obtain u ms where "matches Q (w @ t) = ([w], u) # ms"
      using lazy_group_word [OF assms(1-3)] unfolding Q_def by blast
    ultimately show ?thesis unfolding R_def matches.simps(3) [of "Alt _ _"] matches.simps(4)
      by (simp del: matches.simps)
  qed
  have "search R (pre @ A @ '' '' @ w @ t) = search R (A @ '' '' @ w @ t)" by (rule search_skip) (rule none)
  then show ?thesis using here re unfolding A_def by (metis search_here)
qed

lemma matches_SeqD:
  "(g, u) \<in> set (matches (Seq a b) s) \<Longrightarrow> \<exists>g1 t g2. (g1, t) \<in> set (matches a s) \<and> (g2, u) \<in> set (matches b t) \<and> g = g1 @ g2"
  by auto

lemma matches_grp_word:
  assumes "(gs, t) \<in> set (matches (Grp (Rep greedy 1 (\<lambda>c. \<not> is_space c))) s)"
  shows "\<exists>g. gs = [g] \<and> g \<noteq> [] \<and> (\<forall>c \<in> set g. \<not> is_space c) \<and> s = g @ t"
proof -
  let ?tw = "takeWhile (\<lambda>c. \<not> is_space c) s"
  obtain k where k: "1 \<le> k" "k \<le> length ?tw" "t = drop k s" "gs = [take (length s - length t) s]"
    using assms by (auto simp: Let_def split: if_splits)
  have kl: "k \<le> length s" using k(2) length_takeWhile_le [of "\<lambda>c. \<not> is_space c" s] by linarith
  then have g: "gs = [take k s]" using k(3,4) by simp
  have "take k s = take k ?tw" using k(2) by (metis append_take_drop_id takeWhile_eq_take take_take min.absorb1)
  then have "\<forall>c \<in> set (take k s). \<not> is_space c" by (metis in_set_takeD set_takeWhileD)
  then show ?thesis using g k(1,3) kl by (intro exI [of _ "take k s"]) auto
qed

text \<open>Expressions whose first group is a word of the input, and expressions without groups.\<close>

definition word_rx :: "rx \<Rightarrow> bool" where
  "word_rx r \<longleftrightarrow> (\<forall>s gs t. (gs, t) \<in> set (matches r s) \<longrightarrow>
     (\<exists>g gs'. gs = g # gs' \<and> g \<noteq> [] \<and> (\<forall>c \<in> set g. \<not> is_space c) \<and> contains g s))"

definition silent_rx :: "rx \<Rightarrow> bool" where
  "silent_rx r \<longleftrightarrow> (\<forall>s gs t. (gs, t) \<in> set (matches r s) \<longrightarrow> gs = [])"

lemma contains_suffix: "contains g t \<Longrightarrow> contains g (p @ t)"
  by (auto simp: contains_iff) (metis append_assoc)

lemma word_rx_Grp: "word_rx (Grp (Rep greedy 1 (\<lambda>c. \<not> is_space c)))"
proof -
  have "contains g (g @ t)" for g t :: string unfolding contains_iff by (metis append_Nil)
  then show ?thesis unfolding word_rx_def using matches_grp_word by blast
qed

lemma word_rx_Seq_left: "word_rx a \<Longrightarrow> word_rx (Seq a b)"
  unfolding word_rx_def by (metis append_Cons matches_SeqD)

lemma word_rx_Seq_right:
  assumes "silent_rx a" "word_rx b"
  shows "word_rx (Seq a b)"
  unfolding word_rx_def
proof (intro allI impI)
  fix s gs t
  assume "(gs, t) \<in> set (matches (Seq a b) s)"
  then obtain g1 u g2 where m: "(g1, u) \<in> set (matches a s)" "(g2, t) \<in> set (matches b u)" "gs = g1 @ g2"
    using matches_SeqD by blast
  have "g1 = []" using m(1) assms(1) by (auto simp: silent_rx_def)
  moreover obtain p where "s = p @ u" using matches_suffix [OF m(1)] by blast
  ultimately show "\<exists>g gs'. gs = g # gs' \<and> g \<noteq> [] \<and> (\<forall>c \<in> set g. \<not> is_space c) \<and> contains g s"
    using m(2,3) assms(2) contains_suffix unfolding word_rx_def by force
qed

lemma silent_rx_intros:
  "silent_rx (lit w)" "silent_rx (Rep g n p)"
  "silent_rx a \<Longrightarrow> silent_rx b \<Longrightarrow> silent_rx (Seq a b)" "silent_rx a \<Longrightarrow> silent_rx b \<Longrightarrow> silent_rx (Alt a b)"
proof -
  show "silent_rx (lit w)" by (simp add: silent_rx_def matches_lit)
  show "silent_rx (Rep g n p)" by (auto simp: silent_rx_def Let_def split: if_splits)
  show "silent_rx a \<Longrightarrow> silent_rx b \<Longrightarrow> silent_rx (Seq a b)" unfolding silent_rx_def by fastforce
  show "silent_rx a \<Longrightarrow> silent_rx b \<Longrightarrow> silent_rx (Alt a b)" unfolding silent_rx_def matches.simps(4) set_append by blast
qed

lemma GROUP_RE_word: "GROUP_RE impl = Some re \<Longrightarrow> word_rx re"
proof -
  have a: "word_rx (Seq (lit w) (Seq spaces (Grp non_spaces)))" for w
    by (intro word_rx_Seq_right word_rx_Grp silent_rx_intros)
  have b: "word_rx (Seq (Alt (Seq (lit v) spaces) (Seq (lit w) spaces)) (Seq (Grp (Rep False 1 (\<lambda>c. \<not> is_space c))) q))" for v w q
    by (rule word_rx_Seq_right, intro silent_rx_intros) (rule word_rx_Seq_left [OF word_rx_Grp])
  show "GROUP_RE impl = Some re \<Longrightarrow> word_rx re"
    by (auto simp only: GROUP_RE_def map_upd_Some_unfold empty_iff option.distinct(2) fun_upd_apply option.inject a b split: if_splits)
qed

lemma search_word:
  assumes "word_rx re" "search re s = Some gs"
  shows "\<exists>g gs'. gs = g # gs' \<and> g \<noteq> [] \<and> (\<forall>c \<in> set g. \<not> is_space c) \<and> contains g s"
proof -
  obtain a b t where b: "s = a @ b" "(gs, t) \<in> set (matches re b)" using assms(2) by (rule search_Some)
  then show ?thesis using assms(1) contains_suffix unfolding word_rx_def by metis
qed

section \<open>Theorems\<close>

text \<open>
  C17. \<open>parse_group\<close> reads back the group that the client of the implementation printed: in a log in
  which the marker of the implementation stands for the first time in front of a blank, the group
  and the end of the line or of the log, the result is that group.
\<close>

theorem parse_group_reads_back:
  assumes "group_marker impl = Some w" "\<not> contains w (pre @ butlast w)" "\<not> contains ''Peer Temp Key:'' (pre @ w)"
    and "g \<noteq> []" "list_all (\<lambda>c. \<not> is_space c \<and> c \<noteq> CHR '','') g" "g \<noteq> ''<NULL>''" "post = [] \<or> is_space (hd post)"
  shows "parse_group impl (pre @ w @ '' '' @ g @ post) = Inr (Some g)"
proof -
  have ns: "list_all (\<lambda>c. \<not> is_space c) g" using assms(5) by (auto simp: list_all_iff)
  have word: "\<exists>u ms. matches (Seq spaces (Grp non_spaces)) ('' '' @ g @ post) = ([g], u) # ms"
    using matches_group_word [OF assms(4) ns assms(7)] matches_spaces_word [OF assms(4) ns] by metis
  have "\<exists>re. GROUP_RE impl = Some re \<and> search re (pre @ w @ '' '' @ g @ post) = Some [g]"
  proof (cases "impl = ''openssl''")
    case True
    then have "w = ''Negotiated TLS1.3 group:''" using assms(1) by (simp add: group_marker_def)
    then show ?thesis using True search_openssl [OF assms(4,5,7)] assms(2,3)
      by (simp add: GROUP_RE_def del: lit.simps)
  next
    case False
    then have "GROUP_RE impl = Some (Seq (lit w) (Seq spaces (Grp non_spaces)))"
      using assms(1) by (auto simp: group_marker_def GROUP_RE_def simp del: lit.simps split: if_splits)
    then show ?thesis using word search_marker [OF assms(2)] by blast
  qed
  then show ?thesis using assms(6) by (auto simp: parse_group_def)
qed

theorem parse_group_reads_back_witness:
  "parse_group ''openssh'' (''debug1: '' @ ''kex: algorithm:'' @ '' '' @ ''curve25519-sha256'' @ [CHR 0x0A]) =
     Inr (Some ''curve25519-sha256'')"
  by (rule parse_group_reads_back) (simp_all add: group_marker_def is_space_def)

text \<open>
  C18. What \<open>parse_group\<close> returns is a non-empty word of the log without white space and never the
  placeholder \<open><NULL>\<close>; it fails only for an implementation that the tables do not name.
\<close>

theorem parse_group_word:
  assumes "parse_group impl text = Inr (Some g)"
  shows "g \<noteq> [] \<and> (\<forall>c \<in> set g. \<not> is_space c) \<and> contains g text \<and> g \<noteq> ''<NULL>''"
proof -
  obtain re gs where re: "GROUP_RE impl = Some re" "search re text = Some (g # gs)" "g \<noteq> ''<NULL>''"
    using assms by (auto simp: parse_group_def Let_def split: option.splits list.splits if_splits)
  then show ?thesis using search_word [OF GROUP_RE_word [OF re(1)] re(2)] by auto
qed

theorem parse_group_word_witness:
  "parse_group ''openssh'' ''kex: algorithm: curve25519-sha256'' = Inr (Some ''curve25519-sha256'') \<and>
     contains ''curve25519-sha256'' ''kex: algorithm: curve25519-sha256''"
proof -
  have p: "parse_group ''openssh'' ''kex: algorithm: curve25519-sha256'' = Inr (Some ''curve25519-sha256'')"
    by (simp add: parse_group_def GROUP_RE_def search.simps is_space_def Let_def)
  from p parse_group_word [OF p] show ?thesis by blast
qed

text \<open>
  The metrics of a run are consistent: a run is never both hybrid and a visible downgrade;
  when the log names a group, hybrid means that the group is one of the known hybrids and a
  downgrade is visible exactly otherwise; success is reported only with exit code 0; and the audit
  flag is always set to false, whatever was advertised.
\<close>

theorem collect_metrics_v11_consistent:
  assumes "collect_metrics_v11 impl text exit_code adv = Inr m"
  shows "\<not> (is_hybrid m \<and> downgrade_visible m) \<and>
    (\<forall>g. negotiated_group m = Some g \<longrightarrow> is_hybrid m = List.member HYBRID_GROUPS g \<and> downgrade_visible m = (\<not> is_hybrid m)) \<and>
    (handshake_result m = ''success'' \<longrightarrow> exit_code = 0) \<and>
    downgrade_flagged m = Some False \<and> advertised_hybrid m = Some adv \<and> hrr_present m = Some (detect_hrr text)"
proof -
  obtain base where b: "collect_metrics impl text exit_code = Inr base"
    using assms by (auto simp: collect_metrics_v11_def res_simps)
  then obtain grp result where g: "parse_handshake impl text exit_code = Inr result"
    "base = new_metrics grp (case grp of None \<Rightarrow> False | Some g \<Rightarrow> List.member HYBRID_GROUPS g)
       (grp \<noteq> None \<and> \<not> (case grp of None \<Rightarrow> False | Some g \<Rightarrow> List.member HYBRID_GROUPS g)) result"
    by (auto simp: collect_metrics_def Let_def res_simps)
  have "result = ''success'' \<longrightarrow> exit_code = 0" using g(1) by (auto simp: parse_handshake_def split: if_splits)
  then show ?thesis using assms b g(2)
    by (cases grp) (auto simp: collect_metrics_v11_def new_metrics_def audit_flags_downgrade_def split: option.splits)
qed

theorem collect_metrics_v11_consistent_witness:
  "\<exists>m. collect_metrics_v11 ''openssh'' ''kex: algorithm: curve25519-sha256'' 1 True = Inr m \<and>
     \<not> (is_hybrid m \<and> downgrade_visible m) \<and> downgrade_flagged m = Some False"
proof -
  have "parse_group ''openssh'' ''kex: algorithm: curve25519-sha256'' = Inr (Some ''curve25519-sha256'')"
    by (simp add: parse_group_def GROUP_RE_def search.simps is_space_def Let_def)
  then obtain m where m: "collect_metrics_v11 ''openssh'' ''kex: algorithm: curve25519-sha256'' 1 True = Inr m"
    by (simp add: collect_metrics_v11_def collect_metrics_def parse_handshake_def Let_def)
  from m collect_metrics_v11_consistent [OF m] show ?thesis by blast
qed

end
