(* ===== verification/MITM_Proxy.thy ===== *)
theory MITM_Proxy
  imports Prelude
begin

text \<open>
  Model of \<open>tools/faultinject/mitm_proxy.py\<close>: \<open>run_proxy\<close>, which relays one connection and offers
  the client's payloads to a mutator until one of them comes back changed.

  The sockets are the environment. Each \<open>recv\<close> is an event: the socket it was called on, what it
  returned (or raised), and what the following \<open>sendall\<close> raised, if it did. \<open>select\<close> delivers the
  events in rounds; the empty round is its timeout. The state keeps the variables of the function
  and the history of the two sockets: the payloads each delivered, the payloads each was sent, and
  the sockets whose write side was shut down. The mutator has a state of its own (the log file it
  appends to).

  \<open>proxy_step\<close> is the state machine of the loop, \<open>proxy_loop\<close> the loop itself; \<open>mutate_stream\<close> is the
  abstract specification of what the server gets to see of the client's payloads.
\<close>

section \<open>Definitions\<close>

datatype side = Client | Upstream

fun peer :: "side \<Rightarrow> side" where
  "peer Client = Upstream"
| "peer Upstream = Client"

type_synonym 'm mutator = "bytes \<Rightarrow> 'm \<Rightarrow> (bytes \<times> 'm) result"
type_synonym event = "side \<times> bytes result \<times> py_error option"

record ProxyResult =
  res_mutated :: bool
  res_client_to_server_bytes :: nat
  res_server_to_client_bytes :: nat

record 'm proxy_state =
  mutated :: bool
  client_to_server_bytes :: nat
  server_to_client_bytes :: nat
  open_sockets :: "side set"
  shutdowns :: "side set"
  from_client :: "bytes list"
  from_upstream :: "bytes list"
  to_client :: "bytes list"
  to_upstream :: "bytes list"
  mstate :: 'm

definition start_state :: "'m \<Rightarrow> 'm proxy_state" where
  "start_state m = \<lparr>mutated = False, client_to_server_bytes = 0, server_to_client_bytes = 0,
     open_sockets = {Client, Upstream}, shutdowns = {}, from_client = [], from_upstream = [], to_client = [],
     to_upstream = [], mstate = m\<rparr>"

text \<open>The payload read before the loop (lines 33 to 41).\<close>

definition first_payload :: "'m mutator \<Rightarrow> bytes result \<times> py_error option \<Rightarrow> 'm proxy_state \<Rightarrow> 'm proxy_state result" where
  "first_payload mutate ev s = (case ev of (received, send_error) \<Rightarrow>
     rbind received (\<lambda>first.
     if first \<noteq> [] then
       rbind (mutate first (mstate s)) (\<lambda>(forged, m).
       case send_error of Some e \<Rightarrow> Inl e | None \<Rightarrow>
         Inr (s\<lparr>mutated := (forged \<noteq> first), client_to_server_bytes := client_to_server_bytes s + length forged,
           from_client := from_client s @ [first], to_upstream := to_upstream s @ [forged], mstate := m\<rparr>))
     else Inr s))"

text \<open>One iteration of \<open>for source in readable\<close>.\<close>

definition relay :: "'m mutator \<Rightarrow> event \<Rightarrow> 'm proxy_state \<Rightarrow> 'm proxy_state result" where
  "relay mutate ev s = (case ev of (source, received, send_error) \<Rightarrow>
     rbind received (\<lambda>data.
     let target = peer source in
     if data = [] then
       Inr (s\<lparr>open_sockets := open_sockets s - {source}, shutdowns := insert target (shutdowns s)\<rparr>)
     else
       rbind (if source = Client \<and> \<not> mutated s
              then rbind (mutate data (mstate s)) (\<lambda>(forwarded, m). Inr (forwarded, forwarded \<noteq> data, m))
              else Inr (data, mutated s, mstate s)) (\<lambda>(forwarded, mut, m).
       case send_error of Some e \<Rightarrow> Inl e | None \<Rightarrow>
         if source = Client then
           Inr (s\<lparr>mutated := mut, mstate := m, from_client := from_client s @ [data],
             to_upstream := to_upstream s @ [forwarded],
             client_to_server_bytes := client_to_server_bytes s + length forwarded\<rparr>)
         else
           Inr (s\<lparr>mutated := mut, mstate := m, from_upstream := from_upstream s @ [data],
             to_client := to_client s @ [forwarded],
             server_to_client_bytes := server_to_client_bytes s + length forwarded\<rparr>))))"

fun relay_round :: "'m mutator \<Rightarrow> event list \<Rightarrow> 'm proxy_state \<Rightarrow> 'm proxy_state result" where
  "relay_round mutate [] s = Inr s"
| "relay_round mutate (ev # evs) s = rbind (relay mutate ev s) (relay_round mutate evs)"

text \<open>
  The loop. The flag tells whether it has ended: with \<open>False\<close> the given rounds are used up and
  \<open>select\<close> is waiting for the next.
\<close>

fun proxy_loop :: "'m mutator \<Rightarrow> event list list \<Rightarrow> 'm proxy_state \<Rightarrow> ('m proxy_state \<times> bool) result" where
  "proxy_loop mutate rounds s =
     (if open_sockets s = {} then Inr (s, True) else
      case rounds of [] \<Rightarrow> Inr (s, False)
      | readable # rounds' \<Rightarrow>
        if readable = [] then Inr (s, True)
        else rbind (relay_round mutate readable s) (proxy_loop mutate rounds'))"

declare proxy_loop.simps [simp del]

lemma proxy_loop_Nil [simp]: "proxy_loop mutate [] s = (if open_sockets s = {} then Inr (s, True) else Inr (s, False))"
  by (subst proxy_loop.simps) simp

lemma proxy_loop_Cons [simp]:
  "proxy_loop mutate (r # rs) s =
     (if open_sockets s = {} \<or> r = [] then Inr (s, True) else rbind (relay_round mutate r s) (proxy_loop mutate rs))"
  by (subst proxy_loop.simps) simp

definition proxy_result :: "'m proxy_state \<Rightarrow> ProxyResult" where
  "proxy_result s = \<lparr>res_mutated = mutated s, res_client_to_server_bytes = client_to_server_bytes s,
     res_server_to_client_bytes = server_to_client_bytes s\<rparr>"

text \<open>
  \<open>run_proxy\<close>. \<open>listening\<close> is the outcome of creating, binding and listening, \<open>connected\<close> that of
  \<open>accept\<close> and \<open>create_connection\<close>. The first component tells whether the ready event was set.
\<close>

definition run_proxy ::
    "unit result \<Rightarrow> unit result \<Rightarrow> bytes result \<times> py_error option \<Rightarrow> event list list \<Rightarrow> 'm mutator \<Rightarrow> 'm \<Rightarrow>
     bool \<times> ('m proxy_state \<times> bool) result" where
  "run_proxy listening connected first rounds mutate m =
     (case listening of Inl e \<Rightarrow> (False, Inl e)
      | Inr _ \<Rightarrow> (True, rbind connected (\<lambda>_. rbind (first_payload mutate first (start_state m)) (proxy_loop mutate rounds))))"

section \<open>Specification\<close>

text \<open>What the server sees: payloads pass through the mutator up to the first one it changes.\<close>

fun mutate_stream :: "'m mutator \<Rightarrow> bytes list \<Rightarrow> 'm \<Rightarrow> (bytes list \<times> bool \<times> 'm) result" where
  "mutate_stream mutate [] m = Inr ([], False, m)"
| "mutate_stream mutate (c # cs) m =
     rbind (mutate c m) (\<lambda>(f, m).
       if f \<noteq> c then Inr (f # cs, True, m)
       else rbind (mutate_stream mutate cs m) (\<lambda>(fs, b, m). Inr (f # fs, b, m)))"

lemma mutate_stream_snoc:
  "mutate_stream mutate cs m = Inr (fs, b, m1) \<Longrightarrow>
   mutate_stream mutate (cs @ [c]) m =
     (if b then Inr (fs @ [c], b, m1)
      else rbind (mutate c m1) (\<lambda>(f, m2). Inr (fs @ [f], f \<noteq> c, m2)))"
proof (induction cs arbitrary: m fs)
  case Nil
  then show ?case by (auto intro!: rbind_cong split: if_splits)
next
  case (Cons x cs)
  then show ?case by (auto simp: res_simps split_def split: if_splits)
qed

lemma mutate_stream_changes_one:
  assumes "mutate_stream mutate cs m = Inr (fs, b, m1)"
  shows "if b then \<exists>pre c f post. cs = pre @ [c] @ post \<and> fs = pre @ [f] @ post \<and> f \<noteq> c else fs = cs"
  using assms
proof (induction cs arbitrary: m fs)
  case (Cons x cs)
  from Cons.prems obtain f m2 where f: "mutate x m = Inr (f, m2)"
    by (auto simp: res_simps)
  show ?case
  proof (cases "f = x")
    case True
    with Cons.prems f obtain gs where "mutate_stream mutate cs m2 = Inr (gs, b, m1)" "fs = x # gs"
      by (auto simp: res_simps)
    with Cons.IH [OF this(1)] show ?thesis by (auto split: if_splits) (metis append_Cons)
  next
    case False
    with Cons.prems f have "b" "fs = f # cs" by auto
    with False show ?thesis by simp (metis append_Nil)
  qed
qed simp

text \<open>The invariant of the loop, for a proxy started with mutator state \<open>m\<close>.\<close>

definition proxy_inv :: "'m mutator \<Rightarrow> 'm \<Rightarrow> 'm proxy_state \<Rightarrow> bool" where
  "proxy_inv mutate m s \<longleftrightarrow>
     mutate_stream mutate (from_client s) m = Inr (to_upstream s, mutated s, mstate s) \<and>
     to_client s = from_upstream s \<and>
     client_to_server_bytes s = length (concat (to_upstream s)) \<and>
     server_to_client_bytes s = length (concat (to_client s)) \<and>
     (\<forall>x. peer x \<in> shutdowns s \<longleftrightarrow> x \<notin> open_sockets s)"

inductive proxy_step :: "'m mutator \<Rightarrow> 'm proxy_state \<Rightarrow> 'm proxy_state \<Rightarrow> bool" for mutate where
  recv: "source \<in> open_sockets s \<Longrightarrow> relay mutate (source, received, send_error) s = Inr s' \<Longrightarrow> proxy_step mutate s s'"

inductive proxy_reachable :: "'m mutator \<Rightarrow> 'm \<Rightarrow> 'm proxy_state \<Rightarrow> bool" for mutate m where
  start: "first_payload mutate ev (start_state m) = Inr s \<Longrightarrow> proxy_reachable mutate m s"
| step: "proxy_reachable mutate m s \<Longrightarrow> proxy_step mutate s s' \<Longrightarrow> proxy_reachable mutate m s'"

inductive_cases proxy_stepE: "proxy_step mutate s s'"

lemma first_payload_inv: "first_payload mutate ev (start_state m) = Inr s \<Longrightarrow> proxy_inv mutate m s"
proof -
  have "(\<forall>x. peer x \<noteq> y \<longleftrightarrow> x \<noteq> peer y)" for y by (metis peer.simps side.exhaust)
  moreover assume "first_payload mutate ev (start_state m) = Inr s"
  ultimately show ?thesis
    by (auto simp: first_payload_def start_state_def proxy_inv_def res_simps split_def split: if_splits option.splits)
      (metis side.exhaust)+
qed

lemma peer_peer [simp]: "peer (peer x) = x"
  by (cases x) simp_all

lemma peer_inj: "peer x = peer y \<longleftrightarrow> x = y"
  by (cases x; cases y) simp_all

lemma relay_inv:
  assumes "proxy_inv mutate m s" "relay mutate (source, received, send_error) s = Inr s'"
  shows "proxy_inv mutate m s'"
proof -
  obtain data where d: "received = Inr data"
    using assms(2) by (auto simp: relay_def res_simps)
  show ?thesis
  proof (cases "data = []")
    case True
    then show ?thesis using assms d by (auto simp: relay_def proxy_inv_def peer_inj)
  next
    case False
    with assms(2) d have se: "send_error = None"
      by (auto simp: relay_def res_simps split_def split: option.splits if_splits)
    show ?thesis
    proof (cases "source = Client \<and> \<not> mutated s")
      case True
      then obtain f m2 where "mutate data (mstate s) = Inr (f, m2)"
        using assms(2) d False by (auto simp: relay_def res_simps split_def)
      then show ?thesis using assms d False True se
        by (auto simp: relay_def proxy_inv_def mutate_stream_snoc)
    next
      case nm: False
      then show ?thesis using assms d False se
        by (cases "source = Client") (auto simp: relay_def proxy_inv_def mutate_stream_snoc)
    qed
  qed
qed

lemma reachable_inv: "proxy_reachable mutate m s \<Longrightarrow> proxy_inv mutate m s"
  by (induction rule: proxy_reachable.induct) (auto intro: first_payload_inv relay_inv elim!: proxy_stepE)

section \<open>The loop follows the state machine\<close>

text \<open>What \<open>select\<close> promises: a round names sockets of the set it was given, each once.\<close>

definition select_ok :: "'m proxy_state \<Rightarrow> event list \<Rightarrow> bool" where
  "select_ok s readable \<longleftrightarrow> distinct (map fst readable) \<and> fst ` set readable \<subseteq> open_sockets s"

fun rounds_ok :: "'m mutator \<Rightarrow> event list list \<Rightarrow> 'm proxy_state \<Rightarrow> bool" where
  "rounds_ok mutate [] s \<longleftrightarrow> True"
| "rounds_ok mutate (readable # rounds) s \<longleftrightarrow> open_sockets s = {} \<or>
     select_ok s readable \<and>
     (case relay_round mutate readable s of Inl _ \<Rightarrow> True | Inr s' \<Rightarrow> rounds_ok mutate rounds s')"

lemma relay_open:
  "relay mutate ev s = Inr s' \<Longrightarrow> open_sockets s - {fst ev} \<subseteq> open_sockets s'"
  by (auto simp: relay_def Let_def res_simps split_def split: if_splits option.splits)

lemma relay_round_reachable:
  "proxy_reachable mutate m s \<Longrightarrow> select_ok s readable \<Longrightarrow> relay_round mutate readable s = Inr s' \<Longrightarrow>
   proxy_reachable mutate m s'"
proof (induction readable arbitrary: s)
  case (Cons ev evs)
  obtain s1 where s1: "relay mutate ev s = Inr s1" "relay_round mutate evs s1 = Inr s'"
    using Cons.prems(3) by (auto simp: res_simps)
  obtain source received send_error where ev: "ev = (source, received, send_error)" by (cases ev)
  have "proxy_step mutate s s1"
    by (rule proxy_step.recv [of source _ _ received send_error]) (use Cons.prems(2) s1(1) ev in \<open>auto simp: select_ok_def\<close>)
  with Cons.prems(1) have "proxy_reachable mutate m s1" by (rule proxy_reachable.step)
  moreover have "fst ` set evs \<subseteq> open_sockets s - {fst ev}"
    using Cons.prems(2) by (simp add: select_ok_def subset_Diff_insert)
  then have "fst ` set evs \<subseteq> open_sockets s1" using relay_open [OF s1(1)] by (rule order_trans)
  then have "select_ok s1 evs" using Cons.prems(2) by (simp add: select_ok_def)
  ultimately show ?case using s1(2) by (rule Cons.IH)
qed simp

lemma proxy_loop_reachable:
  "proxy_reachable mutate m s \<Longrightarrow> rounds_ok mutate rounds s \<Longrightarrow> proxy_loop mutate rounds s = Inr (s', fin) \<Longrightarrow>
   proxy_reachable mutate m s'"
proof (induction rounds arbitrary: s)
  case (Cons r rs)
  show ?case
  proof (cases "open_sockets s = {} \<or> r = []")
    case False
    with Cons.prems(3) obtain s1 where s1: "relay_round mutate r s = Inr s1" "proxy_loop mutate rs s1 = Inr (s', fin)"
      by (auto simp: res_simps)
    with False Cons.prems(2) have "select_ok s r" "rounds_ok mutate rs s1" by auto
    show ?thesis
      by (rule Cons.IH [OF relay_round_reachable [OF Cons.prems(1) \<open>select_ok s r\<close> s1(1)] \<open>rounds_ok mutate rs s1\<close> s1(2)])
  qed (use Cons.prems in auto)
qed (auto split: if_splits)

lemma relay_round_inv:
  "proxy_inv mutate m s \<Longrightarrow> relay_round mutate readable s = Inr s' \<Longrightarrow> proxy_inv mutate m s'"
proof (induction readable arbitrary: s)
  case (Cons ev evs)
  then show ?case by (cases ev) (auto simp: res_simps intro: relay_inv)
qed simp

lemma proxy_loop_inv:
  "proxy_inv mutate m s \<Longrightarrow> proxy_loop mutate rounds s = Inr (s', fin) \<Longrightarrow> proxy_inv mutate m s'"
proof (induction rounds arbitrary: s)
  case (Cons r rs)
  then show ?case
    by (auto simp: res_simps split: if_splits dest: relay_round_inv)
qed (auto split: if_splits)

lemma run_proxy_inv:
  assumes "run_proxy listening connected first rounds mutate m = (ready, Inr (s, fin))"
  shows "proxy_inv mutate m s"
  using assms proxy_loop_inv first_payload_inv
  by (fastforce simp: run_proxy_def res_simps split: sum.splits)

section \<open>Theorems\<close>

text \<open>
  C12. A proxy run implements the specification, at its end and whenever it waits for the next event: what was sent to the server is
  the client's payloads passed through the mutator up to the first one it changed, with the
  mutator's state threaded through exactly these calls; what was sent to the client is what the
  server sent; and the result reports the flag and the numbers of bytes relayed.
\<close>

theorem run_proxy_refines:
  assumes "run_proxy listening connected first rounds mutate m = (ready, Inr (s, fin))"
  shows "mutate_stream mutate (from_client s) m = Inr (to_upstream s, res_mutated (proxy_result s), mstate s) \<and>
     to_client s = from_upstream s \<and>
     res_client_to_server_bytes (proxy_result s) = length (concat (to_upstream s)) \<and>
     res_server_to_client_bytes (proxy_result s) = length (concat (from_upstream s))"
  using run_proxy_inv [OF assms] by (simp add: proxy_inv_def proxy_result_def)

text \<open>A mutator that counts its calls and replaces the payload \<open>[2]\<close>.\<close>

definition demo_mutator :: "nat mutator" where
  "demo_mutator data n = Inr (if data = [2] then [7, 7] else data, Suc n)"

definition demo_rounds :: "event list list" where
  "demo_rounds = [[(Upstream, Inr [5, 6], None), (Client, Inr [2], None)], [(Client, Inr [2], None)], []]"

definition demo_final :: "nat proxy_state" where
  "demo_final = \<lparr>mutated = True, client_to_server_bytes = 4, server_to_client_bytes = 2,
     open_sockets = {Client, Upstream}, shutdowns = {}, from_client = [[1], [2], [2]], from_upstream = [[5, 6]],
     to_client = [[5, 6]], to_upstream = [[1], [7, 7], [2]], mstate = 2\<rparr>"

lemma demo_run: "run_proxy (Inr ()) (Inr ()) (Inr [1], None) demo_rounds demo_mutator 0 = (True, Inr (demo_final, True))"
  by (simp add: run_proxy_def first_payload_def start_state_def demo_rounds_def demo_mutator_def demo_final_def
      relay_def)

theorem run_proxy_refines_witness:
  "mutate_stream demo_mutator [[1], [2], [2]] 0 = Inr ([[1], [7, 7], [2]], True, 2)"
  using run_proxy_refines [OF demo_run] by (simp add: demo_final_def proxy_result_def)

text \<open>
  C13. At most one payload is changed: if the run reports a mutation, the server got the client's
  payloads with exactly one of them replaced by a different one; if it reports none, the server got
  exactly what the client sent.
\<close>

theorem run_proxy_changes_at_most_one:
  assumes "run_proxy listening connected first rounds mutate m = (ready, Inr (s, fin))"
  shows "if res_mutated (proxy_result s)
    then \<exists>pre c f post. from_client s = pre @ [c] @ post \<and> to_upstream s = pre @ [f] @ post \<and> f \<noteq> c
    else to_upstream s = from_client s"
proof -
  have "mutate_stream mutate (from_client s) m = Inr (to_upstream s, mutated s, mstate s)"
    using run_proxy_inv [OF assms] by (simp add: proxy_inv_def)
  from mutate_stream_changes_one [OF this] show ?thesis by (simp add: proxy_result_def)
qed

theorem run_proxy_changes_at_most_one_witness:
  "\<exists>pre c f post. from_client demo_final = pre @ [c] @ post \<and> to_upstream demo_final = pre @ [f] @ post \<and> f \<noteq> c"
  using run_proxy_changes_at_most_one [OF demo_run] by (simp add: proxy_result_def demo_final_def)

text \<open>
  The mutated payload need not be the first one: a payload that comes back unchanged leaves
  the proxy armed, and the next client payload is offered to the mutator again. (The documentation
  string of \<open>run_proxy\<close> says that the first payload only is transformed.)
\<close>

theorem run_proxy_mutates_later_payload:
  assumes "mutate c m = Inr (c, m1)" "mutate d m1 = Inr (d', m2)" "c \<noteq> []" "d \<noteq> []" "d' \<noteq> d"
  shows "\<exists>s. run_proxy (Inr ()) (Inr ()) (Inr c, None) [[(Client, Inr d, None)], []] mutate m = (True, Inr (s, True)) \<and>
     from_client s = [c, d] \<and> to_upstream s = [c, d'] \<and> res_mutated (proxy_result s)"
  using assms
  by (simp add: run_proxy_def first_payload_def start_state_def relay_def proxy_result_def)

theorem run_proxy_mutates_later_payload_witness:
  "\<exists>s. run_proxy (Inr ()) (Inr ()) (Inr [1], None) [[(Client, Inr [2], None)], []] demo_mutator 0 = (True, Inr (s, True)) \<and>
     from_client s = [[1], [2]] \<and> to_upstream s = [[1], [7, 7]] \<and> res_mutated (proxy_result s)"
  using run_proxy_mutates_later_payload [of demo_mutator "[1]" 0 1 "[2]" "[7, 7]" 2] by (simp add: demo_mutator_def)

text \<open>
  C14. Half-close: in every reachable state of the loop, a socket has been shut down for writing
  exactly when its peer has reached the end of its stream, so no step sends to a socket that was
  shut down, and the byte counters agree with what was sent.
\<close>

theorem proxy_no_send_after_shutdown:
  assumes "proxy_reachable mutate m s" "proxy_step mutate s s'"
  shows "(Upstream \<in> shutdowns s \<longrightarrow> to_upstream s' = to_upstream s) \<and>
     (Client \<in> shutdowns s \<longrightarrow> to_client s' = to_client s) \<and>
     (\<forall>x. peer x \<in> shutdowns s' \<longleftrightarrow> x \<notin> open_sockets s') \<and>
     client_to_server_bytes s' = length (concat (to_upstream s'))"
proof -
  have i: "proxy_inv mutate m s" by (rule reachable_inv [OF assms(1)])
  have i': "proxy_inv mutate m s'" by (rule reachable_inv [OF proxy_reachable.step [OF assms]])
  from assms(2) obtain source received send_error where r: "source \<in> open_sockets s"
    "relay mutate (source, received, send_error) s = Inr s'" by (rule proxy_stepE)
  have "source \<noteq> Client" if "Upstream \<in> shutdowns s"
    using i that r(1) unfolding proxy_inv_def by (metis peer.simps(1))
  moreover have "source \<noteq> Upstream" if "Client \<in> shutdowns s"
    using i that r(1) unfolding proxy_inv_def by (metis peer.simps(2))
  moreover have "to_upstream s' = to_upstream s \<or> source = Client" "to_client s' = to_client s \<or> source = Upstream"
    using r(2) by (cases source; auto simp: relay_def Let_def res_simps split_def split: if_splits option.splits)+
  ultimately show ?thesis using i' by (auto simp: proxy_inv_def)
qed

theorem proxy_no_send_after_shutdown_witness:
  "\<exists>s s'. proxy_reachable demo_mutator 0 s \<and> proxy_step demo_mutator s s' \<and> Upstream \<in> shutdowns s' \<and>
     Client \<notin> open_sockets s' \<and> client_to_server_bytes s' = length (concat (to_upstream s'))"
proof -
  let ?s = "start_state (0 :: nat)" and ?s' = "(start_state 0)\<lparr>open_sockets := {Upstream}, shutdowns := {Upstream}\<rparr>"
  have r: "proxy_reachable demo_mutator 0 ?s"
    by (rule proxy_reachable.start [of _ "(Inr [], None)"]) (simp add: first_payload_def)
  have st: "proxy_step demo_mutator ?s ?s'"
    by (rule proxy_step.recv [of Client _ _ "Inr []" None]) (simp_all add: relay_def start_state_def insert_Diff_if)
  have "Upstream \<in> shutdowns ?s'" "Client \<notin> open_sockets ?s'" by simp_all
  then show ?thesis using proxy_no_send_after_shutdown [OF r st] r st by metis
qed

section \<open>The end of the loop\<close>

text \<open>The sockets whose end of stream is among the events.\<close>

definition closed_by :: "event list \<Rightarrow> side set" where
  "closed_by evs = {x. \<exists>send_error. (x, Inr [], send_error) \<in> set evs}"

lemma closed_by_simps [simp]:
  "closed_by [] = {}"
  "closed_by (ev # evs) = (case ev of (x, received, send_error) \<Rightarrow> if received = Inr [] then insert x (closed_by evs) else closed_by evs)"
  "closed_by (evs @ evs') = closed_by evs \<union> closed_by evs'"
  by (auto simp: closed_by_def split: prod.splits)

text \<open>An event and a mutator that raise nothing.\<close>

definition quiet :: "event \<Rightarrow> bool" where
  "quiet ev \<longleftrightarrow> (\<exists>source data. ev = (source, Inr data, None))"

definition total_mutator :: "'m mutator \<Rightarrow> bool" where
  "total_mutator mutate \<longleftrightarrow> (\<forall>data m. \<exists>r. mutate data m = Inr r)"

lemma relay_sockets:
  "relay mutate ev s = Inr s' \<Longrightarrow> open_sockets s' = open_sockets s - closed_by [ev]"
proof -
  assume r: "relay mutate ev s = Inr s'"
  obtain source received send_error where ev: "ev = (source, received, send_error)" by (cases ev)
  obtain data where d: "received = Inr data" using r ev by (auto simp: relay_def res_simps)
  show ?thesis
  proof (cases "data = []")
    case True
    then show ?thesis using r ev d by (auto simp: relay_def)
  next
    case False
    then show ?thesis using r ev d by (auto simp: relay_def Let_def res_simps split_def split: if_splits option.splits)
  qed
qed

lemma relay_round_sockets:
  "relay_round mutate evs s = Inr s' \<Longrightarrow> open_sockets s' = open_sockets s - closed_by evs"
proof (induction evs arbitrary: s)
  case (Cons ev evs)
  then obtain s1 where s1: "relay mutate ev s = Inr s1" "relay_round mutate evs s1 = Inr s'"
    by (auto simp: res_simps)
  then show ?case using Cons.IH [OF s1(2)] relay_sockets [OF s1(1)] closed_by_simps(3) [of "[ev]" evs] by auto
qed simp

lemma relay_quiet: "total_mutator mutate \<Longrightarrow> quiet ev \<Longrightarrow> \<exists>s'. relay mutate ev s = Inr s'"
proof -
  assume t: "total_mutator mutate" and q: "quiet ev"
  then obtain source data where ev: "ev = (source, Inr data, None)" by (auto simp: quiet_def)
  obtain f m where "mutate data (mstate s) = Inr (f, m)" using t unfolding total_mutator_def by (metis prod.exhaust)
  then show ?thesis by (cases source; cases "mutated s") (simp_all add: ev relay_def Let_def)
qed

lemma relay_round_quiet: "total_mutator mutate \<Longrightarrow> list_all quiet evs \<Longrightarrow> \<exists>s'. relay_round mutate evs s = Inr s'"
proof (induction evs arbitrary: s)
  case (Cons ev evs)
  then obtain s1 where "relay mutate ev s = Inr s1" using relay_quiet by fastforce
  then show ?case using Cons by simp
qed simp

lemma proxy_loop_quiet:
  assumes "total_mutator mutate" "list_all (list_all quiet) rounds"
  shows "\<exists>s' fin. proxy_loop mutate rounds s = Inr (s', fin)"
  using assms(2)
proof (induction rounds arbitrary: s)
  case (Cons r rs)
  then obtain s1 where "relay_round mutate r s = Inr s1" using relay_round_quiet [OF assms(1)] by fastforce
  then show ?case using Cons by (cases "open_sockets s = {} \<or> r = []") auto
next
  case Nil
  have "proxy_loop mutate [] s = Inr (s, open_sockets s = {})" by simp
  then show ?case by blast
qed

lemma proxy_loop_end:
  "proxy_loop mutate rounds s = Inr (s', fin) \<Longrightarrow>
   (fin \<longleftrightarrow> [] \<in> set rounds \<or> open_sockets s \<subseteq> closed_by (concat rounds)) \<and>
   (\<not> fin \<longrightarrow> open_sockets s' = open_sockets s - closed_by (concat rounds))"
proof (induction rounds arbitrary: s)
  case (Cons r rs)
  show ?case
  proof (cases "open_sockets s = {} \<or> r = []")
    case True
    then show ?thesis using Cons.prems by auto
  next
    case False
    with Cons.prems obtain s1 where s1: "relay_round mutate r s = Inr s1" "proxy_loop mutate rs s1 = Inr (s', fin)"
      by (auto simp: res_simps)
    then show ?thesis using Cons.IH [OF s1(2)] relay_round_sockets [OF s1(1)] False by auto
  qed
qed (auto split: if_splits)

lemma proxy_loop_more:
  "proxy_loop mutate rounds s = Inr (s', True) \<Longrightarrow> proxy_loop mutate (rounds @ later) s = Inr (s', True)"
proof (induction rounds arbitrary: s)
  case Nil
  then show ?case by (cases later) (auto split: if_splits)
qed (auto simp: res_simps split: if_splits)

lemma first_payload_sockets:
  "first_payload mutate ev s = Inr s' \<Longrightarrow> open_sockets s' = open_sockets s"
  by (auto simp: first_payload_def res_simps split_def split: if_splits option.splits)

text \<open>
  C15. A proxy run ends exactly when it should. Take a mutator that raises nothing, a client that
  connects, and sockets that raise nothing. Then the run does not raise, and after the given rounds of
  \<open>select\<close> it has returned if and only if one of the rounds was the timeout or both sockets have
  delivered their end of stream; otherwise it waits for the next round with exactly those sockets open
  whose end has not come. A run that has returned looks at no further event.
\<close>

theorem proxy_loop_returns:
  assumes "total_mutator mutate" "list_all (list_all quiet) rounds"
  shows "\<exists>s fin. run_proxy (Inr ()) (Inr ()) (Inr first, None) rounds mutate m = (True, Inr (s, fin)) \<and>
    (fin \<longleftrightarrow> [] \<in> set rounds \<or> closed_by (concat rounds) = {Client, Upstream}) \<and>
    (\<not> fin \<longrightarrow> open_sockets s = {Client, Upstream} - closed_by (concat rounds)) \<and>
    (fin \<longrightarrow> (\<forall>later. run_proxy (Inr ()) (Inr ()) (Inr first, None) (rounds @ later) mutate m = (True, Inr (s, True))))"
proof -
  have "\<exists>r. mutate first m = Inr r" using assms(1) by (simp add: total_mutator_def)
  then obtain s0 where s0: "first_payload mutate (Inr first, None) (start_state m) = Inr s0"
    by (fastforce simp: first_payload_def start_state_def)
  obtain s fin where s: "proxy_loop mutate rounds s0 = Inr (s, fin)"
    using proxy_loop_quiet [OF assms] by blast
  have "open_sockets s0 = {Client, Upstream}"
    using first_payload_sockets [OF s0] by (simp add: start_state_def)
  moreover have "x = Client \<or> x = Upstream" for x by (cases x) simp_all
  ultimately show ?thesis
    using proxy_loop_end [OF s] proxy_loop_more [of mutate rounds s0 s] s s0
    by (intro exI [of _ s] exI [of _ fin]) (auto simp: run_proxy_def)
qed

theorem proxy_loop_returns_witness:
  "(\<exists>s. run_proxy (Inr ()) (Inr ()) (Inr [1], None) [[(Client, Inr [2], None)], [(Client, Inr [], None)], [(Upstream, Inr [], None)]]
      demo_mutator 0 = (True, Inr (s, True))) \<and>
   (\<exists>s. run_proxy (Inr ()) (Inr ()) (Inr [1], None) [[(Client, Inr [2], None)], [(Client, Inr [], None)]]
      demo_mutator 0 = (True, Inr (s, False)) \<and> open_sockets s = {Upstream})"
proof -
  have t: "total_mutator demo_mutator" by (simp add: total_mutator_def demo_mutator_def)
  have "{Client, Upstream} - {Client} = {Upstream}" by auto
  then show ?thesis
    using proxy_loop_returns [OF t, of "[[(Client, Inr [2], None)], [(Client, Inr [], None)], [(Upstream, Inr [], None)]]" "[1]" 0]
      proxy_loop_returns [OF t, of "[[(Client, Inr [2], None)], [(Client, Inr [], None)]]" "[1]" 0]
    by (auto simp: quiet_def insert_commute doubleton_eq_iff)
qed

end
