(* ===== verification/Scenario.thy ===== *)
theory Scenario
  imports Harness_Logs MITM_Proxy
begin

text \<open>
  The life of one run, from \<open>tools/faultinject/harness.py\<close>: \<open>wait_for_listener\<close>, \<open>capture_command\<close>,
  \<open>ScenarioSpec\<close> and \<open>run_scenario\<close>.

  \<open>run_scenario\<close> is a program over a \<open>world\<close>: the text files and the JSON documents it writes, the
  local variables that its \<open>finally\<close> block reads, and the trace of the effectful calls it made. What
  these calls return is the environment (\<open>run_env\<close>): an outcome for each action, the observations
  of the two polling loops, the sockets of the proxy, the result of the client. A program returns
  \<open>None\<close> when a polling loop has used up its observations without a decision.

  Times are in milliseconds. The locale \<open>polling\<close> is the contract of the two polling loops.
\<close>

section \<open>Polling\<close>

definition is_OSError :: "py_error \<Rightarrow> bool" where
  "is_OSError e \<longleftrightarrow> (case e of OSError _ \<Rightarrow> True | TimeoutError _ \<Rightarrow> True | _ \<Rightarrow> False)"

text \<open>One observation: what \<open>create_connection\<close> did, and the clock read after a failure.\<close>

fun wait_for_listener :: "string \<Rightarrow> nat \<Rightarrow> nat \<Rightarrow> nat \<Rightarrow> (unit result \<times> nat) list \<Rightarrow> unit result option" where
  "wait_for_listener host port started timeout [] = None"
| "wait_for_listener host port started timeout ((connection, now) # attempts) =
     (case connection of
        Inl e \<Rightarrow>
          if is_OSError e then
            (if now \<ge> started + timeout
             then Some (Inl (TimeoutError (''Server did not listen on '' @ host @ '':'' @ dec port @ '' within '' @
               dec (timeout div 1000) @ ''s'')))
             else wait_for_listener host port started timeout attempts)
          else Some (Inl e)
      | Inr _ \<Rightarrow> Some (Inr ()))"

text \<open>One observation: the capture file exists, tshark has exited, the clock.\<close>

fun wait_for_capture :: "nat \<Rightarrow> (bool \<times> bool \<times> nat) list \<Rightarrow> unit result option" where
  "wait_for_capture deadline [] = None"
| "wait_for_capture deadline ((exists, exited, now) # obs) =
     (if exists then Some (Inr ())
      else if exited then Some (Inl (RuntimeError ''tshark exited before the capture began''))
      else if now \<ge> deadline then Some (Inl (TimeoutError ''tshark did not create a capture file within 5s''))
      else wait_for_capture deadline obs)"

locale polling =
  fixes loop :: "'o list \<Rightarrow> unit result option"
    and decide :: "'o \<Rightarrow> unit result option"
    and late :: "'o \<Rightarrow> bool"
  assumes loop_Nil: "loop [] = None"
    and loop_Cons: "loop (x # xs) = (case decide x of Some r \<Rightarrow> Some r | None \<Rightarrow> loop xs)"
    and late_decides: "late x \<Longrightarrow> decide x \<noteq> None"
begin

lemma loop_undecided: "list_all (\<lambda>x. decide x = None) xs \<Longrightarrow> loop (xs @ ys) = loop ys"
  by (induction xs) (auto simp: loop_Cons)

lemma loop_first: "list_all (\<lambda>x. decide x = None) xs \<Longrightarrow> decide y = Some r \<Longrightarrow> loop (xs @ y # ys) = Some r"
  by (simp add: loop_undecided loop_Cons)

lemma loop_Some_iff:
  "loop obs = Some r \<longleftrightarrow> (\<exists>xs y ys. obs = xs @ y # ys \<and> list_all (\<lambda>x. decide x = None) xs \<and> decide y = Some r)"
proof
  show "loop obs = Some r \<Longrightarrow> \<exists>xs y ys. obs = xs @ y # ys \<and> list_all (\<lambda>x. decide x = None) xs \<and> decide y = Some r"
  proof (induction obs)
    case (Cons x obs)
    show ?case
    proof (cases "decide x")
      case None
      then obtain xs y ys where "obs = xs @ y # ys" "list_all (\<lambda>x. decide x = None) xs" "decide y = Some r"
        using Cons by (auto simp: loop_Cons)
      then show ?thesis using None by (intro exI [of _ "x # xs"] exI [of _ y] exI [of _ ys]) simp
    next
      case (Some r')
      then have "r' = r" using Cons.prems by (simp add: loop_Cons)
      then show ?thesis using Some by (intro exI [of _ "[]"] exI [of _ x] exI [of _ obs]) simp
    qed
  qed (simp add: loop_Nil)
qed (auto simp: loop_first)

text \<open>The loop returns as soon as one observation is late.\<close>

lemma loop_returns: "x \<in> set obs \<Longrightarrow> late x \<Longrightarrow> \<exists>r. loop obs = Some r"
proof (induction obs)
  case (Cons y obs)
  then show ?case using late_decides [of y] by (cases "decide y") (auto simp: loop_Cons)
qed simp

end

definition listener_decide :: "string \<Rightarrow> nat \<Rightarrow> nat \<Rightarrow> nat \<Rightarrow> unit result \<times> nat \<Rightarrow> unit result option" where
  "listener_decide host port started timeout x = (case x of (Inr _, _) \<Rightarrow> Some (Inr ())
     | (Inl e, now) \<Rightarrow> if \<not> is_OSError e then Some (Inl e)
         else if now \<ge> started + timeout
         then Some (Inl (TimeoutError (''Server did not listen on '' @ host @ '':'' @ dec port @ '' within '' @
               dec (timeout div 1000) @ ''s'')))
         else None)"

definition capture_decide :: "nat \<Rightarrow> bool \<times> bool \<times> nat \<Rightarrow> unit result option" where
  "capture_decide deadline x = (case x of (exists, exited, now) \<Rightarrow>
     if exists then Some (Inr ())
     else if exited then Some (Inl (RuntimeError ''tshark exited before the capture began''))
     else if now \<ge> deadline then Some (Inl (TimeoutError ''tshark did not create a capture file within 5s''))
     else None)"

interpretation listener: polling "wait_for_listener host port started timeout"
    "listener_decide host port started timeout" "\<lambda>x. snd x \<ge> started + timeout" for host port started timeout
  by unfold_locales (auto simp: listener_decide_def split: sum.splits prod.splits)

interpretation capture: polling "wait_for_capture deadline" "capture_decide deadline" "\<lambda>x. snd (snd x) \<ge> deadline" for deadline
  by unfold_locales (auto simp: capture_decide_def split: prod.splits)

section \<open>Scenarios\<close>

type_synonym files = "string \<rightharpoonup> string"
type_synonym environ = "(string \<times> string) list"

definition capture_command :: "string \<Rightarrow> nat \<Rightarrow> nat \<Rightarrow> string list" where
  "capture_command pcap_path listen_port seconds =
     [''tshark'', ''-i'', ''lo'', ''-l'', ''-f'', ''tcp port '' @ dec listen_port, ''-a'',
      ''duration:'' @ dec seconds, ''-w'', pcap_path]"

record ScenarioSpec =
  sp_impl :: string
  sp_fault_type :: string
  sp_repetition :: nat
  sp_condition :: string
  sp_server_cmd :: "string list"
  sp_client_cmd :: "string list"
  sp_listen_port :: nat
  sp_env :: environ
  sp_out_dir :: string
  sp_manipulation_verified :: bool
  sp_capture_traffic :: bool
  sp_server_listen_port :: "nat option"
  sp_proxy_upstream_port :: "nat option"
  sp_proxy_mutate :: "files mutator option"
  sp_proxy_log :: "string option"
  sp_advertised_hybrid :: "bool option"
  sp_server_env :: "environ option"
  sp_capture_seconds :: nat

text \<open>\<open>ScenarioSpec(...)\<close> with the defaults of the dataclass.\<close>

definition new_spec :: "string \<Rightarrow> string \<Rightarrow> nat \<Rightarrow> string \<Rightarrow> string list \<Rightarrow> string list \<Rightarrow> nat \<Rightarrow> environ \<Rightarrow> string \<Rightarrow> ScenarioSpec" where
  "new_spec impl fault rep condition server_cmd client_cmd port env out_dir =
     \<lparr>sp_impl = impl, sp_fault_type = fault, sp_repetition = rep, sp_condition = condition, sp_server_cmd = server_cmd,
      sp_client_cmd = client_cmd, sp_listen_port = port, sp_env = env, sp_out_dir = out_dir,
      sp_manipulation_verified = False, sp_capture_traffic = False, sp_server_listen_port = None,
      sp_proxy_upstream_port = None, sp_proxy_mutate = None, sp_proxy_log = None, sp_advertised_hybrid = None,
      sp_server_env = None, sp_capture_seconds = 3\<rparr>"

text \<open>\<open>out_dir / name\<close> and \<open>path.name\<close>.\<close>

definition path_join :: "string \<Rightarrow> string \<Rightarrow> string" where "path_join dir name = dir @ ''/'' @ name"
definition path_name :: "string \<Rightarrow> string" where "path_name p = last (split_char CHR ''/'' p)"

datatype action =
    MkDir string
  | OpenLog string
  | StartServer "string list" environ
  | StartCapture "string list"
  | StartProxy nat nat
  | RunClient "string list" environ
  | TerminateServer
  | WaitServer
  | WaitCapture nat
  | InterruptCapture
  | WaitCaptureAgain
  | JoinProxy
  | WriteText string
  | WriteRecord string

record run_env =
  outcome :: "action \<Rightarrow> unit result"
  capture_started :: nat
  capture_obs :: "(bool \<times> bool \<times> nat) list"
  listener_started :: nat
  listener_obs :: "(unit result \<times> nat) list"
  capture_exited :: bool
  proxy_listening :: "unit result"
  proxy_connected :: "unit result"
  proxy_first :: "bytes result \<times> py_error option"
  proxy_rounds :: "event list list"
  proxy_in_time :: bool
  client_run :: "(string \<times> string \<times> int) result"

record world =
  texts :: files
  docs :: "string \<rightharpoonup> dict"
  trace :: "action list"
  has_capture :: bool
  has_proxy :: bool
  proxy_errors :: "py_error list"

type_synonym 'a prog = "world \<Rightarrow> ('a result \<times> world) option"

definition ret :: "'a \<Rightarrow> 'a prog" where "ret x w = Some (Inr x, w)"
definition raise :: "py_error \<Rightarrow> 'a prog" where "raise e w = Some (Inl e, w)"

definition seqp :: "'a prog \<Rightarrow> ('a \<Rightarrow> 'b prog) \<Rightarrow> 'b prog" where
  "seqp p f w = (case p w of None \<Rightarrow> None | Some (Inl e, w') \<Rightarrow> Some (Inl e, w') | Some (Inr x, w') \<Rightarrow> f x w')"

definition lift_result :: "'a result \<Rightarrow> 'a prog" where "lift_result r w = Some (r, w)"
definition lift_poll :: "unit result option \<Rightarrow> unit prog" where "lift_poll r w = map_option (\<lambda>r. (r, w)) r"

definition modify :: "(world \<Rightarrow> world) \<Rightarrow> unit prog" where "modify f w = Some (Inr (), f w)"

definition act :: "run_env \<Rightarrow> action \<Rightarrow> unit prog" where
  "act env a w = Some (outcome env a, w\<lparr>trace := trace w @ [a]\<rparr>)"

definition whenp :: "bool \<Rightarrow> unit prog \<Rightarrow> unit prog" where "whenp b p = (if b then p else ret ())"

text \<open>\<open>try: body finally: cleanup\<close>: an exception of the cleanup replaces the outcome of the body.\<close>

definition finally_do :: "'a prog \<Rightarrow> unit prog \<Rightarrow> 'a prog" where
  "finally_do body cleanup w = (case body w of None \<Rightarrow> None
     | Some (r, w') \<Rightarrow> (case cleanup w' of None \<Rightarrow> None
        | Some (Inl e, w'') \<Rightarrow> Some (Inl e, w'') | Some (Inr _, w'') \<Rightarrow> Some (r, w'')))"

text \<open>\<open>try: p except TimeoutExpired: h\<close>.\<close>

definition except_expired :: "unit prog \<Rightarrow> unit prog \<Rightarrow> unit prog" where
  "except_expired p h w = (case p w of Some (Inl TimeoutExpired, w') \<Rightarrow> h w' | r \<Rightarrow> r)"

definition or_default :: "'a option \<Rightarrow> ('a \<Rightarrow> bool) \<Rightarrow> 'a \<Rightarrow> 'a" where
  "or_default v truthy d = (case v of Some x \<Rightarrow> if truthy x then x else d | None \<Rightarrow> d)"

abbreviation identifier_of :: "ScenarioSpec \<Rightarrow> string" where
  "identifier_of sp \<equiv> run_id (sp_impl sp) (sp_fault_type sp) (sp_repetition sp) (sp_condition sp)"

abbreviation server_port_of :: "ScenarioSpec \<Rightarrow> nat" where
  "server_port_of sp \<equiv> or_default (sp_server_listen_port sp) (\<lambda>n. n \<noteq> 0) (sp_listen_port sp)"

text \<open>Lines 184 to 196: starting the capture and waiting for its file.\<close>

definition start_capture :: "run_env \<Rightarrow> ScenarioSpec \<Rightarrow> unit prog" where
  "start_capture env sp =
     whenp (sp_capture_traffic sp)
       (seqp (act env (StartCapture (capture_command (path_join (sp_out_dir sp) (identifier_of sp @ ''.pcapng''))
          (server_port_of sp) (sp_capture_seconds sp)))) (\<lambda>_.
        seqp (modify (\<lambda>w. w\<lparr>has_capture := True\<rparr>)) (\<lambda>_.
          lift_poll (wait_for_capture (capture_started env + 5000) (capture_obs env)))))"

text \<open>Lines 198 to 201.\<close>

definition check_capture :: "run_env \<Rightarrow> unit prog" where
  "check_capture env w =
     (if has_capture w \<and> capture_exited env then raise (RuntimeError ''tshark exited before the capture stabilized'') w
      else ret () w)"

definition proxy_run :: "run_env \<Rightarrow> files mutator \<Rightarrow> files \<Rightarrow> bool \<times> (files proxy_state \<times> bool) result" where
  "proxy_run env mutate fs =
     run_proxy (proxy_listening env) (proxy_connected env) (proxy_first env) (proxy_rounds env) mutate fs"

text \<open>Lines 202 to 221.\<close>

definition start_proxy :: "run_env \<Rightarrow> ScenarioSpec \<Rightarrow> unit prog" where
  "start_proxy env sp w =
     (case (sp_proxy_upstream_port sp, sp_proxy_mutate sp) of
        (Some up, Some mutate) \<Rightarrow>
          seqp (modify (\<lambda>w. w\<lparr>has_proxy := True\<rparr>)) (\<lambda>_.
          seqp (act env (StartProxy (sp_listen_port sp) up)) (\<lambda>_ w.
            (if proxy_in_time env \<and> fst (proxy_run env mutate (texts w)) then ret () w
             else raise (TimeoutError ''proxy did not begin listening within 5s'') w))) w
      | _ \<Rightarrow> ret () w)"

text \<open>The effects of the proxy thread, seen by the main thread when it has joined it.\<close>

definition join_proxy :: "run_env \<Rightarrow> ScenarioSpec \<Rightarrow> unit prog" where
  "join_proxy env sp w =
     (case sp_proxy_mutate sp of None \<Rightarrow> ret () w
      | Some mutate \<Rightarrow>
        (case snd (proxy_run env mutate (texts w)) of
           Inl e \<Rightarrow> seqp (act env JoinProxy) (\<lambda>_. modify (\<lambda>w. w\<lparr>proxy_errors := proxy_errors w @ [e]\<rparr>)) w
         | Inr (s, _) \<Rightarrow> seqp (act env JoinProxy) (\<lambda>_. modify (\<lambda>w. w\<lparr>texts := mstate s\<rparr>)) w))"

text \<open>Lines 228 to 237.\<close>

definition cleanup :: "run_env \<Rightarrow> ScenarioSpec \<Rightarrow> unit prog" where
  "cleanup env sp =
     seqp (act env TerminateServer) (\<lambda>_.
     seqp (act env WaitServer) (\<lambda>_.
     seqp (\<lambda>w. whenp (has_capture w)
       (except_expired (act env (WaitCapture (sp_capture_seconds sp + 2)))
          (seqp (act env InterruptCapture) (\<lambda>_. act env WaitCaptureAgain))) w) (\<lambda>_.
     \<lambda>w. whenp (has_proxy w) (join_proxy env sp) w)))"

definition run_client :: "run_env \<Rightarrow> ScenarioSpec \<Rightarrow> (string \<times> string \<times> int) prog" where
  "run_client env sp = seqp (act env (RunClient (sp_client_cmd sp) (sp_env sp))) (\<lambda>_. lift_result (client_run env))"

definition collect :: "ScenarioSpec \<Rightarrow> string \<Rightarrow> int \<Rightarrow> Metrics result" where
  "collect sp client_text code = (case sp_advertised_hybrid sp of
     Some adv \<Rightarrow> collect_metrics_v11 (sp_impl sp) client_text code adv
   | None \<Rightarrow> collect_metrics (sp_impl sp) client_text code)"

definition scenario_artifacts :: "ScenarioSpec \<Rightarrow> bool \<Rightarrow> dict" where
  "scenario_artifacts sp cap =
     [(''client_log'', JStr (identifier_of sp @ ''-client.log'')), (''server_log'', JStr (identifier_of sp @ ''-server.log''))] @
     (if cap then [(''pcap'', JStr (identifier_of sp @ ''.pcapng'')), (''capture_log'', JStr (identifier_of sp @ ''-capture.log''))]
      else []) @
     (case sp_proxy_log sp of Some p \<Rightarrow> [(''proxy_log'', JStr (path_name p))] | None \<Rightarrow> [])"

text \<open>Lines 239 to 264: after the processes have ended.\<close>

definition check_proxy :: "unit prog" where
  "check_proxy w = (if proxy_errors w \<noteq> [] then raise (RuntimeError ''proxy failed'') w else ret () w)"

definition write_record :: "run_env \<Rightarrow> ScenarioSpec \<Rightarrow> Metrics \<Rightarrow> RunRecord prog" where
  "write_record env sp ms w =
     (let record = \<lparr>rec_run_id = identifier_of sp, implementation = sp_impl sp, fault_type = sp_fault_type sp,
            repetition = sp_repetition sp, rec_condition = sp_condition sp, metrics = ms,
            manipulation_verified = sp_manipulation_verified sp, artifacts = scenario_artifacts sp (has_capture w),
            provenance = [], audit = []\<rparr>;
          path = path_join (sp_out_dir sp) (identifier_of sp @ ''.json'') in
      seqp (act env (WriteRecord path)) (\<lambda>_.
      seqp (modify (\<lambda>w. w\<lparr>docs := (docs w)(path \<mapsto> asdict_record record)\<rparr>)) (\<lambda>_. ret record)) w)"

definition finish :: "run_env \<Rightarrow> ScenarioSpec \<Rightarrow> string \<times> string \<times> int \<Rightarrow> RunRecord prog" where
  "finish env sp client =
     seqp check_proxy (\<lambda>_.
     case client of (out, err, code) \<Rightarrow>
     let client_text = out @ err;
         client_log = path_join (sp_out_dir sp) (identifier_of sp @ ''-client.log'') in
     seqp (act env (WriteText client_log)) (\<lambda>_.
     seqp (modify (\<lambda>w. w\<lparr>texts := (texts w)(client_log \<mapsto> client_text)\<rparr>)) (\<lambda>_.
     seqp (lift_result (collect sp client_text code)) (\<lambda>ms.
       write_record env sp ms))))"

definition run_body :: "run_env \<Rightarrow> ScenarioSpec \<Rightarrow> (string \<times> string \<times> int) prog" where
  "run_body env sp =
     seqp (start_capture env sp) (\<lambda>_.
     seqp (lift_poll (wait_for_listener ''127.0.0.1'' (server_port_of sp) (listener_started env) 5000 (listener_obs env))) (\<lambda>_.
     seqp (check_capture env) (\<lambda>_.
     seqp (start_proxy env sp) (\<lambda>_.
       run_client env sp))))"

definition run_scenario :: "run_env \<Rightarrow> ScenarioSpec \<Rightarrow> RunRecord prog" where
  "run_scenario env sp =
     seqp (modify (\<lambda>w. w\<lparr>has_capture := False, has_proxy := False, proxy_errors := []\<rparr>)) (\<lambda>_.
     seqp (act env (MkDir (sp_out_dir sp))) (\<lambda>_.
     seqp (act env (OpenLog (path_join (sp_out_dir sp) (identifier_of sp @ ''-server.log'')))) (\<lambda>_.
     seqp (act env (OpenLog (path_join (sp_out_dir sp) (identifier_of sp @ ''-capture.log'')))) (\<lambda>_.
     seqp (act env (StartServer (sp_server_cmd sp) (or_default (sp_server_env sp) (\<lambda>e. e \<noteq> []) (sp_env sp)))) (\<lambda>_.
     seqp (finally_do (run_body env sp) (cleanup env sp)) (\<lambda>client.
       finish env sp client))))))"

text \<open>A list comprehension whose body runs a program: in order, stopping at the first exception.\<close>

fun for_each :: "(nat \<Rightarrow> 'a \<Rightarrow> 'b prog) \<Rightarrow> nat \<Rightarrow> 'a list \<Rightarrow> 'b list prog" where
  "for_each step i [] = ret []"
| "for_each step i (x # xs) = seqp (step i x) (\<lambda>y. seqp (for_each step (Suc i) xs) (\<lambda>ys. ret (y # ys)))"

section \<open>Reasoning about programs\<close>

lemma seqp_simps [simp]:
  "seqp (act env a) f w = (case outcome env a of Inl e \<Rightarrow> Some (Inl e, w\<lparr>trace := trace w @ [a]\<rparr>)
     | Inr x \<Rightarrow> f x (w\<lparr>trace := trace w @ [a]\<rparr>))"
  "seqp (modify g) f w = f () (g w)"
  "seqp (lift_result r) f w = (case r of Inl e \<Rightarrow> Some (Inl e, w) | Inr x \<Rightarrow> f x w)"
  "seqp (ret x) f w = f x w"
  by (simp_all add: seqp_def act_def modify_def lift_result_def ret_def split: sum.splits)

lemma seqp_Some:
  "seqp p f w = Some (r, w') \<longleftrightarrow>
     (\<exists>e. p w = Some (Inl e, w') \<and> r = Inl e) \<or> (\<exists>x w1. p w = Some (Inr x, w1) \<and> f x w1 = Some (r, w'))"
  by (auto simp: seqp_def split: option.splits sum.splits)

lemma seqp_Inr:
  "seqp p f w = Some (Inr y, w') \<longleftrightarrow> (\<exists>x w1. p w = Some (Inr x, w1) \<and> f x w1 = Some (Inr y, w'))"
  by (auto simp: seqp_Some)

text \<open>Programs that leave a part of the world alone, and programs that only add to the trace.\<close>

definition preserves :: "(world \<Rightarrow> 'b) \<Rightarrow> 'a prog \<Rightarrow> bool" where
  "preserves f p \<longleftrightarrow> (\<forall>w r w'. p w = Some (r, w') \<longrightarrow> f w' = f w)"

definition extends :: "'a prog \<Rightarrow> bool" where
  "extends p \<longleftrightarrow> (\<forall>w r w'. p w = Some (r, w') \<longrightarrow> set (trace w) \<subseteq> set (trace w'))"

lemma preservesD: "preserves f p \<Longrightarrow> p w = Some (r, w') \<Longrightarrow> f w' = f w"
  by (auto simp: preserves_def)

lemma extendsD: "extends p \<Longrightarrow> p w = Some (r, w') \<Longrightarrow> set (trace w) \<subseteq> set (trace w')"
  by (auto simp: extends_def)

named_theorems prog_intros

lemma preserves_intros [prog_intros]:
  "preserves f p \<Longrightarrow> (\<And>x. preserves f (g x)) \<Longrightarrow> preserves f (seqp p g)"
  "preserves f (ret x)" "preserves f (raise e)" "preserves f (lift_result r)" "preserves f (lift_poll q)"
  "(\<And>w a. f (w\<lparr>trace := a\<rparr>) = f w) \<Longrightarrow> preserves f (act env a)"
  "(\<And>w. f (h w) = f w) \<Longrightarrow> preserves f (modify h)"
  "preserves f u \<Longrightarrow> preserves f (whenp b u)"
  "preserves f u \<Longrightarrow> preserves f v \<Longrightarrow> preserves f (except_expired u v)"
  "preserves f p \<Longrightarrow> preserves f u \<Longrightarrow> preserves f (finally_do p u)"
  unfolding preserves_def
  by (fastforce simp: seqp_Some ret_def raise_def lift_result_def lift_poll_def act_def modify_def whenp_def
      except_expired_def finally_do_def split: option.splits sum.splits prod.splits py_error.splits if_splits)+

lemma extends_intros [prog_intros]:
  "extends p \<Longrightarrow> (\<And>x. extends (g x)) \<Longrightarrow> extends (seqp p g)"
  "extends (ret x)" "extends (raise e)" "extends (lift_result r)" "extends (lift_poll q)" "extends (act env a)"
  "(\<And>w. trace (h w) = trace w) \<Longrightarrow> extends (modify h)"
  "extends u \<Longrightarrow> extends (whenp b u)"
  "extends u \<Longrightarrow> extends v \<Longrightarrow> extends (except_expired u v)"
  unfolding extends_def
  by (fastforce simp: seqp_Some ret_def raise_def lift_result_def lift_poll_def act_def modify_def whenp_def
      except_expired_def split: option.splits sum.splits prod.splits py_error.splits if_splits)+

definition adds :: "action set \<Rightarrow> 'a prog \<Rightarrow> bool" where
  "adds A p \<longleftrightarrow> (\<forall>w r w'. p w = Some (r, w') \<longrightarrow> set (trace w') \<subseteq> set (trace w) \<union> A)"

lemma adds_seqp:
  assumes "adds A p" "\<And>x. adds A (g x)"
  shows "adds A (seqp p g)"
  unfolding adds_def
proof (intro allI impI)
  fix w r w'
  assume "seqp p g w = Some (r, w')"
  then show "set (trace w') \<subseteq> set (trace w) \<union> A"
    using assms unfolding seqp_Some adds_def by fast
qed

lemma adds_intros [prog_intros]:
  "adds A (ret x)" "adds A (raise e)" "adds A (lift_result r)" "adds A (lift_poll q)"
  "a \<in> A \<Longrightarrow> adds A (act env a)"
  "(\<And>w. trace (h w) = trace w) \<Longrightarrow> adds A (modify h)"
  "adds A u \<Longrightarrow> adds A (whenp b u)"
  unfolding adds_def
  by (fastforce simp: ret_def raise_def lift_result_def lift_poll_def act_def modify_def whenp_def split: if_splits)+

lemma unit_result_neq: "(x :: unit result) \<noteq> Inr () \<longleftrightarrow> (\<exists>e. x = Inl e)"
  by (cases x) auto

lemma preserves_pointwise: "(\<And>v. preserves f (g v)) \<Longrightarrow> preserves f (\<lambda>w. g w w)"
  unfolding preserves_def by blast

lemma extends_pointwise: "(\<And>v. extends (g v)) \<Longrightarrow> extends (\<lambda>w. g w w)"
  unfolding extends_def by blast

lemma cleanup_docs: "preserves docs (cleanup env sp)"
  unfolding cleanup_def
  by (intro prog_intros preserves_pointwise [where g = "\<lambda>w. whenp (has_capture w) _"]
      preserves_pointwise [where g = "\<lambda>w. whenp (has_proxy w) _"])
    (auto simp: preserves_def join_proxy_def ret_def act_def modify_def seqp_Some split: option.splits sum.splits)

lemma body_docs: "preserves docs (run_body env sp)"
proof -
  have "preserves docs (start_proxy env sp)" "preserves docs (check_capture env)"
    by (auto simp: preserves_def start_proxy_def check_capture_def ret_def raise_def act_def modify_def seqp_Some
        split: option.splits if_splits sum.splits)
  then show ?thesis unfolding run_body_def start_capture_def run_client_def
    by (intro prog_intros) auto
qed

lemma body_adds: "adds {a. a \<noteq> JoinProxy \<and> (\<forall>n. a \<noteq> WaitCapture n)} (run_body env sp)"
proof -
  have "adds {a. a \<noteq> JoinProxy \<and> (\<forall>n. a \<noteq> WaitCapture n)} (start_proxy env sp)"
    "adds {a. a \<noteq> JoinProxy \<and> (\<forall>n. a \<noteq> WaitCapture n)} (check_capture env)"
    by (auto simp: adds_def start_proxy_def check_capture_def ret_def raise_def split: option.splits if_splits sum.splits)
  then show ?thesis unfolding run_body_def start_capture_def run_client_def
    by (intro adds_seqp prog_intros) auto
qed

lemma finish_extends: "extends (finish env sp client)"
proof -
  have "extends check_proxy" "extends (write_record env sp ms)" for ms
    by (auto simp: extends_def check_proxy_def write_record_def ret_def raise_def Let_def split: if_splits sum.splits)
  then show ?thesis unfolding finish_def Let_def by (cases client) (auto intro!: prog_intros)
qed

text \<open>What the \<open>finally\<close> block does when the server can be stopped.\<close>

lemma cleanup_spec:
  assumes "cleanup env sp w = Some (r, w')" "outcome env TerminateServer = Inr ()" "outcome env WaitServer = Inr ()"
  shows "{TerminateServer, WaitServer} \<subseteq> set (trace w')" "has_capture w' = has_capture w" "has_proxy w' = has_proxy w"
    "has_capture w \<Longrightarrow> WaitCapture (sp_capture_seconds sp + 2) \<in> set (trace w')"
    "has_proxy w \<Longrightarrow> r = Inr () \<Longrightarrow> sp_proxy_mutate sp \<noteq> None \<Longrightarrow> JoinProxy \<in> set (trace w')"
proof -
  define w1 where "w1 = w\<lparr>trace := trace w @ [TerminateServer] @ [WaitServer]\<rparr>"
  define cap where "cap = whenp (has_capture w)
       (except_expired (act env (WaitCapture (sp_capture_seconds sp + 2)))
          (seqp (act env InterruptCapture) (\<lambda>_. act env WaitCaptureAgain)))"
  have "seqp (\<lambda>w. whenp (has_capture w)
       (except_expired (act env (WaitCapture (sp_capture_seconds sp + 2)))
          (seqp (act env InterruptCapture) (\<lambda>_. act env WaitCaptureAgain))) w)
       (\<lambda>_ w. whenp (has_proxy w) (join_proxy env sp) w) w1 = Some (r, w')"
    using assms by (simp add: cleanup_def w1_def)
  then have c: "seqp cap (\<lambda>_ w. whenp (has_proxy w) (join_proxy env sp) w) w1 = Some (r, w')"
    unfolding seqp_def cap_def by (simp add: w1_def)
  have ext: "extends cap" "extends (\<lambda>w. whenp (has_proxy w) (join_proxy env sp) w)"
    unfolding cap_def
    by (intro prog_intros extends_pointwise [where g = "\<lambda>w. whenp (has_proxy w) _"];
        auto simp: extends_def join_proxy_def ret_def act_def modify_def seqp_Some split: option.splits sum.splits)+
  have capt: "WaitCapture (sp_capture_seconds sp + 2) \<in> set (trace v)" if "cap w1 = Some (q, v)" "has_capture w" for q v
    using that unfolding cap_def whenp_def except_expired_def
    by (auto simp: act_def seqp_Some split: sum.splits py_error.splits)
  have hc: "preserves (\<lambda>w. (has_capture w, has_proxy w)) cap"
    "preserves (\<lambda>w. (has_capture w, has_proxy w)) (\<lambda>w. whenp (has_proxy w) (join_proxy env sp) w)"
    unfolding cap_def
    by (intro prog_intros preserves_pointwise [where g = "\<lambda>w. whenp (has_proxy w) _"];
        auto simp: preserves_def join_proxy_def ret_def act_def modify_def seqp_Some split: option.splits sum.splits)+
  obtain q v where v: "cap w1 = Some (q, v)" "set (trace v) \<subseteq> set (trace w')"
    "(\<exists>e. q = Inl e \<and> r = Inl e \<and> w' = v) \<or> (q = Inr () \<and> whenp (has_proxy v) (join_proxy env sp) v = Some (r, w'))"
    using c ext(2) unfolding seqp_Some extends_def by fastforce
  have t1: "{TerminateServer, WaitServer} \<subseteq> set (trace w1)" by (simp add: w1_def)
  have "set (trace w1) \<subseteq> set (trace v)" using ext(1) v(1) by (auto simp: extends_def)
  then show "{TerminateServer, WaitServer} \<subseteq> set (trace w')" using t1 v(2) by blast
  have hv: "(has_capture v, has_proxy v) = (has_capture w, has_proxy w)"
    using hc(1) v(1) by (auto simp: preserves_def w1_def)
  have "(has_capture w', has_proxy w') = (has_capture v, has_proxy v)"
    using hc(2) v(3) by (auto simp: preserves_def)
  with hv show "has_capture w' = has_capture w" "has_proxy w' = has_proxy w" by auto
  show "WaitCapture (sp_capture_seconds sp + 2) \<in> set (trace w')" if "has_capture w"
    using capt [OF v(1) that] v(2) by blast
  show "JoinProxy \<in> set (trace w')" if "has_proxy w" "r = Inr ()" "sp_proxy_mutate sp \<noteq> None"
  proof -
    have "join_proxy env sp v = Some (Inr (), w')" using v(3) that hv by (auto simp: whenp_def)
    then show ?thesis using that(3) by (auto simp: join_proxy_def seqp_Some act_def modify_def split: option.splits sum.splits)
  qed
qed

text \<open>A log of one of the three implementations always gives metrics.\<close>

lemma success_marks: "GROUP_RE impl \<noteq> None \<Longrightarrow> SUCCESS_MARK impl \<noteq> None"
  by (auto simp: GROUP_RE_def SUCCESS_MARK_def split: if_splits)

lemma collect_returns:
  assumes "GROUP_RE (sp_impl sp) \<noteq> None"
  shows "\<exists>m. collect sp t code = Inr m"
proof -
  obtain re mark where m: "GROUP_RE (sp_impl sp) = Some re" "SUCCESS_MARK (sp_impl sp) = Some mark"
    using assms success_marks by blast
  obtain g where g: "parse_group (sp_impl sp) t = Inr g" by (simp add: parse_group_def m Let_def)
  obtain h where h: "parse_handshake (sp_impl sp) t code = Inr h" by (cases "code = 0") (simp_all add: parse_handshake_def m)
  obtain base where "collect_metrics (sp_impl sp) t code = Inr base" by (simp add: collect_metrics_def g h Let_def)
  then show ?thesis by (cases "sp_advertised_hybrid sp") (simp_all add: collect_def collect_metrics_v11_def Let_def)
qed

section \<open>Theorems\<close>

text \<open>The calls up to the start of the server succeed.\<close>

definition server_starts :: "run_env \<Rightarrow> ScenarioSpec \<Rightarrow> bool" where
  "server_starts env sp \<longleftrightarrow> outcome env (MkDir (sp_out_dir sp)) = Inr () \<and>
     outcome env (OpenLog (path_join (sp_out_dir sp) (identifier_of sp @ ''-server.log''))) = Inr () \<and>
     outcome env (OpenLog (path_join (sp_out_dir sp) (identifier_of sp @ ''-capture.log''))) = Inr () \<and>
     outcome env (StartServer (sp_server_cmd sp) (or_default (sp_server_env sp) (\<lambda>e. e \<noteq> []) (sp_env sp))) = Inr ()"

definition setup_world :: "ScenarioSpec \<Rightarrow> world \<Rightarrow> world" where
  "setup_world sp w = w\<lparr>has_capture := False, has_proxy := False, proxy_errors := [],
     trace := trace w @ [MkDir (sp_out_dir sp), OpenLog (path_join (sp_out_dir sp) (identifier_of sp @ ''-server.log'')),
       OpenLog (path_join (sp_out_dir sp) (identifier_of sp @ ''-capture.log'')),
       StartServer (sp_server_cmd sp) (or_default (sp_server_env sp) (\<lambda>e. e \<noteq> []) (sp_env sp))]\<rparr>"

lemma run_scenario_started:
  "server_starts env sp \<Longrightarrow>
   run_scenario env sp w = seqp (finally_do (run_body env sp) (cleanup env sp)) (finish env sp) (setup_world sp w)"
  unfolding run_scenario_def server_starts_def setup_world_def seqp_simps(1,2) by simp

lemma finally_do_Some:
  "finally_do p u w = Some (r, w') \<longleftrightarrow>
     (\<exists>q w1 c. p w = Some (q, w1) \<and> u w1 = Some (c, w') \<and> r = (case c of Inl e \<Rightarrow> Inl e | Inr _ \<Rightarrow> q))"
  by (auto simp: finally_do_def split: option.splits sum.splits prod.splits)

lemma finish_locals: "preserves (\<lambda>w. (has_capture w, has_proxy w)) (finish env sp client)"
proof -
  have "preserves (\<lambda>w. (has_capture w, has_proxy w)) check_proxy"
    "preserves (\<lambda>w. (has_capture w, has_proxy w)) (write_record env sp ms)" for ms
    by (auto simp: preserves_def check_proxy_def write_record_def ret_def raise_def Let_def split: if_splits sum.splits)
  then show ?thesis unfolding finish_def Let_def by (cases client) (auto intro!: prog_intros)
qed

lemma run_scenario_phases:
  assumes "run_scenario env sp w = Some (r, w')" "server_starts env sp"
  obtains q w1 c w2 where "run_body env sp (setup_world sp w) = Some (q, w1)" "cleanup env sp w1 = Some (c, w2)"
    "(\<exists>e. (c = Inl e \<or> c = Inr () \<and> q = Inl e) \<and> r = Inl e \<and> w' = w2) \<or>
     (\<exists>client. c = Inr () \<and> q = Inr client \<and> finish env sp client w2 = Some (r, w'))"
proof -
  have "seqp (finally_do (run_body env sp) (cleanup env sp)) (finish env sp) (setup_world sp w) = Some (r, w')"
    using assms run_scenario_started by metis
  then consider (err) e where "finally_do (run_body env sp) (cleanup env sp) (setup_world sp w) = Some (Inl e, w')" "r = Inl e"
    | (ok) client w2 where "finally_do (run_body env sp) (cleanup env sp) (setup_world sp w) = Some (Inr client, w2)"
      "finish env sp client w2 = Some (r, w')"
    unfolding seqp_Some by blast
  then show ?thesis
  proof cases
    case err
    then obtain q w1 c where "run_body env sp (setup_world sp w) = Some (q, w1)" "cleanup env sp w1 = Some (c, w')"
      "Inl e = (case c of Inl e \<Rightarrow> Inl e | Inr _ \<Rightarrow> q)" unfolding finally_do_Some by blast
    then show ?thesis using err(2) by (cases c) (auto intro!: that [of q w1 c w'])
  next
    case ok
    then obtain q w1 c where "run_body env sp (setup_world sp w) = Some (q, w1)" "cleanup env sp w1 = Some (c, w2)"
      "Inr client = (case c of Inl e \<Rightarrow> Inl e | Inr _ \<Rightarrow> q)" unfolding finally_do_Some by blast
    then show ?thesis using ok(2) by (cases c) (auto intro!: that [of q w1 c w2])
  qed
qed

lemma finish_docs_error: "finish env sp client w = Some (Inl e, w') \<Longrightarrow> docs w' = docs w"
  by (cases client) (auto simp: finish_def check_proxy_def write_record_def seqp_def act_def modify_def lift_result_def
      ret_def raise_def Let_def split: if_splits sum.splits option.splits prod.splits)

text \<open>
  C19. Clean-up on every path: once the server has been started, a run that ends, with a record
  or with any exception, has terminated the server and waited for it (given that these two calls do
  not raise); it has waited for the capture if one was started, and joined the proxy thread if one
  was started and the wait for the capture did not raise.
\<close>

theorem run_scenario_cleans_up:
  assumes "run_scenario env sp w = Some (r, w')" "server_starts env sp"
    and "outcome env TerminateServer = Inr ()" "outcome env WaitServer = Inr ()"
  shows "{TerminateServer, WaitServer} \<subseteq> set (trace w') \<and>
    (has_capture w' \<longrightarrow> WaitCapture (sp_capture_seconds sp + 2) \<in> set (trace w')) \<and>
    (has_proxy w' \<and> outcome env (WaitCapture (sp_capture_seconds sp + 2)) = Inr () \<and> outcome env JoinProxy = Inr () \<and>
       sp_proxy_mutate sp \<noteq> None \<longrightarrow> JoinProxy \<in> set (trace w'))"
proof -
  obtain q w1 c w2 where ph: "run_body env sp (setup_world sp w) = Some (q, w1)" "cleanup env sp w1 = Some (c, w2)"
    "(\<exists>e. (c = Inl e \<or> c = Inr () \<and> q = Inl e) \<and> r = Inl e \<and> w' = w2) \<or>
     (\<exists>client. c = Inr () \<and> q = Inr client \<and> finish env sp client w2 = Some (r, w'))"
    by (rule run_scenario_phases [OF assms(1,2)])
  have sub: "set (trace w2) \<subseteq> set (trace w')" "has_capture w' = has_capture w2" "has_proxy w' = has_proxy w2"
    using ph(3) extendsD [OF finish_extends] preservesD [OF finish_locals] by blast+
  note cs = cleanup_spec [OF ph(2) assms(3,4)]
  have ok: "c = Inr ()" if "outcome env (WaitCapture (sp_capture_seconds sp + 2)) = Inr ()" "outcome env JoinProxy = Inr ()"
    using ph(2) that assms(3,4)
    by (auto simp: cleanup_def seqp_Some whenp_def except_expired_def join_proxy_def act_def ret_def modify_def
        split: if_splits option.splits sum.splits)
  show ?thesis using cs sub ok by auto
qed

text \<open>
  A record is written exactly by the runs that return one: the document of the run then holds
  the record, reading it back gives the record, its identifier is that of the scenario and its
  client log holds the output of the client; a run that raises leaves every document as it was.
\<close>

theorem run_scenario_writes_record:
  assumes "run_scenario env sp w = Some (r, w')" "server_starts env sp"
  shows "case r of
      Inl e \<Rightarrow> docs w' = docs w
    | Inr rec \<Rightarrow> docs w' = (docs w)(path_join (sp_out_dir sp) (identifier_of sp @ ''.json'') \<mapsto> asdict_record rec) \<and>
        from_json (asdict_record rec) = Inr rec \<and> rec_run_id rec = identifier_of sp \<and> proxy_errors w' = [] \<and>
        (\<exists>out err code. client_run env = Inr (out, err, code) \<and> collect sp (out @ err) code = Inr (metrics rec) \<and>
           texts w' (path_join (sp_out_dir sp) (identifier_of sp @ ''-client.log'')) = Some (out @ err))"
proof -
  obtain q w1 c w2 where ph: "run_body env sp (setup_world sp w) = Some (q, w1)" "cleanup env sp w1 = Some (c, w2)"
    "(\<exists>e. (c = Inl e \<or> c = Inr () \<and> q = Inl e) \<and> r = Inl e \<and> w' = w2) \<or>
     (\<exists>client. c = Inr () \<and> q = Inr client \<and> finish env sp client w2 = Some (r, w'))"
    by (rule run_scenario_phases [OF assms])
  have d: "docs w2 = docs w"
    using ph(1,2) body_docs cleanup_docs by (auto simp: preserves_def setup_world_def)
  show ?thesis
  proof (cases r)
    case (Inl e)
    then have "docs w' = docs w2" using ph(3) finish_docs_error by blast
    then show ?thesis using Inl d by simp
  next
    case (Inr rec)
    then obtain out err code where f: "q = Inr (out, err, code)" "finish env sp (out, err, code) w2 = Some (Inr rec, w')"
      using ph(3) by auto
    have "client_run env = Inr (out, err, code)"
      using ph(1) f(1) by (cases "outcome env (RunClient (sp_client_cmd sp) (sp_env sp))")
        (auto simp: run_body_def run_client_def seqp_Inr lift_result_def)
    moreover have "docs w' = (docs w)(path_join (sp_out_dir sp) (identifier_of sp @ ''.json'') \<mapsto> asdict_record rec)"
      "rec_run_id rec = identifier_of sp" "proxy_errors w' = []" "collect sp (out @ err) code = Inr (metrics rec)"
      "texts w' (path_join (sp_out_dir sp) (identifier_of sp @ ''-client.log'')) = Some (out @ err)"
      using f(2) d
      by (auto simp: finish_def check_proxy_def write_record_def seqp_Inr act_def modify_def lift_result_def ret_def raise_def
          Let_def unit_result_neq split: if_splits sum.splits)
    ultimately show ?thesis using Inr by auto
  qed
qed

text \<open>
  The clean-up is not complete when the server does not stop: if waiting for the terminated
  server raises (it has five seconds), the run raises that exception and neither waits for the
  capture nor joins the proxy thread.
\<close>

theorem run_scenario_skips_cleanup:
  assumes "run_scenario env sp w = Some (r, w')" "server_starts env sp"
    and "outcome env TerminateServer = Inr ()" "outcome env WaitServer = Inl e" "trace w = []"
  shows "r = Inl e \<and> JoinProxy \<notin> set (trace w') \<and> (\<forall>n. WaitCapture n \<notin> set (trace w'))"
proof -
  obtain q w1 c w2 where ph: "run_body env sp (setup_world sp w) = Some (q, w1)" "cleanup env sp w1 = Some (c, w2)"
    "(\<exists>e. (c = Inl e \<or> c = Inr () \<and> q = Inl e) \<and> r = Inl e \<and> w' = w2) \<or>
     (\<exists>client. c = Inr () \<and> q = Inr client \<and> finish env sp client w2 = Some (r, w'))"
    by (rule run_scenario_phases [OF assms(1,2)])
  have c: "c = Inl e" "w2 = w1\<lparr>trace := trace w1 @ [TerminateServer, WaitServer]\<rparr>"
    using ph(2) assms(3,4) by (auto simp: cleanup_def)
  have "set (trace w1) \<subseteq> set (trace (setup_world sp w)) \<union> {a. a \<noteq> JoinProxy \<and> (\<forall>n. a \<noteq> WaitCapture n)}"
    using body_adds ph(1) unfolding adds_def by blast
  then have "set (trace w1) \<subseteq> {a. a \<noteq> JoinProxy \<and> (\<forall>n. a \<noteq> WaitCapture n)}"
    using assms(5) by (auto simp: setup_world_def)
  then show ?thesis using ph(3) c by auto
qed

text \<open>
  C21. Both polling loops end: whatever was observed before, \<open>wait_for_listener\<close> returns or raises
  once the clock has passed its deadline, and so does the wait for the capture file. With an
  observation at least every 50 milliseconds, 101 of them are enough for the five seconds.
\<close>

theorem polling_loops_return:
  assumes "\<And>i. i < length attempts \<Longrightarrow> started + 50 * i \<le> snd (attempts ! i)" "100 < length attempts"
    and "\<And>i. i < length obs \<Longrightarrow> begun + 50 * i \<le> snd (snd (obs ! i))" "100 < length obs"
  shows "(\<exists>r. wait_for_listener host port started 5000 attempts = Some r) \<and>
    (\<exists>r. wait_for_capture (begun + 5000) obs = Some r)"
proof
  have "attempts ! 100 \<in> set attempts" "snd (attempts ! 100) \<ge> started + 5000" using assms(1) [of 100] assms(2) by auto
  then show "\<exists>r. wait_for_listener host port started 5000 attempts = Some r" by (rule listener.loop_returns)
  have "obs ! 100 \<in> set obs" "snd (snd (obs ! 100)) \<ge> begun + 5000" using assms(3) [of 100] assms(4) by auto
  then show "\<exists>r. wait_for_capture (begun + 5000) obs = Some r" by (rule capture.loop_returns)
qed

theorem polling_loops_return_witness:
  "(\<exists>r. wait_for_listener ''127.0.0.1'' 2323 0 5000 (map (\<lambda>i. (Inl (OSError ''refused''), 50 * i)) [0..<101]) = Some r) \<and>
   (\<exists>r. wait_for_capture 5000 (map (\<lambda>i. (False, False, 50 * i)) [0..<101]) = Some r)"
  using polling_loops_return [of "map (\<lambda>i. (Inl (OSError ''refused''), 50 * i)) [0..<101]" 0
    "map (\<lambda>i. (False, False, 50 * i)) [0..<101]" 0 "''127.0.0.1''" 2323]
  by (simp del: upt_rec_numeral)

section \<open>A concrete run\<close>

definition demo_spec :: ScenarioSpec where
  "demo_spec = (new_spec ''openssh'' ''condition'' 1 ''base'' [''sshd''] [''ssh''] 2323 [] ''out'')\<lparr>sp_capture_traffic := True\<rparr>"

definition demo_env :: "py_error option \<Rightarrow> run_env" where
  "demo_env wait_error = \<lparr>outcome = (\<lambda>a. case (a, wait_error) of (WaitServer, Some e) \<Rightarrow> Inl e | _ \<Rightarrow> Inr ()),
     capture_started = 0, capture_obs = [(False, False, 10), (True, False, 60)],
     listener_started = 100, listener_obs = [(Inl (OSError ''refused''), 110), (Inr (), 160)], capture_exited = False,
     proxy_listening = Inr (), proxy_connected = Inr (), proxy_first = (Inr [], None), proxy_rounds = [[]],
     proxy_in_time = True, client_run = Inr (''kex: algorithm: curve25519-sha256'', [], 1)\<rparr>"

definition empty_world :: world where
  "empty_world = \<lparr>texts = Map.empty, docs = Map.empty, trace = [], has_capture = False, has_proxy = False, proxy_errors = []\<rparr>"

lemma demo_starts: "server_starts (demo_env x) demo_spec"
  by (simp add: server_starts_def demo_env_def)

lemma demo_scenario_returns: "\<exists>rec w'. run_scenario (demo_env None) demo_spec empty_world = Some (Inr rec, w')"
proof -
  have "parse_group ''openssh'' ''kex: algorithm: curve25519-sha256'' = Inr (Some ''curve25519-sha256'')"
    by (simp add: parse_group_def GROUP_RE_def search.simps is_space_def Let_def)
  then obtain m where "collect_metrics ''openssh'' ''kex: algorithm: curve25519-sha256'' 1 = Inr m"
    by (simp add: collect_metrics_def parse_handshake_def Let_def)
  then show ?thesis
    unfolding run_scenario_started [OF demo_starts]
    by (simp add: seqp_def finally_do_def run_body_def start_capture_def check_capture_def start_proxy_def run_client_def
        cleanup_def whenp_def lift_poll_def except_expired_def finish_def check_proxy_def write_record_def collect_def
        demo_env_def demo_spec_def new_spec_def empty_world_def setup_world_def act_def ret_def modify_def lift_result_def
        is_OSError_def Let_def)
qed

lemma demo_scenario_fails: "\<exists>r w'. run_scenario (demo_env (Some TimeoutExpired)) demo_spec empty_world = Some (r, w')"
    unfolding run_scenario_started [OF demo_starts]
    by (simp add: seqp_def finally_do_def run_body_def start_capture_def check_capture_def start_proxy_def run_client_def
        cleanup_def whenp_def lift_poll_def
        demo_env_def demo_spec_def new_spec_def empty_world_def setup_world_def act_def ret_def modify_def lift_result_def
        is_OSError_def Let_def)

theorem run_scenario_cleans_up_witness:
  "\<exists>r w'. run_scenario (demo_env None) demo_spec empty_world = Some (r, w') \<and> {TerminateServer, WaitServer} \<subseteq> set (trace w')"
proof -
  obtain rec w' where r: "run_scenario (demo_env None) demo_spec empty_world = Some (Inr rec, w')" using demo_scenario_returns by blast
  from r run_scenario_cleans_up [OF r demo_starts] show ?thesis by (auto simp: demo_env_def)
qed

theorem run_scenario_writes_record_witness:
  "\<exists>rec w'. run_scenario (demo_env None) demo_spec empty_world = Some (Inr rec, w') \<and>
     docs w' (path_join ''out'' (run_id ''openssh'' ''condition'' 1 ''base'' @ ''.json'')) = Some (asdict_record rec) \<and>
     from_json (asdict_record rec) = Inr rec \<and> rec_run_id rec = run_id ''openssh'' ''condition'' 1 ''base''"
proof -
  obtain rec w' where r: "run_scenario (demo_env None) demo_spec empty_world = Some (Inr rec, w')" using demo_scenario_returns by blast
  from r run_scenario_writes_record [OF r demo_starts] show ?thesis by (auto simp: demo_spec_def new_spec_def)
qed

theorem run_scenario_skips_cleanup_witness:
  "\<exists>w'. run_scenario (demo_env (Some TimeoutExpired)) demo_spec empty_world = Some (Inl TimeoutExpired, w') \<and>
     JoinProxy \<notin> set (trace w') \<and> (\<forall>n. WaitCapture n \<notin> set (trace w'))"
proof -
  obtain r w' where r: "run_scenario (demo_env (Some TimeoutExpired)) demo_spec empty_world = Some (r, w')"
    using demo_scenario_fails by blast
  from r run_scenario_skips_cleanup [OF r demo_starts] show ?thesis by (auto simp: demo_env_def empty_world_def)
qed

end
