(* ===== verification/TLV.thy ===== *)
theory TLV
  imports Prelude
begin

text \<open>
  The length-prefixed encoding that TLS extensions and key shares have in common: a 16-bit
  tag, a 16-bit length, a value.

  \<^item> \<open>read_u16\<close> models \<open>_read_u16\<close> of \<open>tools/faultinject/tls_clienthello.py\<close>.
  \<^item> \<open>tlv_region data c e ents\<close> is the abstract reading of a byte range: the bytes from \<open>c\<close> to
    \<open>e\<close> are exactly the encoding of the entries \<open>ents\<close>.
  \<^item> The source walks such ranges in five loops (two in \<open>find_key_share\<close>, two in
    \<open>strip_hybrid\<close>, the generator \<open>_extensions\<close>). The locale \<open>tlv_walk\<close> is their common
    contract; it proves once that a walk over an encoded range is the fold of its body over the
    entries, that a walk that returns has read such a range, and that a walk raises nothing but
    \<open>ValueError\<close> if its body does. Every loop of the model interprets it.
\<close>

definition read_u16 :: "bytes \<Rightarrow> nat \<Rightarrow> nat result" where
  "read_u16 data offset =
     (if offset + 2 > length data then Inl (ValueError ''truncated TLS field'')
      else Inr (from_bytes (pyslice data offset (offset + 2))))"

type_synonym tlv = "nat \<times> bytes"

definition tlv_ok :: "tlv \<Rightarrow> bool" where
  "tlv_ok x \<longleftrightarrow> fst x < 65536 \<and> length (snd x) < 65536"

definition tlv_bytes :: "tlv \<Rightarrow> bytes" where
  "tlv_bytes x = be_bytes 2 (fst x) @ be_bytes 2 (length (snd x)) @ snd x"

definition tlvs_bytes :: "tlv list \<Rightarrow> bytes" where
  "tlvs_bytes xs = concat (map tlv_bytes xs)"

definition tlv_region :: "bytes \<Rightarrow> nat \<Rightarrow> nat \<Rightarrow> tlv list \<Rightarrow> bool" where
  "tlv_region data c e ents \<longleftrightarrow>
     c \<le> e \<and> e \<le> length data \<and> pyslice data c e = tlvs_bytes ents \<and> list_all tlv_ok ents"

fun tlv_fold ::
    "(bytes \<Rightarrow> nat \<Rightarrow> nat \<Rightarrow> nat \<Rightarrow> 's \<Rightarrow> 's result) \<Rightarrow> bytes \<Rightarrow> nat \<Rightarrow> tlv list \<Rightarrow> 's \<Rightarrow> 's result" where
  "tlv_fold body data c [] s = Inr s"
| "tlv_fold body data c (x # xs) s =
     rbind (body data (fst x) (c + 4) (length (snd x)) s)
       (tlv_fold body data (c + 4 + length (snd x)) xs)"

section \<open>Reading 16-bit fields\<close>

lemma ve_only_read_u16 [simp]: "ve_only (read_u16 data i)"
  by (simp add: read_u16_def)

lemma read_u16_Inr_iff:
  "read_u16 data i = Inr n \<longleftrightarrow> i + 2 \<le> length data \<and> from_bytes (pyslice data i (i + 2)) = n"
  by (auto simp: read_u16_def)

lemma read_u16_less: "read_u16 data i = Inr n \<Longrightarrow> n < 65536"
  using from_bytes_less [of "pyslice data i (i + 2)"] by (auto simp: read_u16_Inr_iff)

lemma read_u16_bytes:
  assumes "read_u16 data i = Inr n"
  shows "pyslice data i (i + 2) = be_bytes 2 n"
proof -
  have "length (pyslice data i (i + 2)) = 2" using assms by (auto simp: read_u16_Inr_iff)
  then show ?thesis using assms be_bytes_from_bytes [of "pyslice data i (i + 2)"]
    by (simp add: read_u16_Inr_iff)
qed

lemma read_u16_of_slice:
  "i + 2 \<le> length data \<Longrightarrow> pyslice data i (i + 2) = be_bytes 2 n \<Longrightarrow> n < 65536 \<Longrightarrow>
   read_u16 data i = Inr n"
  by (simp add: read_u16_Inr_iff)

lemma read_u16_cong:
  assumes "length data = length data'" "\<And>j. i \<le> j \<Longrightarrow> j < i + 2 \<Longrightarrow> j < length data \<Longrightarrow> data ! j = data' ! j"
  shows "read_u16 data i = read_u16 data' i"
proof -
  have "pyslice data i (i + 2) = pyslice data' i (i + 2)"
    by (rule pyslice_eqI) (use assms in auto)
  then show ?thesis using assms(1) by (simp add: read_u16_def)
qed

lemma read_u16_pyslice:
  "b \<le> length data \<Longrightarrow> a + i + 2 \<le> b \<Longrightarrow> read_u16 (pyslice data a b) i = read_u16 data (a + i)"
  by (simp add: read_u16_def pyslice_pyslice add.assoc)

section \<open>Encoded ranges\<close>

lemma length_tlv_bytes [simp]: "length (tlv_bytes x) = 4 + length (snd x)"
  by (simp add: tlv_bytes_def)

lemma tlvs_bytes_simps [simp]:
  "tlvs_bytes [] = []"
  "tlvs_bytes (x # xs) = tlv_bytes x @ tlvs_bytes xs"
  "tlvs_bytes (xs @ ys) = tlvs_bytes xs @ tlvs_bytes ys"
  by (simp_all add: tlvs_bytes_def)

lemma tlv_region_Nil [simp]: "tlv_region data c e [] \<longleftrightarrow> c = e \<and> e \<le> length data"
proof
  assume "tlv_region data c e []"
  then have "c \<le> e" "e \<le> length data" "length (pyslice data c e) = 0"
    by (simp_all add: tlv_region_def)
  then show "c = e \<and> e \<le> length data" by auto
qed (auto simp: tlv_region_def)

lemma tlv_region_Cons_intro:
  assumes "read_u16 data c = Inr t" "read_u16 data (c + 2) = Inr n" "c + 4 + n \<le> e"
    and "tlv_region data (c + 4 + n) e es"
  shows "tlv_region data c e ((t, pyslice data (c + 4) (c + 4 + n)) # es)"
proof -
  have len: "e \<le> length data" and rest: "pyslice data (c + 4 + n) e = tlvs_bytes es" "list_all tlv_ok es"
    using assms(4) by (auto simp: tlv_region_def)
  have "pyslice data c e = pyslice data c (c + 2) @ pyslice data (c + 2) (c + 4) @
      pyslice data (c + 4) (c + 4 + n) @ pyslice data (c + 4 + n) e"
    using assms(3) pyslice_split [of c "c + 2" e data] pyslice_split [of "c + 2" "c + 4" e data]
      pyslice_split [of "c + 4" "c + 4 + n" e data] by simp
  also have "pyslice data (c + 2) (c + 4) = be_bytes 2 n"
    using read_u16_bytes [OF assms(2)] by (simp add: add.assoc)
  finally show ?thesis
    using assms len rest read_u16_less [OF assms(1)] read_u16_less [OF assms(2)] read_u16_bytes [OF assms(1)]
    by (simp add: tlv_region_def tlv_ok_def tlv_bytes_def)
qed

lemma tlv_region_Cons_elim:
  assumes "tlv_region data c e (x # es)"
  obtains "read_u16 data c = Inr (fst x)" "read_u16 data (c + 2) = Inr (length (snd x))"
    "c + 4 + length (snd x) \<le> e" "tlv_region data (c + 4 + length (snd x)) e es"
    "pyslice data (c + 4) (c + 4 + length (snd x)) = snd x" "tlv_ok x" "c < e"
proof -
  obtain t v where x: "x = (t, v)" by force
  have le: "c \<le> e" "e \<le> length data" and ok: "tlv_ok x" "list_all tlv_ok es"
    and eq: "pyslice data c e = be_bytes 2 t @ be_bytes 2 (length v) @ v @ tlvs_bytes es"
    using assms by (simp_all add: tlv_region_def tlv_bytes_def x)
  have tot: "e - c = 4 + length v + length (tlvs_bytes es)"
    using arg_cong [OF eq, of length] le by simp
  have sub: "pyslice data (c + i) (c + j) = pyslice (pyslice data c e) i j" if "c + j \<le> e" for i j
    using that by (simp add: pyslice_pyslice)
  have a: "pyslice data c (c + 2) = be_bytes 2 t"
    using sub [of 2 0] tot by (simp add: eq pyslice_append)
  have b: "pyslice data (c + 2) (c + 2 + 2) = be_bytes 2 (length v)"
    using sub [of 4 2] tot by (simp add: eq pyslice_append add.commute)
  have d: "pyslice data (c + 4) (c + 4 + length v) = v"
    using sub [of "4 + length v" 4] tot by (simp add: eq pyslice_append add.assoc)
  have f: "pyslice data (c + 4 + length v) e = tlvs_bytes es"
  proof -
    have "pyslice (pyslice data c e) (4 + length v) (4 + length v + length (tlvs_bytes es)) = tlvs_bytes es"
      by (simp add: eq pyslice_append)
    moreover have "e = c + (4 + length v + length (tlvs_bytes es))"
      using tot le by simp
    ultimately show ?thesis
      using sub [of "4 + length v + length (tlvs_bytes es)" "4 + length v"] by (simp add: add.assoc)
  qed
  show ?thesis
  proof (rule that)
    show "read_u16 data c = Inr (fst x)" "read_u16 data (c + 2) = Inr (length (snd x))"
      using a b tot le ok(1) by (auto simp: x tlv_ok_def intro!: read_u16_of_slice)
    show "tlv_region data (c + 4 + length (snd x)) e es"
      using f le tot ok(2) by (simp add: tlv_region_def x)
  qed (use d tot le ok in \<open>auto simp: x\<close>)
qed

lemma tlv_region_append:
  "data = pre @ tlvs_bytes es @ post \<Longrightarrow> c = length pre \<Longrightarrow> e = length pre + length (tlvs_bytes es) \<Longrightarrow>
   list_all tlv_ok es \<Longrightarrow> tlv_region data c e es"
  by (simp add: tlv_region_def)

section \<open>The contract of a walk\<close>

locale tlv_walk =
  fixes walk :: "bytes \<Rightarrow> nat \<Rightarrow> nat \<Rightarrow> 's \<Rightarrow> 's result"
    and body :: "bytes \<Rightarrow> nat \<Rightarrow> nat \<Rightarrow> nat \<Rightarrow> 's \<Rightarrow> 's result"
    and msg :: string
  assumes walk_unfold:
    "walk data e c s =
       (if c < e then
          rbind (read_u16 data c) (\<lambda>t. rbind (read_u16 data (c + 2)) (\<lambda>n.
            if c + 4 + n > e then Inl (ValueError msg)
            else rbind (body data t (c + 4) n s) (\<lambda>s'. walk data e (c + 4 + n) s')))
        else Inr s)"
begin

lemma walk_region: "tlv_region data c e ents \<Longrightarrow> walk data e c s = tlv_fold body data c ents s"
proof (induction ents arbitrary: c s)
  case Nil
  then show ?case by (simp add: walk_unfold [of _ e])
next
  case (Cons x es)
  from Cons.prems show ?case
  proof (rule tlv_region_Cons_elim)
    assume *: "read_u16 data c = Inr (fst x)" "read_u16 data (c + 2) = Inr (length (snd x))"
      "c + 4 + length (snd x) \<le> e" "tlv_region data (c + 4 + length (snd x)) e es" "c < e"
    have "walk data e (c + 4 + length (snd x)) = tlv_fold body data (c + 4 + length (snd x)) es"
      using Cons.IH [OF *(4)] by (rule ext)
    then show ?thesis using * by (simp add: walk_unfold [of _ e c])
  qed
qed

lemma walk_returns_region:
  "walk data e c s = Inr s' \<Longrightarrow> c \<le> e \<Longrightarrow> e \<le> length data \<Longrightarrow> \<exists>ents. tlv_region data c e ents"
proof (induction "e - c" arbitrary: c s rule: less_induct)
  case less
  show ?case
  proof (cases "c < e")
    case True
    then obtain t n s1 where *: "read_u16 data c = Inr t" "read_u16 data (c + 2) = Inr n" "c + 4 + n \<le> e"
      "walk data e (c + 4 + n) s1 = Inr s'"
      using less.prems(1) by (subst (asm) walk_unfold) (auto simp: res_simps split: if_splits)
    have "e - (c + 4 + n) < e - c" using True by linarith
    then obtain es where "tlv_region data (c + 4 + n) e es"
      using less.hyps [OF _ *(4)] *(3) less.prems(3) by blast
    then show ?thesis using tlv_region_Cons_intro [OF *(1-3)] by blast
  next
    case False
    then have "tlv_region data c e []" using less.prems by simp
    then show ?thesis ..
  qed
qed

lemma walk_Inr_iff:
  assumes "c \<le> e" "e \<le> length data"
  shows "walk data e c s = Inr s' \<longleftrightarrow> (\<exists>ents. tlv_region data c e ents \<and> tlv_fold body data c ents s = Inr s')"
  using walk_region walk_returns_region [OF _ assms] by metis

lemma walk_ve_only:
  assumes "\<And>t off n s. t < 65536 \<Longrightarrow> n < 65536 \<Longrightarrow> off + n \<le> e \<Longrightarrow> ve_only (body data t off n s)"
  shows "ve_only (walk data e c s)"
proof (induction "e - c" arbitrary: c s rule: less_induct)
  case less
  then show ?case
    by (subst walk_unfold) (auto intro!: ve_only_rbind assms dest: read_u16_less)
qed

end

end
