(* ===== verification/TLS_ClientHello.thy ===== *)
theory TLS_ClientHello
  imports TLV Py_Str
begin

text \<open>
  Model of \<open>tools/faultinject/tls_clienthello.py\<close>: locating the extensions of a TLS ClientHello
  record (\<open>_client_hello_extensions\<close>), listing its key shares (\<open>find_key_share\<close>), removing one
  group from \<open>supported_groups\<close> and \<open>key_share\<close> with every length field rewritten
  (\<open>strip_hybrid\<close>), and inverting the post-quantum half of a hybrid key share
  (\<open>forge_pq_component\<close>).

  Every \<open>while\<close> loop is a function with a termination proof; every \<open>raise\<close>, every index that
  may be out of range and every \<open>to_bytes\<close> that may overflow is a branch of the result.
\<close>

abbreviation TLS_HANDSHAKE :: nat where "TLS_HANDSHAKE \<equiv> 0x16"
abbreviation TLS_CLIENT_HELLO :: nat where "TLS_CLIENT_HELLO \<equiv> 0x01"
abbreviation TLS_SUPPORTED_GROUPS :: nat where "TLS_SUPPORTED_GROUPS \<equiv> 0x000A"
abbreviation TLS_KEY_SHARE :: nat where "TLS_KEY_SHARE \<equiv> 0x0033"
abbreviation X25519_BYTES :: nat where "X25519_BYTES \<equiv> 32"

text \<open>A key share as the code returns it: group, offset of the value in the record, length.\<close>

type_synonym share = "nat \<times> nat \<times> nat"

definition PQ_COMPONENTS :: "nat \<rightharpoonup> nat \<times> nat" where
  "PQ_COMPONENTS = [0x11EC \<mapsto> (0, 1184), 0x6399 \<mapsto> (X25519_BYTES, 1184)]"

definition client_hello_extensions :: "bytes \<Rightarrow> (nat \<times> nat) result" where
  "client_hello_extensions record =
     (if length record < 9 then Inl (ValueError ''not a TLS handshake record'') else
      rbind (byte_at record 0) (\<lambda>b0.
      if b0 \<noteq> TLS_HANDSHAKE then Inl (ValueError ''not a TLS handshake record'') else
      rbind (read_u16 record 3) (\<lambda>l. let record_end = 5 + l in
      if record_end > length record then Inl (ValueError ''not a complete TLS ClientHello'') else
      rbind (byte_at record 5) (\<lambda>b5.
      if b5 \<noteq> TLS_CLIENT_HELLO then Inl (ValueError ''not a complete TLS ClientHello'') else
      let handshake_end = 9 + from_bytes (pyslice record 6 9) in
      if handshake_end > record_end then Inl (ValueError ''truncated ClientHello'') else
      let cursor = 9 + 2 + 32 in
      if cursor \<ge> handshake_end then Inl (ValueError ''truncated ClientHello random'') else
      rbind (byte_at record cursor) (\<lambda>session_id_length. let cursor = cursor + (1 + session_id_length) in
      rbind (read_u16 record cursor) (\<lambda>cipher_suites_length. let cursor = cursor + (2 + cipher_suites_length) in
      if cursor \<ge> handshake_end then Inl (ValueError ''truncated ClientHello compression methods'') else
      rbind (byte_at record cursor) (\<lambda>compression_length. let cursor = cursor + (1 + compression_length) in
      rbind (read_u16 record cursor) (\<lambda>extensions_length. let cursor = cursor + 2;
          extensions_end = cursor + extensions_length in
      if extensions_end > handshake_end then Inl (ValueError ''truncated ClientHello extensions'')
      else Inr (cursor, extensions_end)))))))))"

text \<open>The inner loop of \<open>find_key_share\<close>, over the KeyShareEntry list of one extension.\<close>

function find_key_share_entries :: "bytes \<Rightarrow> nat \<Rightarrow> nat \<Rightarrow> share list \<Rightarrow> share list result" where
  "find_key_share_entries record key_share_end entry_cursor shares =
     (if entry_cursor < key_share_end then
        rbind (read_u16 record entry_cursor) (\<lambda>group_id.
        rbind (read_u16 record (entry_cursor + 2)) (\<lambda>value_length.
        let value_offset = entry_cursor + 4; entry_cursor' = value_offset + value_length in
        if entry_cursor' > key_share_end then Inl (ValueError ''truncated KeyShareEntry'')
        else find_key_share_entries record key_share_end entry_cursor'
               (shares @ [(group_id, value_offset, value_length)])))
      else Inr shares)"
  by pat_completeness auto
termination
  by (relation "measure (\<lambda>(record, e, c, s). e - c)") auto

text \<open>The outer loop of \<open>find_key_share\<close>, over the extensions.\<close>

function find_key_share_loop :: "bytes \<Rightarrow> nat \<Rightarrow> nat \<Rightarrow> share list \<Rightarrow> share list result" where
  "find_key_share_loop record extensions_end cursor shares =
     (if cursor < extensions_end then
        rbind (read_u16 record cursor) (\<lambda>extension_type.
        rbind (read_u16 record (cursor + 2)) (\<lambda>extension_length.
        let extension_start = cursor + 4; extension_end = extension_start + extension_length in
        if extension_end > extensions_end then Inl (ValueError ''truncated TLS extension'')
        else if extension_type = TLS_KEY_SHARE then
          rbind (read_u16 record extension_start) (\<lambda>l. let key_share_end = extension_start + 2 + l in
          if key_share_end \<noteq> extension_end then Inl (ValueError ''invalid key_share vector length'')
          else rbind (find_key_share_entries record key_share_end (extension_start + 2) shares)
                 (\<lambda>shares. find_key_share_loop record extensions_end extension_end shares))
        else find_key_share_loop record extensions_end extension_end shares))
      else Inr shares)"
  by pat_completeness auto
termination
  by (relation "measure (\<lambda>(record, e, c, s). e - c)") auto

definition find_key_share :: "bytes \<Rightarrow> share list result" where
  "find_key_share record =
     rbind (client_hello_extensions record) (\<lambda>(cursor, extensions_end).
       find_key_share_loop record extensions_end cursor [])"

text \<open>
  \<open>strip_hybrid\<close>, first the two payload rewrites. Each returns the new payload and whether it
  dropped an entry. \<open>len(retained_groups * 2)\<close> is the length of the doubled list.
\<close>

definition strip_groups_payload :: "nat \<Rightarrow> bytes \<Rightarrow> (bytes \<times> bool) result" where
  "strip_groups_payload hybrid_group_id payload =
     (if length payload < 2 then Inl (ValueError ''truncated supported_groups vector'') else
      rbind (read_u16 payload 0) (\<lambda>groups_length.
      if int groups_length \<noteq> int (length payload) - 2 \<or> groups_length mod 2 \<noteq> 0
      then Inl (ValueError ''invalid supported_groups vector length'') else
      let groups = map (\<lambda>index. pyslice payload index (index + 2)) (pyrange 2 (length payload) 2);
          retained_groups = filter (\<lambda>g. from_bytes g \<noteq> hybrid_group_id) groups in
      if length retained_groups \<noteq> length groups then
        rbind (to_bytes 2 (length (retained_groups @ retained_groups))) (\<lambda>len.
          Inr (len @ concat retained_groups, True))
      else Inr (payload, False)))"

function strip_shares_loop ::
    "nat \<Rightarrow> bytes \<Rightarrow> nat \<Rightarrow> nat \<Rightarrow> bytes list \<times> bool \<Rightarrow> (bytes list \<times> bool) result" where
  "strip_shares_loop hybrid_group_id payload e share_cursor st =
     (if share_cursor < e then
        rbind (read_u16 payload share_cursor) (\<lambda>group_id.
        rbind (read_u16 payload (share_cursor + 2)) (\<lambda>value_length.
        let share_end = share_cursor + 4 + value_length in
        if share_end > e then Inl (ValueError ''truncated KeyShareEntry'')
        else strip_shares_loop hybrid_group_id payload e share_end
          (if group_id \<noteq> hybrid_group_id then (fst st @ [pyslice payload share_cursor share_end], snd st)
           else (fst st, True))))
      else Inr st)"
  by pat_completeness auto
termination
  by (relation "measure (\<lambda>(g, payload, e, c, s). e - c)") auto

definition strip_shares_payload :: "nat \<Rightarrow> bytes \<Rightarrow> (bytes \<times> bool) result" where
  "strip_shares_payload hybrid_group_id payload =
     (if length payload < 2 then Inl (ValueError ''truncated key_share vector'') else
      rbind (read_u16 payload 0) (\<lambda>shares_length.
      if int shares_length \<noteq> int (length payload) - 2
      then Inl (ValueError ''invalid key_share vector length'') else
      rbind (strip_shares_loop hybrid_group_id payload (length payload) 2 ([], False))
        (\<lambda>(retained_shares, changed).
      rbind (to_bytes 2 (length (concat retained_shares))) (\<lambda>len.
        Inr (len @ concat retained_shares, changed)))))"

definition strip_payload :: "nat \<Rightarrow> nat \<Rightarrow> bytes \<Rightarrow> (bytes \<times> bool) result" where
  "strip_payload hybrid_group_id extension_type payload =
     (if extension_type = TLS_SUPPORTED_GROUPS then strip_groups_payload hybrid_group_id payload
      else if extension_type = TLS_KEY_SHARE then strip_shares_payload hybrid_group_id payload
      else Inr (payload, False))"

text \<open>The state of the loop: the rebuilt \<open>extensions\<close> buffer and the flag \<open>changed\<close>.\<close>

function strip_hybrid_loop ::
    "nat \<Rightarrow> bytes \<Rightarrow> nat \<Rightarrow> nat \<Rightarrow> bytes \<times> bool \<Rightarrow> (bytes \<times> bool) result" where
  "strip_hybrid_loop hybrid_group_id record extensions_end cursor st =
     (if cursor < extensions_end then
        rbind (read_u16 record cursor) (\<lambda>extension_type.
        rbind (read_u16 record (cursor + 2)) (\<lambda>extension_length.
        let extension_start = cursor + 4; extension_end = extension_start + extension_length in
        if extension_end > extensions_end then Inl (ValueError ''truncated TLS extension'')
        else
          rbind (strip_payload hybrid_group_id extension_type (pyslice record extension_start extension_end))
            (\<lambda>(payload, ch).
          rbind (to_bytes 2 extension_type) (\<lambda>ty.
          rbind (to_bytes 2 (length payload)) (\<lambda>len.
            strip_hybrid_loop hybrid_group_id record extensions_end extension_end
              (fst st @ ty @ len @ payload, snd st \<or> ch))))))
      else Inr st)"
  by pat_completeness auto
termination
  by (relation "measure (\<lambda>(g, record, e, c, s). e - c)") auto

definition strip_hybrid :: "bytes \<Rightarrow> nat \<Rightarrow> bytes result" where
  "strip_hybrid record hybrid_group_id =
     rbind (client_hello_extensions record) (\<lambda>(extensions_start, extensions_end).
     rbind (strip_hybrid_loop hybrid_group_id record extensions_end extensions_start ([], False))
       (\<lambda>(extensions, changed).
     if \<not> changed then Inr record else
     let client_hello_prefix = pyslice record 9 (extensions_start - 2) in
     rbind (to_bytes 2 (length extensions)) (\<lambda>extlen.
     let client_hello = client_hello_prefix @ extlen @ extensions in
     rbind (to_bytes 3 (length client_hello)) (\<lambda>chlen.
     let handshake = [word_of_nat TLS_CLIENT_HELLO] @ chlen @ client_hello in
     rbind (read_u16 record 3) (\<lambda>l. let record_end = 5 + l in
     rbind (to_bytes 2 (length handshake)) (\<lambda>hslen.
       Inr (take 3 record @ hslen @ handshake @ drop record_end record)))))))"

definition forge_pq_component :: "bytes \<Rightarrow> nat \<Rightarrow> bytes result" where
  "forge_pq_component record group_id =
     (case PQ_COMPONENTS group_id of None \<Rightarrow> Inl (KeyError (dec group_id))
      | Some (pq_offset, pq_length) \<Rightarrow>
        rbind (find_key_share record) (\<lambda>shares.
        case find (\<lambda>share. fst share = group_id) shares of
          None \<Rightarrow> Inl (ValueError (''key_share group 0x'' @ hex04 group_id @ '' not found''))
        | Some (_, value_offset, value_length) \<Rightarrow>
          if pq_offset + pq_length > value_length
          then Inl (ValueError ''key_share is shorter than the fixed hybrid component boundary'')
          else let start = value_offset + pq_offset in
            xor_loop [start..<start + pq_length] record))"

declare find_key_share_entries.simps [simp del] find_key_share_loop.simps [simp del]
  strip_shares_loop.simps [simp del] strip_hybrid_loop.simps [simp del]

section \<open>The loops are walks\<close>

definition entries_body :: "bytes \<Rightarrow> nat \<Rightarrow> nat \<Rightarrow> nat \<Rightarrow> share list \<Rightarrow> share list result" where
  "entries_body record t off n shares = Inr (shares @ [(t, off, n)])"

definition key_share_body :: "bytes \<Rightarrow> nat \<Rightarrow> nat \<Rightarrow> nat \<Rightarrow> share list \<Rightarrow> share list result" where
  "key_share_body record t off n shares =
     (if t = TLS_KEY_SHARE then
        rbind (read_u16 record off) (\<lambda>l.
          if off + 2 + l \<noteq> off + n then Inl (ValueError ''invalid key_share vector length'')
          else find_key_share_entries record (off + 2 + l) (off + 2) shares)
      else Inr shares)"

definition strip_share_body ::
    "nat \<Rightarrow> bytes \<Rightarrow> nat \<Rightarrow> nat \<Rightarrow> nat \<Rightarrow> bytes list \<times> bool \<Rightarrow> (bytes list \<times> bool) result" where
  "strip_share_body g payload t off n st =
     Inr (if t \<noteq> g then (fst st @ [pyslice payload (off - 4) (off + n)], snd st) else (fst st, True))"

definition strip_ext_body ::
    "nat \<Rightarrow> bytes \<Rightarrow> nat \<Rightarrow> nat \<Rightarrow> nat \<Rightarrow> bytes \<times> bool \<Rightarrow> (bytes \<times> bool) result" where
  "strip_ext_body g record t off n st =
     rbind (strip_payload g t (pyslice record off (off + n))) (\<lambda>(payload, ch).
     rbind (to_bytes 2 t) (\<lambda>ty. rbind (to_bytes 2 (length payload)) (\<lambda>len.
       Inr (fst st @ ty @ len @ payload, snd st \<or> ch))))"

interpretation fks_entries: tlv_walk find_key_share_entries entries_body "''truncated KeyShareEntry''"
  by unfold_locales (subst find_key_share_entries.simps, auto simp: entries_body_def Let_def intro!: rbind_cong)

interpretation fks_exts: tlv_walk find_key_share_loop key_share_body "''truncated TLS extension''"
  by unfold_locales
    (subst find_key_share_loop.simps, auto simp: key_share_body_def Let_def intro!: rbind_cong)

interpretation strip_shares: tlv_walk "strip_shares_loop g" "strip_share_body g" "''truncated KeyShareEntry''" for g
  by unfold_locales (subst strip_shares_loop.simps, auto simp: strip_share_body_def Let_def intro!: rbind_cong)

interpretation strip_exts: tlv_walk "strip_hybrid_loop g" "strip_ext_body g" "''truncated TLS extension''" for g
  by unfold_locales
    (subst strip_hybrid_loop.simps, auto simp: strip_ext_body_def Let_def split_def intro!: rbind_cong)

section \<open>Locating the extensions\<close>

lemma ve_only_client_hello_extensions: "ve_only (client_hello_extensions record)"
  unfolding client_hello_extensions_def Let_def
  by (auto intro!: ve_only_rbind simp: byte_at_def read_u16_Inr_iff split: if_splits)

lemma byte_at_Inr_iff: "byte_at data i = Inr n \<longleftrightarrow> i < length data \<and> unat (data ! i) = n"
  by (auto simp: byte_at_def)

lemma client_hello_extensions_chain:
  assumes "client_hello_extensions r = Inr (s, e)"
  obtains l sid cs cm where "9 \<le> length r" "unat (r ! 0) = 0x16" "read_u16 r 3 = Inr l" "5 + l \<le> length r"
    "unat (r ! 5) = 1" "e \<le> 9 + from_bytes (pyslice r 6 9)" "9 + from_bytes (pyslice r 6 9) \<le> 5 + l"
    "unat (r ! 43) = sid" "read_u16 r (44 + sid) = Inr cs"
    "unat (r ! (46 + sid + cs)) = cm" "s = 49 + sid + cs + cm" "s \<le> e" "read_u16 r (s - 2) = Inr (e - s)"
proof -
  have ac: "Suc (43 + n) = 44 + n" "44 + n + (2 + m) = 46 + n + m" "46 + n + m + Suc k + 2 = 49 + n + m + k"
    "49 + n + m + k - 2 = 46 + n + m + Suc k" for n m k :: nat by simp_all
  show ?thesis
    using assms unfolding client_hello_extensions_def Let_def
    by (auto simp: res_simps byte_at_Inr_iff ac split: if_splits intro!: that)
qed

lemma client_hello_extensionsE:
  assumes "client_hello_extensions r = Inr (s, e)"
  obtains l where "9 \<le> length r" "unat (r ! 0) = 0x16" "read_u16 r 3 = Inr l" "5 + l \<le> length r"
    "unat (r ! 5) = 1" "e \<le> 9 + from_bytes (pyslice r 6 9)" "9 + from_bytes (pyslice r 6 9) \<le> 5 + l"
    "49 \<le> s" "s \<le> e" "read_u16 r (s - 2) = Inr (e - s)"
  using assms by (rule client_hello_extensions_chain) (rule that; simp)

text \<open>
  The position of the extensions depends only on the bytes between the handshake header and the
  extensions length field, given consistent length fields.
\<close>

lemma client_hello_extensions_transfer:
  assumes che: "client_hello_extensions r = Inr (s, e)"
    and hd: "9 \<le> length r'" "unat (r' ! 0) = 0x16" "unat (r' ! 5) = 1"
    and lens: "read_u16 r' 3 = Inr l'" "5 + l' \<le> length r'" "9 + from_bytes (pyslice r' 6 9) \<le> 5 + l'"
    and same: "pyslice r' 9 (s - 2) = pyslice r 9 (s - 2)"
    and ext: "read_u16 r' (s - 2) = Inr n'" "s + n' \<le> 9 + from_bytes (pyslice r' 6 9)"
  shows "client_hello_extensions r' = Inr (s, s + n')"
proof -
  from che obtain l where l: "s \<le> e" "e \<le> 9 + from_bytes (pyslice r 6 9)" "5 + l \<le> length r"
    "9 + from_bytes (pyslice r 6 9) \<le> 5 + l"
    by (rule client_hello_extensionsE)
  have nth: "r' ! i = r ! i" if "9 \<le> i" "i < s - 2" for i
  proof -
    have "pyslice r' 9 (s - 2) ! (i - 9) = pyslice r 9 (s - 2) ! (i - 9)" using same by simp
    then show ?thesis using that l ext lens by simp
  qed
  have rd: "read_u16 r' i = read_u16 r i" if "9 \<le> i" "i + 2 \<le> s - 2" for i
  proof -
    have "pyslice r' i (i + 2) = pyslice (pyslice r' 9 (s - 2)) (i - 9) (i - 7)"
      "pyslice r i (i + 2) = pyslice (pyslice r 9 (s - 2)) (i - 9) (i - 7)"
      using that by (simp_all add: pyslice_pyslice add.commute)
    moreover have "\<not> i + 2 > length r'" "\<not> i + 2 > length r" using that l ext lens by linarith+
    ultimately show ?thesis using same by (simp add: read_u16_def)
  qed
  from che obtain sid cs cm where c: "unat (r ! 43) = sid" "read_u16 r (44 + sid) = Inr cs"
    "unat (r ! (46 + sid + cs)) = cm" "s = 49 + sid + cs + cm"
    by (rule client_hello_extensions_chain)
  have b: "unat (r' ! 43) = sid" "read_u16 r' (44 + sid) = Inr cs" "unat (r' ! (46 + sid + cs)) = cm"
    using c nth [of 43] rd [of "44 + sid"] nth [of "46 + sid + cs"] by simp_all
  have "byte_at r' 43 = Inr sid" "byte_at r' (46 + sid + cs) = Inr cm" "byte_at r' 0 = Inr 0x16" "byte_at r' 5 = Inr 1"
    "read_u16 r' (47 + sid + cs + cm) = Inr n'"
    using b hd ext lens c(4) by (auto simp: byte_at_Inr_iff add.assoc)
  then show ?thesis
    using b hd lens ext c(4) by (simp add: client_hello_extensions_def Let_def add.assoc)
qed

end
