(* ===== verification/TLS_Strip.thy ===== *)
theory TLS_Strip
  imports TLS_ClientHello
begin

text \<open>
  Correctness of \<open>strip_hybrid\<close>. The abstract view of a ClientHello is the list of its decoded
  extensions (\<open>hello_exts\<close>); on it, stripping a group is a filter (\<open>strip_ext\<close>). The lemmas show
  that \<open>strip_hybrid\<close> returns exactly on records that decode, and that its result decodes to the
  filtered extensions with all length fields consistent.
\<close>

section \<open>Abstract extensions\<close>

text \<open>
  What the payloads mean: a list of groups, a list of key shares, or bytes the code does not
  interpret. \<open>hello_exts record s e hs\<close> says that the extensions of the ClientHello stand at
  \<open>s..e\<close> and decode to \<open>hs\<close>.
\<close>

datatype hello_ext = Groups "nat list" | Shares "tlv list" | Other nat bytes

definition groups_payload :: "nat list \<Rightarrow> bytes" where
  "groups_payload gs = be_bytes 2 (2 * length gs) @ concat (map (be_bytes 2) gs)"

definition shares_payload :: "tlv list \<Rightarrow> bytes" where
  "shares_payload ss = be_bytes 2 (length (tlvs_bytes ss)) @ tlvs_bytes ss"

fun ext_tlv :: "hello_ext \<Rightarrow> tlv" where
  "ext_tlv (Groups gs) = (TLS_SUPPORTED_GROUPS, groups_payload gs)"
| "ext_tlv (Shares ss) = (TLS_KEY_SHARE, shares_payload ss)"
| "ext_tlv (Other t p) = (t, p)"

fun ext_ok :: "hello_ext \<Rightarrow> bool" where
  "ext_ok (Groups gs) \<longleftrightarrow> list_all (\<lambda>g. g < 65536) gs \<and> 2 + 2 * length gs < 65536"
| "ext_ok (Shares ss) \<longleftrightarrow> list_all tlv_ok ss \<and> 2 + length (tlvs_bytes ss) < 65536"
| "ext_ok (Other t p) \<longleftrightarrow> t \<noteq> TLS_SUPPORTED_GROUPS \<and> t \<noteq> TLS_KEY_SHARE \<and> t < 65536 \<and> length p < 65536"

fun strip_ext :: "nat \<Rightarrow> hello_ext \<Rightarrow> hello_ext" where
  "strip_ext g (Groups gs) = Groups (filter (\<lambda>x. x \<noteq> g) gs)"
| "strip_ext g (Shares ss) = Shares (filter (\<lambda>x. fst x \<noteq> g) ss)"
| "strip_ext g (Other t p) = Other t p"

fun ext_offers :: "nat \<Rightarrow> hello_ext \<Rightarrow> bool" where
  "ext_offers g (Groups gs) \<longleftrightarrow> g \<in> set gs"
| "ext_offers g (Shares ss) \<longleftrightarrow> g \<in> fst ` set ss"
| "ext_offers g (Other t p) \<longleftrightarrow> False"

definition hello_exts :: "bytes \<Rightarrow> nat \<Rightarrow> nat \<Rightarrow> hello_ext list \<Rightarrow> bool" where
  "hello_exts record s e hs \<longleftrightarrow>
     client_hello_extensions record = Inr (s, e) \<and> tlv_region record s e (map ext_tlv hs) \<and> list_all ext_ok hs"

lemma pyrange_2: "pyrange a (a + 2 * n) 2 = map (\<lambda>k. a + 2 * k) [0..<n]"
  by (simp add: pyrange_def)

lemma length_concat_be2 [simp]: "length (concat (map (be_bytes 2) gs)) = 2 * length gs"
  by (induction gs) auto

lemma length_payloads [simp]:
  "length (groups_payload gs) = 2 + 2 * length gs"
  "length (shares_payload ss) = 2 + length (tlvs_bytes ss)"
  by (simp_all add: groups_payload_def shares_payload_def)

lemma pyslice_concat_be2:
  "k < length gs \<Longrightarrow> pyslice (concat (map (be_bytes 2) gs)) (2 * k) (2 * k + 2) = be_bytes 2 (gs ! k)"
proof (induction gs arbitrary: k)
  case (Cons g gs)
  then show ?case by (cases k) (simp_all add: pyslice_append add.commute)
qed simp

lemma concat_chunks:
  "length bs = 2 * n \<Longrightarrow> concat (map (\<lambda>k. pyslice bs (2 * k) (2 * k + 2)) [0..<n]) = bs"
proof (induction n arbitrary: bs)
  case (Suc n)
  have "concat (map (\<lambda>k. pyslice bs (2 * k) (2 * k + 2)) [0..<n]) =
      concat (map (\<lambda>k. pyslice (take (2 * n) bs) (2 * k) (2 * k + 2)) [0..<n])"
    by (rule arg_cong [where f = concat], rule map_cong) (auto simp: pyslice_def take_drop min_def)
  also have "\<dots> = take (2 * n) bs" using Suc by simp
  finally show ?case using Suc.prems pyslice_split [of 0 "2 * n" "2 * n + 2" bs]
    by (simp add: pyslice_all pyslice_def)
qed simp

lemma groups_payload_cover:
  assumes "length p = 2 + 2 * n" "read_u16 p 0 = Inr (2 * n)"
  defines "gs \<equiv> map (\<lambda>k. from_bytes (pyslice p (2 + 2 * k) (2 + 2 * k + 2))) [0..<n]"
  shows "p = groups_payload gs" "list_all (\<lambda>g. g < 65536) gs" "length gs = n"
proof -
  have be: "be_bytes 2 (from_bytes (pyslice p (2 + 2 * k) (2 + 2 * k + 2))) =
      pyslice (drop 2 p) (2 * k) (2 * k + 2)" if "k < n" for k
  proof -
    have "pyslice p (2 + 2 * k) (2 + 2 * k + 2) = pyslice (drop 2 p) (2 * k) (2 * k + 2)"
      by (simp add: pyslice_def add.commute)
    moreover have "length (pyslice p (2 + 2 * k) (2 + 2 * k + 2)) = 2" using that assms(1) by simp
    ultimately show ?thesis by (metis be_bytes_from_bytes)
  qed
  have "map (be_bytes 2) gs = map (\<lambda>k. pyslice (drop 2 p) (2 * k) (2 * k + 2)) [0..<n]"
    unfolding gs_def map_map comp_def by (rule map_cong [OF refl]) (use be in simp)
  then have "concat (map (be_bytes 2) gs) = drop 2 p"
    using concat_chunks [of "drop 2 p" n] assms(1) by simp
  moreover have "take 2 p = be_bytes 2 (2 * n)"
    using read_u16_bytes [OF assms(2)] by (simp add: pyslice_def)
  moreover have "length gs = n" by (simp add: gs_def)
  ultimately show "p = groups_payload gs"
    unfolding groups_payload_def by (metis append_take_drop_id)
  show "list_all (\<lambda>g. g < 65536) gs"
    unfolding gs_def list_all_iff set_map by (intro ballI) (auto simp only: image_iff from_bytes_less_two)
  show "length gs = n" by (simp add: gs_def)
qed

lemma strip_groups_payload_groups:
  assumes "list_all (\<lambda>g. g < 65536) gs" "2 + 2 * length gs < 65536"
  shows "strip_groups_payload h (groups_payload gs) = Inr (groups_payload (filter (\<lambda>x. x \<noteq> h) gs), h \<in> set gs)"
proof -
  have r: "read_u16 (groups_payload gs) 0 = Inr (2 * length gs)"
    using assms(2) by (intro read_u16_of_slice) (simp_all add: groups_payload_def pyslice_append)
  have "map (\<lambda>i. pyslice (groups_payload gs) i (i + 2)) (pyrange 2 (2 + 2 * length gs) 2) =
      map (\<lambda>k. be_bytes 2 (gs ! k)) [0..<length gs]"
    unfolding pyrange_2 map_map comp_def
    by (rule map_cong [OF refl])
      (simp add: groups_payload_def pyslice_append_right add.commute flip: pyslice_concat_be2)
  also have "\<dots> = map (be_bytes 2) gs"
    by (rule nth_equalityI) simp_all
  finally have m: "map (\<lambda>i. pyslice (groups_payload gs) i (i + 2)) (pyrange 2 (2 + 2 * length gs) 2) =
      map (be_bytes 2) gs" .
  have f: "filter (\<lambda>g. from_bytes g \<noteq> h) (map (be_bytes 2) gs) = map (be_bytes 2) (filter (\<lambda>x. x \<noteq> h) gs)"
    using assms(1) by (induction gs) auto
  have nf: "filter (\<lambda>x. x \<noteq> h) gs = gs" if "h \<notin> set gs"
    using that by (auto simp: filter_id_conv)
  have ch: "length (filter (\<lambda>x. x \<noteq> h) gs) = length gs \<longleftrightarrow> h \<notin> set gs"
  proof (cases "h \<in> set gs")
    case True
    then show ?thesis using length_filter_less [of h gs "\<lambda>x. x \<noteq> h"] by simp
  next
    case False
    with nf show ?thesis by simp
  qed
  have "to_bytes 2 (length (filter (\<lambda>x. x \<noteq> h) gs) + length (filter (\<lambda>x. x \<noteq> h) gs)) =
      Inr (be_bytes 2 (2 * length (filter (\<lambda>x. x \<noteq> h) gs)))"
  proof -
    have "length (filter (\<lambda>x. x \<noteq> h) gs) + length (filter (\<lambda>x. x \<noteq> h) gs) < 256 ^ 2"
      unfolding pow256 using assms(2) length_filter_le [of "\<lambda>x. x \<noteq> h" gs] by linarith
    then show ?thesis by (simp only: to_bytes_def if_True mult_2)
  qed
  then show ?thesis
    using ch nf by (cases "h \<in> set gs")
      (simp_all add: strip_groups_payload_def r m f groups_payload_def [of "filter _ _"] Let_def)
qed

lemma strip_groups_payload_returns:
  assumes "strip_groups_payload h p = Inr q" "length p < 65536"
  obtains gs where "p = groups_payload gs" "list_all (\<lambda>g. g < 65536) gs" "2 + 2 * length gs < 65536"
proof -
  from assms(1) obtain l where l: "2 \<le> length p" "read_u16 p 0 = Inr l" "int l = int (length p) - 2" "l mod 2 = 0"
    unfolding strip_groups_payload_def by (auto simp: res_simps split: if_splits)
  then obtain n where n: "l = 2 * n" by (metis dvd_def mod_0_imp_dvd)
  with l have "length p = 2 + 2 * n" "read_u16 p 0 = Inr (2 * n)" by auto
  from groups_payload_cover [OF this] assms(2) this show ?thesis by (intro that) auto
qed

lemma strip_share_fold:
  "tlv_region payload c e ss \<Longrightarrow>
   tlv_fold (strip_share_body g) payload c ss st =
     Inr (fst st @ map tlv_bytes (filter (\<lambda>x. fst x \<noteq> g) ss), snd st \<or> g \<in> fst ` set ss)"
proof (induction ss arbitrary: c st)
  case (Cons x ss)
  from Cons.prems show ?case
  proof (rule tlv_region_Cons_elim)
    assume *: "read_u16 payload c = Inr (fst x)" "read_u16 payload (c + 2) = Inr (length (snd x))"
      "c + 4 + length (snd x) \<le> e" "tlv_region payload (c + 4 + length (snd x)) e ss"
      "pyslice payload (c + 4) (c + 4 + length (snd x)) = snd x"
    have "pyslice payload c (c + 4 + length (snd x)) = tlv_bytes x"
      using pyslice_split [of c "c + 2" "c + 4 + length (snd x)" payload]
        pyslice_split [of "c + 2" "c + 4" "c + 4 + length (snd x)" payload]
        read_u16_bytes [OF *(1)] read_u16_bytes [OF *(2)] *(5)
      by (simp add: tlv_bytes_def add.assoc)
    then show ?thesis
      using Cons.IH [OF *(4)] by (auto simp: strip_share_body_def)
  qed
qed simp

lemma shares_payload_region:
  assumes "list_all tlv_ok ss" "2 + length (tlvs_bytes ss) < 65536"
  shows "read_u16 (shares_payload ss) 0 = Inr (length (tlvs_bytes ss))"
    "tlv_region (shares_payload ss) 2 (2 + length (tlvs_bytes ss)) ss"
proof -
  show "read_u16 (shares_payload ss) 0 = Inr (length (tlvs_bytes ss))"
    using assms(2) by (intro read_u16_of_slice) (simp_all add: shares_payload_def pyslice_append)
  show "tlv_region (shares_payload ss) 2 (2 + length (tlvs_bytes ss)) ss"
    using assms(1) by (intro tlv_region_append [where pre = "be_bytes 2 (length (tlvs_bytes ss))" and post = "[]"])
      (simp_all add: shares_payload_def)
qed

lemma length_tlvs_bytes_filter: "length (tlvs_bytes (filter P ss)) \<le> length (tlvs_bytes ss)"
  by (induction ss) auto

lemma strip_shares_payload_shares:
  assumes "list_all tlv_ok ss" "2 + length (tlvs_bytes ss) < 65536"
  shows "strip_shares_payload g (shares_payload ss) =
    Inr (shares_payload (filter (\<lambda>x. fst x \<noteq> g) ss), g \<in> fst ` set ss)"
  using shares_payload_region [OF assms] assms(2) length_tlvs_bytes_filter [of "\<lambda>x. fst x \<noteq> g" ss]
  by (simp add: strip_shares_payload_def strip_shares.walk_region strip_share_fold to_bytes_def
      shares_payload_def [of "filter _ _"] tlvs_bytes_def [of "filter _ _"])

lemma strip_shares_payload_returns:
  assumes "strip_shares_payload g p = Inr q" "length p < 65536"
  obtains ss where "p = shares_payload ss" "list_all tlv_ok ss" "2 + length (tlvs_bytes ss) < 65536"
proof -
  from assms(1) obtain l st where l: "2 \<le> length p" "read_u16 p 0 = Inr l" "int l = int (length p) - 2"
    "strip_shares_loop g p (length p) 2 ([], False) = Inr st"
    unfolding strip_shares_payload_def by (auto simp: res_simps split: if_splits)
  then obtain ss where ss: "tlv_region p 2 (length p) ss"
    using strip_shares.walk_returns_region by blast
  have "pyslice p 2 (length p) = tlvs_bytes ss" using ss by (simp add: tlv_region_def)
  then have d: "drop 2 p = tlvs_bytes ss" by (simp add: pyslice_def)
  have t: "take 2 p = be_bytes 2 l" using read_u16_bytes [OF l(2)] by (simp add: pyslice_def)
  have len: "length p = 2 + length (tlvs_bytes ss)" using l(1) arg_cong [OF d, of length] by simp
  have "p = shares_payload ss"
    unfolding shares_payload_def using append_take_drop_id [of 2 p] d t len l(3) by simp
  with ss len assms(2) show ?thesis by (intro that) (auto simp: tlv_region_def)
qed

section \<open>Stripping refines the abstract operation\<close>

lemma ext_tlv_ok: "ext_ok h \<Longrightarrow> tlv_ok (ext_tlv h)"
  by (cases h) (auto simp: tlv_ok_def)

lemma strip_ext_ok: "ext_ok h \<Longrightarrow> ext_ok (strip_ext g h)"
proof (cases h)
  case (Groups gs)
  moreover assume "ext_ok h"
  ultimately show ?thesis by (auto simp: list_all_iff intro: le_less_trans [OF length_filter_le])
next
  case (Shares ss)
  moreover assume "ext_ok h"
  ultimately show ?thesis using length_tlvs_bytes_filter [of "\<lambda>x. fst x \<noteq> g" ss] by (auto simp: list_all_iff)
qed simp

lemma strip_payload_ext:
  "ext_ok h \<Longrightarrow> strip_payload g (fst (ext_tlv h)) (snd (ext_tlv h)) = Inr (snd (ext_tlv (strip_ext g h)), ext_offers g h)"
  by (cases h) (simp_all add: strip_payload_def strip_groups_payload_groups strip_shares_payload_shares)

lemma fst_ext_tlv_strip [simp]: "fst (ext_tlv (strip_ext g h)) = fst (ext_tlv h)"
  by (cases h) simp_all

lemma strip_payload_returns:
  assumes "strip_payload g t p = Inr q" "tlv_ok (t, p)"
  obtains h where "ext_tlv h = (t, p)" "ext_ok h"
proof -
  have len: "length p < 65536" "t < 65536" using assms(2) by (auto simp: tlv_ok_def)
  consider "t = TLS_SUPPORTED_GROUPS" | "t = TLS_KEY_SHARE" | "t \<noteq> TLS_SUPPORTED_GROUPS" "t \<noteq> TLS_KEY_SHARE"
    by blast
  then show ?thesis
  proof cases
    case 1
    with assms(1) have "strip_groups_payload g p = Inr q" by (simp add: strip_payload_def)
    then show ?thesis using len(1) by (rule strip_groups_payload_returns) (rule that [of "Groups _"]; simp add: 1)
  next
    case 2
    with assms(1) have "strip_shares_payload g p = Inr q" by (simp add: strip_payload_def)
    then show ?thesis using len(1) by (rule strip_shares_payload_returns) (rule that [of "Shares _"]; simp add: 2)
  next
    case 3
    with len show ?thesis by (intro that [of "Other t p"]) auto
  qed
qed

lemma strip_ext_fold:
  "tlv_region record c e (map ext_tlv hs) \<Longrightarrow> list_all ext_ok hs \<Longrightarrow>
   tlv_fold (strip_ext_body g) record c (map ext_tlv hs) st =
     Inr (fst st @ tlvs_bytes (map (\<lambda>h. ext_tlv (strip_ext g h)) hs), snd st \<or> list_ex (ext_offers g) hs)"
proof (induction hs arbitrary: c st)
  case (Cons h hs)
  have h: "ext_ok h" "list_all ext_ok hs" using Cons.prems by auto
  have "tlv_ok (ext_tlv (strip_ext g h))" using h(1) by (intro ext_tlv_ok strip_ext_ok)
  then have tb: "to_bytes 2 (fst (ext_tlv h)) = Inr (be_bytes 2 (fst (ext_tlv h)))"
    "to_bytes 2 (length (snd (ext_tlv (strip_ext g h)))) = Inr (be_bytes 2 (length (snd (ext_tlv (strip_ext g h)))))"
    by (simp_all add: tlv_ok_def to_bytes_def)
  have "tlv_region record c e (ext_tlv h # map ext_tlv hs)" using Cons.prems(1) by simp
  then show ?case
  proof (rule tlv_region_Cons_elim)
    assume *: "tlv_region record (c + 4 + length (snd (ext_tlv h))) e (map ext_tlv hs)"
      "pyslice record (c + 4) (c + 4 + length (snd (ext_tlv h))) = snd (ext_tlv h)"
    show ?thesis
      using Cons.IH [OF *(1) h(2)] *(2) strip_payload_ext [OF h(1), of g] tb
      by (simp add: strip_ext_body_def tlv_bytes_def)
  qed
qed simp

lemma strip_ext_fold_returns:
  "tlv_region record c e ents \<Longrightarrow> tlv_fold (strip_ext_body g) record c ents st = Inr st' \<Longrightarrow>
   \<exists>hs. ents = map ext_tlv hs \<and> list_all ext_ok hs"
proof (induction ents arbitrary: c st)
  case (Cons x es)
  from Cons.prems(1) show ?case
  proof (rule tlv_region_Cons_elim)
    assume *: "tlv_region record (c + 4 + length (snd x)) e es" "tlv_ok x"
      "pyslice record (c + 4) (c + 4 + length (snd x)) = snd x"
    from Cons.prems(2) obtain st1 where
      st1: "strip_ext_body g record (fst x) (c + 4) (length (snd x)) st = Inr st1"
      and q2: "tlv_fold (strip_ext_body g) record (c + 4 + length (snd x)) es st1 = Inr st'"
      unfolding tlv_fold.simps rbind_Inr_iff by blast
    from st1 *(3) obtain q where q: "strip_payload g (fst x) (snd x) = Inr q"
      by (auto simp: strip_ext_body_def res_simps)
    obtain h where "ext_tlv h = x" "ext_ok h"
      using strip_payload_returns [OF q] *(2) by (metis prod.collapse)
    moreover obtain hs where "es = map ext_tlv hs" "list_all ext_ok hs"
      using Cons.IH [OF *(1) q2] by blast
    ultimately show ?thesis by (intro exI [of _ "h # hs"]) simp
  qed
qed simp

text \<open>The record that \<open>strip_hybrid\<close> writes when it removed something.\<close>

definition rebuilt :: "bytes \<Rightarrow> nat \<Rightarrow> bytes \<Rightarrow> bytes" where
  "rebuilt record s exts =
     (let client_hello = pyslice record 9 (s - 2) @ be_bytes 2 (length exts) @ exts in
      take 3 record @ be_bytes 2 (4 + length client_hello) @ [1] @ be_bytes 3 (length client_hello) @ client_hello @
      drop (5 + from_bytes (pyslice record 3 5)) record)"

lemma length_strip_exts:
  "length (tlvs_bytes (map (\<lambda>h. ext_tlv (strip_ext g h)) hs)) \<le> length (tlvs_bytes (map ext_tlv hs))"
proof (induction hs)
  case (Cons h hs)
  have "length (snd (ext_tlv (strip_ext g h))) \<le> length (snd (ext_tlv h))"
    using length_tlvs_bytes_filter by (cases h) simp_all
  with Cons show ?case by simp
qed simp

lemma strip_hybrid_hello:
  assumes "hello_exts record s e hs"
  shows "strip_hybrid record g =
    Inr (if list_ex (ext_offers g) hs then rebuilt record s (tlvs_bytes (map (\<lambda>h. ext_tlv (strip_ext g h)) hs))
         else record)"
proof -
  have che: "client_hello_extensions record = Inr (s, e)" and reg: "tlv_region record s e (map ext_tlv hs)"
    and ok: "list_all ext_ok hs"
    using assms by (auto simp: hello_exts_def)
  from che obtain l where l: "read_u16 record 3 = Inr l" "e \<le> 5 + l" "49 \<le> s" "s \<le> e" "e \<le> length record"
    by (rule client_hello_extensionsE) (rule that, assumption, linarith+)
  define X where "X = tlvs_bytes (map (\<lambda>h. ext_tlv (strip_ext g h)) hs)"
  have "length X \<le> length (tlvs_bytes (map ext_tlv hs))"
    unfolding X_def by (rule length_strip_exts)
  also have "\<dots> = e - s"
  proof -
    have "tlvs_bytes (map ext_tlv hs) = pyslice record s e" using reg by (simp add: tlv_region_def)
    then show ?thesis using l by simp
  qed
  finally have X: "length X \<le> e - s" .
  have l16: "l < 65536" by (rule read_u16_less [OF l(1)])
  have l3: "l = from_bytes (pyslice record 3 5)" using l(1) by (simp add: read_u16_Inr_iff)
  have ar: "Suc (s + length X - 6) = s + length X - 5" using l(3) by simp
  show ?thesis
    unfolding strip_hybrid_def che
    using strip_exts.walk_region [OF reg, of g "([], False)"] strip_ext_fold [OF reg ok, of g "([], False)"] X l l16
    by (auto simp: Let_def to_bytes_def rebuilt_def ar l3 [symmetric] simp flip: X_def)
qed

lemma strip_loop_hello:
  assumes "client_hello_extensions record = Inr (s, e)" "strip_hybrid_loop g record e s ([], False) = Inr st"
  obtains hs where "hello_exts record s e hs"
proof -
  from assms(1) have "s \<le> e" "e \<le> length record"
    by (auto elim: client_hello_extensionsE)
  then obtain ents where "tlv_region record s e ents" "tlv_fold (strip_ext_body g) record s ents ([], False) = Inr st"
    using assms(2) strip_exts.walk_Inr_iff by blast
  moreover from this obtain hs where "ents = map ext_tlv hs" "list_all ext_ok hs"
    using strip_ext_fold_returns by blast
  ultimately show ?thesis using assms(1) that by (auto simp: hello_exts_def)
qed

lemma strip_hybrid_returns:
  assumes "strip_hybrid record g = Inr r'"
  obtains s e hs where "hello_exts record s e hs"
proof -
  from assms obtain s e st where "client_hello_extensions record = Inr (s, e)"
    "strip_hybrid_loop g record e s ([], False) = Inr st"
    unfolding strip_hybrid_def by (auto simp: res_simps)
  then show ?thesis using strip_loop_hello that by blast
qed

lemma rebuilt_hello:
  assumes "hello_exts record s e hs" "list_all ext_ok hs'" "length (tlvs_bytes (map ext_tlv hs')) \<le> e - s"
  defines "X \<equiv> tlvs_bytes (map ext_tlv hs')"
  shows "hello_exts (rebuilt record s X) s (s + length X) hs'"
proof -
  have che: "client_hello_extensions record = Inr (s, e)" using assms(1) by (simp add: hello_exts_def)
  then obtain l where l: "unat (record ! 0) = 0x16" "read_u16 record 3 = Inr l" "5 + l \<le> length record"
    "e \<le> 5 + l" "49 \<le> s" "s \<le> e" "9 \<le> length record"
    by (rule client_hello_extensionsE) (rule that, assumption+, linarith+)
  have l16: "l < 65536" by (rule read_u16_less [OF l(2)])
  define P where "P = pyslice record 9 (s - 2)"
  define ch where "ch = P @ be_bytes 2 (length X) @ X"
  define post where "post = drop (5 + from_bytes (pyslice record 3 5)) record"
  have lenP: "length P = s - 11" using l by (simp add: P_def)
  have lench: "length ch = s - 9 + length X" using l(5) by (simp add: ch_def lenP)
  have X: "length X \<le> e - s" using assms(3) by (simp add: X_def)
  have t3: "length (take 3 record) = 3" using l(7) by simp
  have R: "rebuilt record s X = take 3 record @ be_bytes 2 (4 + length ch) @ [1] @ be_bytes 3 (length ch) @ ch @ post"
    by (simp add: rebuilt_def Let_def ch_def P_def post_def)
  have R9: "rebuilt record s X = (take 3 record @ be_bytes 2 (4 + length ch) @ [1] @ be_bytes 3 (length ch)) @ ch @ post"
    by (simp add: R)
  have lenR: "s + length X \<le> length (rebuilt record s X)"
    unfolding R using lench l(5,7) by simp
  have b: "rebuilt record s X ! 0 = record ! 0" "rebuilt record s X ! 5 = 1"
    unfolding R using l(7) by (simp_all add: nth_append)
  have sl: "pyslice (rebuilt record s X) 3 5 = be_bytes 2 (4 + length ch)"
    "pyslice (rebuilt record s X) 6 9 = be_bytes 3 (length ch)"
    unfolding R using t3 by (simp_all add: pyslice_append)
  have P': "pyslice (rebuilt record s X) 9 (s - 2) = P"
    unfolding R9 ch_def using l(5,7) lenP by (simp add: pyslice_append)
  have ex: "pyslice (rebuilt record s X) (s - 2) s = be_bytes 2 (length X)"
    unfolding R9 ch_def using l(5,7) lenP by (simp add: pyslice_append)
  have "client_hello_extensions (rebuilt record s X) = Inr (s, s + length X)"
  proof (rule client_hello_extensions_transfer [OF che, where l' = "4 + length ch"])
    show "read_u16 (rebuilt record s X) 3 = Inr (4 + length ch)"
      using sl(1) lench lenR l X l16 by (intro read_u16_of_slice) auto
    show "read_u16 (rebuilt record s X) (s - 2) = Inr (length X)"
      using ex lenR l X l16 by (intro read_u16_of_slice) auto
  qed (use b sl lench lenR l X l16 P' in \<open>auto simp: P_def\<close>)
  moreover have "tlv_region (rebuilt record s X) s (s + length X) (map ext_tlv hs')"
  proof (rule tlv_region_append)
    show "rebuilt record s X = (take 3 record @ be_bytes 2 (4 + length ch) @ [1] @ be_bytes 3 (length ch) @
        P @ be_bytes 2 (length X)) @ tlvs_bytes (map ext_tlv hs') @ post"
      by (simp add: R ch_def flip: X_def)
  qed (use l(5,7) lenP assms(2) in \<open>auto simp: X_def list_all_iff ext_tlv_ok\<close>)
  ultimately show ?thesis using assms(2) by (simp add: hello_exts_def)
qed

lemma strip_hybrid_refines:
  assumes "strip_hybrid record g = Inr r'"
  obtains s e e' hs where "hello_exts record s e hs" "hello_exts r' s e' (map (strip_ext g) hs)"
    "r' = (if list_ex (ext_offers g) hs then rebuilt record s (tlvs_bytes (map ext_tlv (map (strip_ext g) hs))) else record)"
proof -
  from assms obtain s e hs where h: "hello_exts record s e hs" by (rule strip_hybrid_returns)
  have r': "r' = (if list_ex (ext_offers g) hs then rebuilt record s (tlvs_bytes (map ext_tlv (map (strip_ext g) hs)))
      else record)"
    using strip_hybrid_hello [OF h, of g] assms by (simp add: comp_def)
  have ok: "list_all ext_ok (map (strip_ext g) hs)"
    using h by (auto simp: hello_exts_def list_all_iff strip_ext_ok)
  have reg: "tlvs_bytes (map ext_tlv hs) = pyslice record s e" using h by (simp add: hello_exts_def tlv_region_def)
  show ?thesis
  proof (cases "list_ex (ext_offers g) hs")
    case True
    have "length (tlvs_bytes (map ext_tlv (map (strip_ext g) hs))) \<le> e - s"
      using length_strip_exts [of g hs] reg by (simp add: comp_def)
    from rebuilt_hello [OF h ok this] show ?thesis using h r' True that by simp
  next
    case False
    then have "strip_ext g h' = h'" if "h' \<in> set hs" for h'
      using that by (cases h') (force simp: list_ex_iff filter_id_conv)+
    then have "map (strip_ext g) hs = hs" by (simp add: map_idI)
    then show ?thesis using h r' False that by simp
  qed
qed

section \<open>Key shares of a decoded hello\<close>

text \<open>The shares with their values, as bytes of the record.\<close>

definition share_values :: "bytes \<Rightarrow> share list \<Rightarrow> tlv list" where
  "share_values record shares = map (\<lambda>(g, off, n). (g, pyslice record off (off + n))) shares"

fun share_offsets :: "nat \<Rightarrow> tlv list \<Rightarrow> share list" where
  "share_offsets c [] = []"
| "share_offsets c (x # xs) = (fst x, c + 4, length (snd x)) # share_offsets (c + 4 + length (snd x)) xs"

fun ext_shares :: "nat \<Rightarrow> hello_ext list \<Rightarrow> share list" where
  "ext_shares c [] = []"
| "ext_shares c (h # hs) =
     (case h of Shares ss \<Rightarrow> share_offsets (c + 4 + 2) ss | _ \<Rightarrow> []) @
     ext_shares (c + 4 + length (snd (ext_tlv h))) hs"

fun ext_tlvs :: "hello_ext \<Rightarrow> tlv list" where
  "ext_tlvs (Shares ss) = ss"
| "ext_tlvs _ = []"

lemma tlv_region_shift:
  assumes "tlv_region (pyslice record a b) c e es" "b \<le> length record" "a \<le> b"
  shows "tlv_region record (a + c) (a + e) es"
  using assms by (auto simp: tlv_region_def pyslice_pyslice)

lemma entries_fold: "tlv_fold entries_body record c ss acc = Inr (acc @ share_offsets c ss)"
  by (induction ss arbitrary: c acc) (simp_all add: entries_body_def)

lemma share_offsets_values:
  "tlv_region record c e ss \<Longrightarrow> share_values record (share_offsets c ss) = ss"
proof (induction ss arbitrary: c)
  case (Cons x xs)
  from Cons.prems show ?case
    by (rule tlv_region_Cons_elim) (use Cons.IH in \<open>auto simp: share_values_def\<close>)
qed (simp add: share_values_def)

lemma shares_region_in_record:
  assumes "pyslice record off (off + length (shares_payload ss)) = shares_payload ss"
    "off + length (shares_payload ss) \<le> length record" "ext_ok (Shares ss)"
  shows "read_u16 record off = Inr (length (tlvs_bytes ss))"
    "tlv_region record (off + 2) (off + 2 + length (tlvs_bytes ss)) ss"
proof -
  note reg = shares_payload_region [of ss]
  show "read_u16 record off = Inr (length (tlvs_bytes ss))"
    using reg(1) read_u16_pyslice [of "off + length (shares_payload ss)" "record" off 0] assms by simp
  show "tlv_region record (off + 2) (off + 2 + length (tlvs_bytes ss)) ss"
    using tlv_region_shift [of "record" off "off + length (shares_payload ss)" 2 "2 + length (tlvs_bytes ss)" ss]
      reg(2) assms by (simp add: add.assoc)
qed

lemma key_share_fold:
  "tlv_region record c e (map ext_tlv hs) \<Longrightarrow> list_all ext_ok hs \<Longrightarrow>
   tlv_fold key_share_body record c (map ext_tlv hs) acc = Inr (acc @ ext_shares c hs) \<and>
   share_values record (ext_shares c hs) = concat (map ext_tlvs hs)"
proof (induction hs arbitrary: c acc)
  case (Cons h hs)
  have h: "ext_ok h" "list_all ext_ok hs" using Cons.prems by auto
  have "tlv_region record c e (ext_tlv h # map ext_tlv hs)" using Cons.prems(1) by simp
  then show ?case
  proof (rule tlv_region_Cons_elim)
    assume *: "tlv_region record (c + 4 + length (snd (ext_tlv h))) e (map ext_tlv hs)"
      "pyslice record (c + 4) (c + 4 + length (snd (ext_tlv h))) = snd (ext_tlv h)"
      "c + 4 + length (snd (ext_tlv h)) \<le> e"
    have e: "e \<le> length record" using Cons.prems(1) by (simp add: tlv_region_def)
    let ?sh = "case h of Shares ss \<Rightarrow> share_offsets (c + 4 + 2) ss | _ \<Rightarrow> []"
    have "key_share_body record (fst (ext_tlv h)) (c + 4) (length (snd (ext_tlv h))) acc = Inr (acc @ ?sh) \<and>
        share_values record ?sh = ext_tlvs h"
    proof (cases h)
      case (Shares ss)
      have reg: "read_u16 record (c + 4) = Inr (length (tlvs_bytes ss))"
        "tlv_region record (c + 4 + 2) (c + 4 + 2 + length (tlvs_bytes ss)) ss"
        using shares_region_in_record [of "record" "c + 4" ss] * e h(1) Shares by simp_all
      then show ?thesis
        using share_offsets_values [OF reg(2)] fks_entries.walk_region [OF reg(2)]
        by (simp add: Shares key_share_body_def entries_fold del: add_2_eq_Suc' add_numeral_left)
    qed (use h(1) in \<open>simp_all add: key_share_body_def share_values_def\<close>)
    then show ?thesis
      using Cons.IH [OF *(1) h(2)] by (simp add: share_values_def)
  qed
qed (simp add: share_values_def)

lemma find_key_share_hello:
  assumes "hello_exts record s e hs"
  shows "find_key_share record = Inr (ext_shares s hs)"
    "share_values record (ext_shares s hs) = concat (map ext_tlvs hs)"
  using assms key_share_fold [of "record" s e hs "[]"] fks_exts.walk_region [of "record" s e "map ext_tlv hs" "[]"]
  by (auto simp: hello_exts_def find_key_share_def)

lemma ext_tlvs_strip: "concat (map (ext_tlvs \<circ> strip_ext g) hs) = filter (\<lambda>x. fst x \<noteq> g) (concat (map ext_tlvs hs))"
proof (induction hs)
  case (Cons h hs)
  then show ?case by (cases h) auto
qed simp

section \<open>A concrete hello\<close>

text \<open>
  The ClientHello that \<open>tests/fixtures.py\<close> builds, for any list of extensions: legacy version,
  zero random, empty session id, one cipher suite, null compression.
\<close>

definition sample_body :: "hello_ext list \<Rightarrow> bytes" where
  "sample_body hs = [3, 3] @ replicate 32 0 @ [0, 0, 2, 0x13, 1, 1, 0] @
     be_bytes 2 (length (tlvs_bytes (map ext_tlv hs))) @ tlvs_bytes (map ext_tlv hs)"

definition sample_hello :: "hello_ext list \<Rightarrow> bytes" where
  "sample_hello hs = [0x16, 3, 3] @ be_bytes 2 (4 + length (sample_body hs)) @
     [1] @ be_bytes 3 (length (sample_body hs)) @ sample_body hs"

lemma sample_hello_exts:
  assumes "list_all ext_ok hs" "length (tlvs_bytes (map ext_tlv hs)) < 60000"
  shows "hello_exts (sample_hello hs) 52 (52 + length (tlvs_bytes (map ext_tlv hs))) hs"
proof -
  define X where "X = tlvs_bytes (map ext_tlv hs)"
  have L: "length (sample_body hs) = 43 + length X" by (simp add: sample_body_def X_def)
  have S: "sample_hello hs = ([0x16, 3, 3] @ be_bytes 2 (47 + length X) @ [1] @ be_bytes 3 (43 + length X) @
      [3, 3] @ replicate 32 0 @ [0, 0, 2, 0x13, 1, 1, 0] @ be_bytes 2 (length X)) @ X @ []"
    by (simp add: sample_hello_def L) (simp add: sample_body_def X_def)
  have lenS: "length (sample_hello hs) = 52 + length X" by (simp add: S)
  have sl: "pyslice (sample_hello hs) 3 5 = be_bytes 2 (47 + length X)"
    "pyslice (sample_hello hs) 6 9 = be_bytes 3 (43 + length X)"
    "pyslice (sample_hello hs) 44 46 = be_bytes 2 2"
    "pyslice (sample_hello hs) 50 52 = be_bytes 2 (length X)"
    by (simp_all add: S pyslice_append)
      (simp_all add: pyslice_def numeral_2_eq_2)
  have b: "sample_hello hs ! 0 = 0x16" "sample_hello hs ! 5 = 1" "sample_hello hs ! 43 = 0" "sample_hello hs ! 48 = 1"
    by (simp_all add: S nth_append)
  have X: "length X < 60000" using assms(2) by (simp add: X_def)
  have rd: "read_u16 (sample_hello hs) 3 = Inr (47 + length X)" "read_u16 (sample_hello hs) 44 = Inr 2"
    "read_u16 (sample_hello hs) 50 = Inr (length X)"
    using sl X lenS by (auto intro!: read_u16_of_slice)
  have "client_hello_extensions (sample_hello hs) = Inr (52, 52 + length X)"
    using sl b rd lenS X by (simp add: client_hello_extensions_def byte_at_def Let_def)
  moreover have "tlv_region (sample_hello hs) 52 (52 + length X) (map ext_tlv hs)"
    using S unfolding X_def
    by (rule tlv_region_append) (use assms(1) in \<open>auto simp: list_all_iff ext_tlv_ok\<close>)
  ultimately show ?thesis using assms(1) by (simp add: hello_exts_def X_def)
qed

definition demo_exts :: "hello_ext list" where
  "demo_exts = [Groups [0x11EC, 0x1D], Other 0x2B [2, 3, 4], Shares [(0x11EC, [1, 2, 3, 4]), (0x1D, [9, 8])]]"

definition demo_record :: bytes where
  "demo_record = sample_hello demo_exts @ [0x14, 3, 3, 0, 1, 1]"

lemma demo_exts_ok: "list_all ext_ok demo_exts" "length (tlvs_bytes (map ext_tlv demo_exts)) = 37"
  by (simp_all add: demo_exts_def tlv_ok_def)

lemma hello_exts_append:
  assumes "hello_exts r s e hs"
  shows "hello_exts (r @ t) s e hs"
proof -
  have che: "client_hello_extensions r = Inr (s, e)" and reg: "tlv_region r s e (map ext_tlv hs)"
    and ok: "list_all ext_ok hs"
    using assms by (auto simp: hello_exts_def)
  from che obtain l where l: "9 \<le> length r" "unat (r ! 0) = 0x16" "read_u16 r 3 = Inr l" "5 + l \<le> length r"
    "unat (r ! 5) = 1" "e \<le> 9 + from_bytes (pyslice r 6 9)" "9 + from_bytes (pyslice r 6 9) \<le> 5 + l"
    "49 \<le> s" "s \<le> e" "read_u16 r (s - 2) = Inr (e - s)"
    by (rule client_hello_extensionsE)
  have "client_hello_extensions (r @ t) = Inr (s, s + (e - s))"
  proof (rule client_hello_extensions_transfer [OF che])
    show "read_u16 (r @ t) 3 = Inr l" "read_u16 (r @ t) (s - 2) = Inr (e - s)"
      using l by (auto simp: read_u16_Inr_iff pyslice_append_left)
  qed (use l in \<open>auto simp: nth_append pyslice_append_left\<close>)
  moreover have "tlv_region (r @ t) s e (map ext_tlv hs)"
    using reg by (simp add: tlv_region_def pyslice_append_left)
  ultimately show ?thesis using ok l(9) by (simp add: hello_exts_def)
qed

lemma demo_hello: "hello_exts demo_record 52 89 demo_exts"
  using hello_exts_append [OF sample_hello_exts [OF demo_exts_ok(1)]] demo_exts_ok(2)
  by (simp add: demo_record_def)

lemma demo_strip:
  "strip_hybrid demo_record 0x11EC =
     Inr (rebuilt demo_record 52 (tlvs_bytes (map ext_tlv [Groups [0x1D], Other 0x2B [2, 3, 4], Shares [(0x1D, [9, 8])]])))"
  unfolding strip_hybrid_hello [OF demo_hello] by (simp add: demo_exts_def)

section \<open>Theorems\<close>

lemma ve_only_strip_payload: "ve_only (strip_payload g t p)" if "length p < 65536"
proof -
  have "ve_only (strip_groups_payload g p)"
  proof (cases "strip_groups_payload g p")
    case (Inl err)
    have "length (filter P (map f (pyrange 2 (length p) 2))) \<le> (length p - 1) div 2" for P and f :: "nat \<Rightarrow> bytes"
      by (rule le_trans [OF length_filter_le]) (simp add: pyrange_def)
    then have "length (filter P (map f (pyrange 2 (length p) 2))) + length (filter P (map f (pyrange 2 (length p) 2))) < 65536"
      for P and f :: "nat \<Rightarrow> bytes"
    proof -
      let ?n = "length (filter P (map f (pyrange 2 (length p) 2)))"
      have "?n \<le> (length p - 1) div 2" by fact
      then have "2 * ?n \<le> length p" by linarith
      then show ?thesis using that by linarith
    qed
    then show ?thesis
      unfolding strip_groups_payload_def Let_def
      by (auto intro!: ve_only_rbind simp: to_bytes_def)
  qed simp
  moreover have "ve_only (strip_shares_payload g p)"
  proof (cases "strip_shares_loop g p (length p) 2 ([], False)")
    case (Inl err)
    have "ve_only (strip_shares_loop g p (length p) 2 ([], False))"
      by (rule strip_shares.walk_ve_only) (simp add: strip_share_body_def)
    with Inl show ?thesis
      by (auto simp: strip_shares_payload_def intro!: ve_only_rbind)
  next
    case (Inr st)
    show ?thesis
    proof (cases "2 \<le> length p")
      case True
      then obtain ss where ss: "tlv_region p 2 (length p) ss"
        using strip_shares.walk_returns_region [OF Inr] by auto
      then have "length (tlvs_bytes ss) = length p - 2"
        by (metis diff_is_0_eq' length_pyslice min.idem tlv_region_def)
      moreover have "st = (map tlv_bytes (filter (\<lambda>x. fst x \<noteq> g) ss), g \<in> fst ` set ss)"
        using Inr strip_shares.walk_region [OF ss] strip_share_fold [OF ss] by simp
      ultimately show ?thesis
        using Inr that length_tlvs_bytes_filter [of "\<lambda>x. fst x \<noteq> g" ss]
        by (auto simp: strip_shares_payload_def to_bytes_def tlvs_bytes_def intro!: ve_only_rbind)
    qed (simp add: strip_shares_payload_def)
  qed
  ultimately show ?thesis by (simp add: strip_payload_def)
qed

lemma strip_payload_length:
  assumes "strip_payload g t p = Inr (p', ch)" "tlv_ok (t, p)"
  shows "length p' < 65536"
proof -
  obtain h where h: "ext_tlv h = (t, p)" "ext_ok h" using strip_payload_returns [OF assms] .
  with strip_payload_ext [OF h(2), of g] assms(1) have "p' = snd (ext_tlv (strip_ext g h))" by simp
  with ext_tlv_ok [OF strip_ext_ok [OF h(2)], of g] show ?thesis by (simp add: tlv_ok_def)
qed

lemma ve_only_strip_hybrid_loop: "ve_only (strip_hybrid_loop g r e c st)"
proof (rule strip_exts.walk_ve_only)
  fix t off n :: nat and s :: "bytes \<times> bool"
  assume *: "t < 65536" "n < 65536"
  have len: "length (pyslice r off (off + n)) < 65536" using *(2) by simp
  have "length p' < 65536" if "strip_payload g t (pyslice r off (off + n)) = Inr (p', ch)" for p' ch
    using that len *(1) by (intro strip_payload_length) (auto simp: tlv_ok_def)
  then show "ve_only (strip_ext_body g r t off n s)"
    using *(1) ve_only_strip_payload [OF len, of g t]
    by (auto simp: strip_ext_body_def to_bytes_def intro!: ve_only_rbind)
qed

lemma strip_hybrid_ve_only: "ve_only (strip_hybrid r g)"
proof (cases "\<exists>s e st. client_hello_extensions r = Inr (s, e) \<and> strip_hybrid_loop g r e s ([], False) = Inr st")
  case True
  then obtain s e st where *: "client_hello_extensions r = Inr (s, e)" "strip_hybrid_loop g r e s ([], False) = Inr st"
    by blast
  then obtain hs where "hello_exts r s e hs" by (rule strip_loop_hello)
  then show ?thesis by (simp add: strip_hybrid_hello)
next
  case False
  then show ?thesis
    using ve_only_client_hello_extensions [of r] ve_only_strip_hybrid_loop [of g r]
    unfolding strip_hybrid_def by (auto intro!: ve_only_rbind)
qed

lemma ve_only_find_key_share: "ve_only (find_key_share r)"
proof -
  have "ve_only (find_key_share_entries r e c acc)" for e c acc
    by (rule fks_entries.walk_ve_only) (simp add: entries_body_def)
  then have "ve_only (find_key_share_loop r e c acc)" for e c acc
    by (intro fks_exts.walk_ve_only) (auto simp: key_share_body_def intro!: ve_only_rbind)
  then show ?thesis
    using ve_only_client_hello_extensions [of r] unfolding find_key_share_def by (auto intro!: ve_only_rbind)
qed

text \<open>
  C2. For every byte string and every group, \<open>strip_hybrid\<close> either returns or raises \<open>ValueError\<close>,
  the one exception its callers catch: no index is out of range and no \<open>to_bytes\<close> overflows. The
  same holds for \<open>find_key_share\<close>.
\<close>

theorem strip_hybrid_raises_only_ValueError:
  "ve_only (strip_hybrid r g) \<and> ve_only (find_key_share r)"
  using strip_hybrid_ve_only ve_only_find_key_share by blast

lemma strip_ext_not_offered: "\<not> list_ex (ext_offers g) (map (strip_ext g) hs)"
proof -
  have "\<not> ext_offers g (strip_ext g h)" for h by (cases h) auto
  then show ?thesis by (simp add: list_ex_iff)
qed

lemma offered_shrinks:
  assumes "ext_offers g h"
  shows "length (snd (ext_tlv (strip_ext g h))) < length (snd (ext_tlv h))"
proof (cases h)
  case (Groups gs)
  with assms show ?thesis using length_filter_less [of g gs "\<lambda>x. x \<noteq> g"] by simp
next
  case (Shares ss)
  with assms obtain v where "(g, v) \<in> set ss" by auto
  then obtain a b where ab: "ss = a @ (g, v) # b" by (metis split_list)
  have "length (tlvs_bytes (filter (\<lambda>x. fst x \<noteq> g) ss)) < length (tlvs_bytes ss)"
    using length_tlvs_bytes_filter [of "\<lambda>x. fst x \<noteq> g" a] length_tlvs_bytes_filter [of "\<lambda>x. fst x \<noteq> g" b]
    by (simp add: ab)
  with Shares show ?thesis by simp
qed (use assms in simp)

text \<open>
  C1. If \<open>strip_hybrid\<close> returns, both the record and the result have well-formed key shares, and
  the shares of the result, group and value, are those of the record in the same order without the
  ones of the stripped group.
\<close>

theorem strip_hybrid_filters_key_shares:
  assumes "strip_hybrid r g = Inr r'"
  shows "\<exists>ss ss'. find_key_share r = Inr ss \<and> find_key_share r' = Inr ss' \<and>
    share_values r' ss' = filter (\<lambda>x. fst x \<noteq> g) (share_values r ss)"
proof -
  from assms obtain s e e' hs where "hello_exts r s e hs" "hello_exts r' s e' (map (strip_ext g) hs)"
    by (rule strip_hybrid_refines)
  note h = this
  show ?thesis
    using find_key_share_hello [OF h(1)] find_key_share_hello [OF h(2)]
    by (simp add: ext_tlvs_strip)
qed

theorem strip_hybrid_filters_key_shares_witness:
  "\<exists>r'. strip_hybrid demo_record 0x11EC = Inr r' \<and>
     (\<exists>ss ss'. find_key_share demo_record = Inr ss \<and> find_key_share r' = Inr ss' \<and>
       share_values r' ss' = filter (\<lambda>x. fst x \<noteq> 0x11EC) (share_values demo_record ss))"
  using demo_strip strip_hybrid_filters_key_shares [OF demo_strip] by blast

text \<open>
  Stripping is idempotent: a record that \<open>strip_hybrid\<close> returned is returned unchanged when the
  same group is stripped again. So the proxy, which offers every client payload to the mutator until
  one is changed, cannot mutate its own output.
\<close>

theorem strip_hybrid_idempotent:
  assumes "strip_hybrid r g = Inr r'"
  shows "strip_hybrid r' g = Inr r'"
proof -
  from assms obtain s e' hs where "hello_exts r' s e' (map (strip_ext g) hs)"
    by (rule strip_hybrid_refines)
  then show ?thesis using strip_hybrid_hello strip_ext_not_offered by metis
qed

theorem strip_hybrid_idempotent_witness:
  "\<exists>r'. strip_hybrid demo_record 0x11EC = Inr r' \<and> strip_hybrid r' 0x11EC = Inr r'"
  using demo_strip strip_hybrid_idempotent [OF demo_strip] by blast

lemma rebuilt_shape:
  assumes "client_hello_extensions r = Inr (s, e)" "length X \<le> e - s"
  shows "read_u16 (rebuilt r s X) 3 = Inr (s + length X - 5)"
    "from_bytes (pyslice (rebuilt r s X) 6 9) = s + length X - 9"
    "drop (s + length X) (rebuilt r s X) = drop (5 + from_bytes (pyslice r 3 5)) r"
    "s + length X \<le> length (rebuilt r s X)"
    "read_u16 (rebuilt r s X) (s - 2) = Inr (length X)"
    "take 3 (rebuilt r s X) = take 3 r" "rebuilt r s X ! 5 = r ! 5"
    "pyslice (rebuilt r s X) 9 (s - 2) = pyslice r 9 (s - 2)"
proof -
  from assms(1) obtain l where l: "read_u16 r 3 = Inr l" "5 + l \<le> length r" "e \<le> 5 + l" "49 \<le> s" "s \<le> e" "9 \<le> length r"
    "unat (r ! 5) = 1"
    by (rule client_hello_extensionsE) (rule that, assumption+, linarith+)
  have l16: "l < 65536" by (rule read_u16_less [OF l(1)])
  let ?ch = "pyslice r 9 (s - 2) @ be_bytes 2 (length X) @ X"
  have len: "length ?ch = s + length X - 9" using l by simp
  have R: "rebuilt r s X = take 3 r @ be_bytes 2 (4 + length ?ch) @ [1] @ be_bytes 3 (length ?ch) @ ?ch @
      drop (5 + from_bytes (pyslice r 3 5)) r"
    by (simp add: rebuilt_def Let_def)
  have t3: "length (take 3 r) = 3" using l(6) by simp
  have sl: "pyslice (rebuilt r s X) 3 5 = be_bytes 2 (4 + length ?ch)"
    "pyslice (rebuilt r s X) 6 9 = be_bytes 3 (length ?ch)"
    unfolding R using t3 by (simp_all add: pyslice_append)
  show lenR: "s + length X \<le> length (rebuilt r s X)"
    unfolding R using len t3 l(4) by simp
  show "read_u16 (rebuilt r s X) 3 = Inr (s + length X - 5)"
    using sl(1) len l assms(2) l16 lenR by (intro read_u16_of_slice) auto
  show "from_bytes (pyslice (rebuilt r s X) 6 9) = s + length X - 9"
    using sl(2) len l assms(2) l16 by simp
  show "take 3 (rebuilt r s X) = take 3 r" unfolding R using t3 by simp
  have "r ! 5 = 1" using l(7) by (metis unat_1 word_unat_eq_iff)
  then show "rebuilt r s X ! 5 = r ! 5" unfolding R using t3 by (simp add: nth_append)
  have P: "length (pyslice r 9 (s - 2)) = s - 11" using l by simp
  have R9: "rebuilt r s X = (take 3 r @ be_bytes 2 (4 + length ?ch) @ [1] @ be_bytes 3 (length ?ch)) @ ?ch @
      drop (5 + from_bytes (pyslice r 3 5)) r"
    by (simp add: R)
  show "pyslice (rebuilt r s X) 9 (s - 2) = pyslice r 9 (s - 2)"
    unfolding R9 using l(4,6) P by (simp add: pyslice_append)
  have "pyslice (rebuilt r s X) (s - 2) s = be_bytes 2 (length X)"
    unfolding R9 using l(4,6) P by (simp add: pyslice_append)
  then show "read_u16 (rebuilt r s X) (s - 2) = Inr (length X)"
    using lenR l assms(2) l16 by (intro read_u16_of_slice) auto
  show "drop (s + length X) (rebuilt r s X) = drop (5 + from_bytes (pyslice r 3 5)) r"
  proof -
    let ?A = "take 3 r @ be_bytes 2 (4 + length ?ch) @ [1] @ be_bytes 3 (length ?ch) @ ?ch"
    have "length ?A = s + length X" using len t3 l(4) by simp
    moreover have "rebuilt r s X = ?A @ drop (5 + from_bytes (pyslice r 3 5)) r" by (simp add: R)
    ultimately show ?thesis by (metis append_eq_conv_conj)
  qed
qed

lemma stripped_shorter:
  "list_ex (ext_offers g) hs \<Longrightarrow>
   length (tlvs_bytes (map ext_tlv (map (strip_ext g) hs))) < length (tlvs_bytes (map ext_tlv hs))"
proof (induction hs)
  case (Cons h hs)
  have le: "length (snd (ext_tlv (strip_ext g h))) \<le> length (snd (ext_tlv h))"
    using length_tlvs_bytes_filter by (cases h) simp_all
  show ?case
  proof (cases "list_ex (ext_offers g) hs")
    case True
    with Cons.IH le show ?thesis by simp
  next
    case False
    with Cons.prems have "length (snd (ext_tlv (strip_ext g h))) < length (snd (ext_tlv h))"
      using offered_shrinks by simp
    with length_strip_exts [of g hs] show ?thesis by (simp add: comp_def)
  qed
qed simp

lemma stripped_region_shorter:
  assumes "hello_exts r s e hs" "list_ex (ext_offers g) hs"
  shows "length (tlvs_bytes (map ext_tlv (map (strip_ext g) hs))) < e - s"
proof -
  have "pyslice r s e = tlvs_bytes (map ext_tlv hs)" "e \<le> length r" "s \<le> e"
    using assms(1) by (auto simp: hello_exts_def tlv_region_def)
  with stripped_shorter [OF assms(2)] show ?thesis
    by (metis diff_le_mono length_pyslice min_absorb1)
qed

lemma rebuilt_neq:
  assumes "hello_exts r s e hs" "list_ex (ext_offers g) hs"
  shows "rebuilt r s (tlvs_bytes (map ext_tlv (map (strip_ext g) hs))) \<noteq> r"
proof
  define X where "X = tlvs_bytes (map ext_tlv (map (strip_ext g) hs))"
  assume "rebuilt r s (tlvs_bytes (map ext_tlv (map (strip_ext g) hs))) = r"
  then have eq: "rebuilt r s X = r" by (simp add: X_def)
  have che: "client_hello_extensions r = Inr (s, e)" using assms(1) by (simp add: hello_exts_def)
  then obtain l where l: "read_u16 r 3 = Inr l" "e \<le> 5 + l" "49 \<le> s"
    by (rule client_hello_extensionsE) (rule that, assumption+, linarith+)
  have X: "length X < e - s" using stripped_region_shorter [OF assms] by (simp add: X_def)
  then have "read_u16 (rebuilt r s X) 3 = Inr (s + length X - 5)" using rebuilt_shape(1) [OF che, of X] by simp
  with eq l X show False by simp
qed

text \<open>
  C3. When \<open>strip_hybrid\<close> changes the record, the result is again a complete ClientHello, strictly
  shorter: its extensions begin where they began, and the record length, the handshake length and the
  extensions length all agree with their new end. The bytes in front of the extensions apart from these
  length fields (content type and version of the record, handshake type, and everything from the hello
  version over the random, the session id and the cipher suites to the compression methods) are those
  of the input; the extensions are those of the input, in order, with the group filtered out of the groups and the
  key shares; and what followed the record follows the new one. (Bytes between the last extension and
  the end of the record, if the record has any, are not copied.)
\<close>

theorem strip_hybrid_length_fields:
  assumes "strip_hybrid r g = Inr r'" "r' \<noteq> r"
  shows "\<exists>l s e e' hs. read_u16 r 3 = Inr l \<and> client_hello_extensions r = Inr (s, e) \<and>
    client_hello_extensions r' = Inr (s, e') \<and> e' < e \<and> e' \<le> length r' \<and> e' - 5 < l \<and>
    read_u16 r' 3 = Inr (e' - 5) \<and> from_bytes (pyslice r' 6 9) = e' - 9 \<and> read_u16 r' (s - 2) = Inr (e' - s) \<and>
    take 3 r' = take 3 r \<and> r' ! 5 = r ! 5 \<and> pyslice r' 9 (s - 2) = pyslice r 9 (s - 2) \<and>
    hello_exts r s e hs \<and> hello_exts r' s e' (map (strip_ext g) hs) \<and> drop e' r' = drop (5 + l) r"
proof -
  from assms(1) obtain s e hs where h: "hello_exts r s e hs"
    "r' = (if list_ex (ext_offers g) hs then rebuilt r s (tlvs_bytes (map ext_tlv (map (strip_ext g) hs))) else r)"
    by (rule strip_hybrid_refines)
  define X where "X = tlvs_bytes (map ext_tlv (map (strip_ext g) hs))"
  have off: "list_ex (ext_offers g) hs" and r': "r' = rebuilt r s X"
    using h(2) assms(2) by (auto simp: X_def split: if_splits)
  have che: "client_hello_extensions r = Inr (s, e)" and ok: "list_all ext_ok (map (strip_ext g) hs)"
    using h(1) by (auto simp: hello_exts_def list_all_iff strip_ext_ok)
  from che obtain l where l: "read_u16 r 3 = Inr l" "5 + l \<le> length r" "e \<le> 5 + l" "49 \<le> s" "s \<le> e"
    by (rule client_hello_extensionsE) (rule that, assumption+, linarith+)
  have X: "length X < e - s" using stripped_region_shorter [OF h(1) off] by (simp add: X_def)
  have l3: "l = from_bytes (pyslice r 3 5)" using l(1) by (simp add: read_u16_Inr_iff)
  have h': "hello_exts r' s (s + length X) (map (strip_ext g) hs)"
    using rebuilt_hello [OF h(1) ok] X unfolding r' X_def by simp
  then have "client_hello_extensions r' = Inr (s, s + length X)" by (simp add: hello_exts_def)
  then show ?thesis
    using rebuilt_shape [OF che, of X] X l h(1) h' che
    by (intro exI [of _ l] exI [of _ s] exI [of _ e] exI [of _ "s + length X"] exI [of _ hs]) (auto simp: r' l3)
qed

theorem strip_hybrid_length_fields_witness:
  "\<exists>r' s e e'. strip_hybrid demo_record 0x11EC = Inr r' \<and> r' \<noteq> demo_record \<and>
     client_hello_extensions demo_record = Inr (s, e) \<and> client_hello_extensions r' = Inr (s, e') \<and> e' < e \<and>
     read_u16 r' 3 = Inr (e' - 5) \<and> read_u16 r' (s - 2) = Inr (e' - s) \<and>
     pyslice r' 9 (s - 2) = pyslice demo_record 9 (s - 2)"
proof -
  have "rebuilt demo_record 52 (tlvs_bytes (map ext_tlv [Groups [0x1D], Other 0x2B [2, 3, 4], Shares [(0x1D, [9, 8])]]))
      \<noteq> demo_record"
    using rebuilt_neq [OF demo_hello, of "0x11EC"] by (simp add: demo_exts_def)
  from strip_hybrid_length_fields [OF demo_strip this] this show ?thesis
    using demo_strip by blast
qed

end
