(* ===== verification/TLS_Forge.thy ===== *)
theory TLS_Forge
  imports TLS_Strip
begin

text \<open>
  Correctness of \<open>forge_pq_component\<close>: \<open>find_key_share\<close> never looks into the values of the shares
  it returns, so the forged record parses like the original one; the forged bytes are exactly the
  post-quantum half of the first share of the group; forging twice gives the record back.
\<close>

section \<open>Parsing does not look into share values\<close>

definition covered :: "share list \<Rightarrow> nat \<Rightarrow> bool" where
  "covered shares i \<longleftrightarrow> (\<exists>(g, off, n) \<in> set shares. off \<le> i \<and> i < off + n)"

text \<open>
  \<open>r'\<close> may differ from \<open>r\<close> inside the values of \<open>shares\<close>, nowhere else between \<open>c\<close> and \<open>e\<close>.
\<close>

definition agree :: "bytes \<Rightarrow> bytes \<Rightarrow> nat \<Rightarrow> nat \<Rightarrow> share list \<Rightarrow> bool" where
  "agree r r' c e shares \<longleftrightarrow>
     length r' = length r \<and> (\<forall>i. c \<le> i \<longrightarrow> i < e \<longrightarrow> \<not> covered shares i \<longrightarrow> r' ! i = r ! i)"

definition within :: "nat \<Rightarrow> nat \<Rightarrow> share \<Rightarrow> bool" where
  "within c e x \<longleftrightarrow> c + 4 \<le> fst (snd x) \<and> fst (snd x) + snd (snd x) \<le> e"

lemma not_covered_before: "list_all (within c e) shares \<Longrightarrow> i < c + 4 \<Longrightarrow> \<not> covered shares i"
  by (auto simp: covered_def within_def list_all_iff)

lemma not_covered_after: "list_all (within c e) shares \<Longrightarrow> e \<le> i \<Longrightarrow> \<not> covered shares i"
  by (auto simp: covered_def within_def list_all_iff)

lemma covered_append [simp]: "covered (xs @ ys) i \<longleftrightarrow> covered xs i \<or> covered ys i"
  by (auto simp: covered_def)

lemma within_mono: "within c e x \<Longrightarrow> c' \<le> c \<Longrightarrow> e \<le> e' \<Longrightarrow> within c' e' x"
  by (auto simp: within_def)

lemma agree_read_u16:
  assumes "agree r r' c e shares" "list_all (within c0 e0) shares" "c \<le> i" "i + 2 \<le> c0 + 4" "i + 2 \<le> e"
  shows "read_u16 r' i = read_u16 r i"
  using assms not_covered_before [OF assms(2)] by (intro read_u16_cong) (auto simp: agree_def)

lemma find_key_share_entries_agree:
  "find_key_share_entries r e c acc = Inr res \<Longrightarrow>
   \<exists>shs. res = acc @ shs \<and> list_all (within c e) shs \<and>
     (\<forall>r'. agree r r' c e shs \<longrightarrow> find_key_share_entries r' e c acc = Inr res)"
proof (induction "e - c" arbitrary: c acc rule: less_induct)
  case less
  show ?case
  proof (cases "c < e")
    case True
    then obtain t n where *: "read_u16 r c = Inr t" "read_u16 r (c + 2) = Inr n" "c + 4 + n \<le> e"
      "find_key_share_entries r e (c + 4 + n) (acc @ [(t, c + 4, n)]) = Inr res"
      using less.prems by (subst (asm) fks_entries.walk_unfold) (auto simp: res_simps entries_body_def split: if_splits)
    have "e - (c + 4 + n) < e - c" using True by linarith
    from less.hyps [OF this *(4)] obtain shs where
      shs: "res = (acc @ [(t, c + 4, n)]) @ shs" "list_all (within (c + 4 + n) e) shs"
      "\<forall>r'. agree r r' (c + 4 + n) e shs \<longrightarrow> find_key_share_entries r' e (c + 4 + n) (acc @ [(t, c + 4, n)]) = Inr res"
      by blast
    let ?shs = "[(t, c + 4, n)] @ shs"
    have w: "list_all (within c e) ?shs"
      using shs(2) *(3) by (auto simp: list_all_iff within_def)
    have "find_key_share_entries r' e c acc = Inr res" if a: "agree r r' c e ?shs" for r'
    proof -
      have "agree r r' (c + 4 + n) e shs"
        using a by (auto simp: agree_def covered_def)
      moreover have "read_u16 r' c = Inr t" "read_u16 r' (c + 2) = Inr n"
        using agree_read_u16 [OF a w] * by simp_all
      ultimately show ?thesis
        using shs(3) *(3) True by (subst fks_entries.walk_unfold) (simp add: entries_body_def)
    qed
    with w shs(1) show ?thesis by (intro exI [of _ ?shs]) simp
  next
    case False
    then show ?thesis using less.prems
      by (intro exI [of _ "[]"]) (simp add: fks_entries.walk_unfold [of _ e c])
  qed
qed

lemma key_share_body_agree:
  assumes "key_share_body r t off n acc = Inr res" "4 \<le> off"
  shows "\<exists>shs. res = acc @ shs \<and> list_all (within (off - 4) (off + n)) shs \<and>
     (\<forall>r'. agree r r' off (off + n) shs \<longrightarrow> key_share_body r' t off n acc = Inr res)"
proof (cases "t = TLS_KEY_SHARE")
  case True
  with assms(1) obtain l where l: "read_u16 r off = Inr l" "2 + l = n"
    "find_key_share_entries r (off + n) (off + 2) acc = Inr res"
    by (auto simp: key_share_body_def res_simps add.assoc split: if_splits)
  from find_key_share_entries_agree [OF l(3)] obtain shs where
    shs: "res = acc @ shs" "list_all (within (off + 2) (off + n)) shs"
    "\<forall>r'. agree r r' (off + 2) (off + n) shs \<longrightarrow> find_key_share_entries r' (off + n) (off + 2) acc = Inr res"
    by blast
  have "key_share_body r' t off n acc = Inr res" if a: "agree r r' off (off + n) shs" for r'
  proof -
    have "agree r r' (off + 2) (off + n) shs" using a by (auto simp: agree_def)
    moreover have "read_u16 r' off = Inr l"
      using agree_read_u16 [OF a shs(2)] l(1,2) by simp
    ultimately show ?thesis using shs(3) True l(2) by (simp add: key_share_body_def add.assoc)
  qed
  moreover have "list_all (within (off - 4) (off + n)) shs"
    using shs(2) by (auto simp: list_all_iff within_def)
  ultimately show ?thesis using shs(1) by blast
next
  case False
  then show ?thesis using assms by (intro exI [of _ "[]"]) (simp add: key_share_body_def)
qed

lemma find_key_share_loop_agree:
  "find_key_share_loop r e c acc = Inr res \<Longrightarrow>
   \<exists>shs. res = acc @ shs \<and> list_all (within c e) shs \<and>
     (\<forall>r'. agree r r' c e shs \<longrightarrow> find_key_share_loop r' e c acc = Inr res)"
proof (induction "e - c" arbitrary: c acc rule: less_induct)
  case less
  show ?case
  proof (cases "c < e")
    case True
    then obtain t n acc1 where *: "read_u16 r c = Inr t" "read_u16 r (c + 2) = Inr n" "c + 4 + n \<le> e"
      "key_share_body r t (c + 4) n acc = Inr acc1" "find_key_share_loop r e (c + 4 + n) acc1 = Inr res"
      using less.prems by (subst (asm) fks_exts.walk_unfold) (auto simp: res_simps split: if_splits)
    from key_share_body_agree [OF *(4)] obtain sh1 where
      sh1: "acc1 = acc @ sh1" "list_all (within c (c + 4 + n)) sh1"
      "\<forall>r'. agree r r' (c + 4) (c + 4 + n) sh1 \<longrightarrow> key_share_body r' t (c + 4) n acc = Inr acc1"
      by auto
    have "e - (c + 4 + n) < e - c" using True by linarith
    from less.hyps [OF this *(5)] obtain sh2 where
      sh2: "res = acc1 @ sh2" "list_all (within (c + 4 + n) e) sh2"
      "\<forall>r'. agree r r' (c + 4 + n) e sh2 \<longrightarrow> find_key_share_loop r' e (c + 4 + n) acc1 = Inr res"
      by blast
    have w: "list_all (within c e) (sh1 @ sh2)"
      using sh1(2) sh2(2) *(3) by (auto simp: list_all_iff elim!: within_mono)
    have "find_key_share_loop r' e c acc = Inr res" if a: "agree r r' c e (sh1 @ sh2)" for r'
    proof -
      have "agree r r' (c + 4 + n) e sh2"
        using a not_covered_after [OF sh1(2)] by (auto simp: agree_def)
      moreover have "agree r r' (c + 4) (c + 4 + n) sh1"
        using a not_covered_before [OF sh2(2)] *(3) by (auto simp: agree_def)
      moreover have "read_u16 r' c = Inr t" "read_u16 r' (c + 2) = Inr n"
        using agree_read_u16 [OF a w] * by simp_all
      ultimately show ?thesis
        using sh1(3) sh2(3) *(3) True by (subst fks_exts.walk_unfold) simp
    qed
    with w sh1(1) sh2(1) show ?thesis by (intro exI [of _ "sh1 @ sh2"]) simp
  next
    case False
    then show ?thesis using less.prems
      by (intro exI [of _ "[]"]) (simp add: fks_exts.walk_unfold [of _ e c])
  qed
qed

section \<open>Forging\<close>

lemma forge_pq_componentE:
  assumes "forge_pq_component r g = Inr r'"
  obtains pq_offset pq_length shares off n where "PQ_COMPONENTS g = Some (pq_offset, pq_length)"
    "find_key_share r = Inr shares" "find (\<lambda>share. fst share = g) shares = Some (g, off, n)"
    "(g, off, n) \<in> set shares" "pq_offset + pq_length \<le> n"
    "xor_loop [off + pq_offset..<off + pq_offset + pq_length] r = Inr r'"
proof -
  from assms obtain po pl shares x where *: "PQ_COMPONENTS g = Some (po, pl)" "find_key_share r = Inr shares"
    "find (\<lambda>share. fst share = g) shares = Some x" "po + pl \<le> snd (snd x)"
    "xor_loop [fst (snd x) + po..<fst (snd x) + po + pl] r = Inr r'"
  proof (cases "PQ_COMPONENTS g")
    case (Some pp)
    obtain po pl where pp: "pp = (po, pl)" by force
    obtain shares where sh: "find_key_share r = Inr shares"
      using assms Some by (auto simp: forge_pq_component_def pp res_simps)
    obtain x where "find (\<lambda>share. fst share = g) shares = Some x"
      using assms Some by (cases "find (\<lambda>share. fst share = g) shares") (auto simp: forge_pq_component_def pp sh)
    with assms Some sh show ?thesis
      by (intro that [of po pl shares x]) (auto simp: forge_pq_component_def pp split_def Let_def split: if_splits)
  qed (simp add: forge_pq_component_def)
  then have "x \<in> set shares" "fst x = g" by (auto simp: find_Some_iff)
  then have "x = (g, fst (snd x), snd (snd x))" by (cases x) auto
  with * \<open>x \<in> set shares\<close> that show ?thesis by metis
qed

lemma find_key_share_agree:
  assumes "find_key_share r = Inr shares"
  obtains s e where "client_hello_extensions r = Inr (s, e)" "list_all (within s e) shares"
    "\<And>r'. agree r r' 0 (length r) shares \<Longrightarrow> find_key_share r' = Inr shares"
proof -
  from assms obtain s e where che: "client_hello_extensions r = Inr (s, e)"
    and lp: "find_key_share_loop r e s [] = Inr shares"
    by (auto simp: find_key_share_def res_simps)
  from find_key_share_loop_agree [OF lp] have w: "list_all (within s e) shares"
    and ag: "\<And>r'. agree r r' s e shares \<Longrightarrow> find_key_share_loop r' e s [] = Inr shares"
    by auto
  from che obtain l where l: "9 \<le> length r" "unat (r ! 0) = 0x16" "read_u16 r 3 = Inr l" "5 + l \<le> length r"
    "unat (r ! 5) = 1" "e \<le> 9 + from_bytes (pyslice r 6 9)" "9 + from_bytes (pyslice r 6 9) \<le> 5 + l"
    "49 \<le> s" "s \<le> e" "read_u16 r (s - 2) = Inr (e - s)"
    by (rule client_hello_extensionsE)
  have "find_key_share r' = Inr shares" if a: "agree r r' 0 (length r) shares" for r'
  proof -
    have len: "length r' = length r" using a by (simp add: agree_def)
    have nth: "r' ! i = r ! i" if "i < s" for i
      using a that l not_covered_before [OF w, of i] by (auto simp: agree_def)
    have sl: "pyslice r' i j = pyslice r i j" if "j \<le> s" for i j
      using that len nth by (intro pyslice_eqI) auto
    have rd: "read_u16 r' i = read_u16 r i" if "i + 2 \<le> s" for i
      using sl [OF that, of i] len by (simp add: read_u16_def)
    have "client_hello_extensions r' = Inr (s, s + (e - s))"
    proof (rule client_hello_extensions_transfer [OF che])
      show "read_u16 r' 3 = Inr l" "read_u16 r' (s - 2) = Inr (e - s)"
        using rd [of 3] rd [of "s - 2"] l by simp_all
    qed (use l len nth sl in auto)
    moreover have "agree r r' s e shares" using a l by (auto simp: agree_def)
    ultimately show ?thesis using ag l(9) by (simp add: find_key_share_def)
  qed
  with che w show ?thesis using that by blast
qed

lemma forge_agree:
  assumes "xor_loop [off + po..<off + po + pl] r = Inr r'" "(g, off, n) \<in> set shares" "po + pl \<le> n"
  shows "agree r r' 0 (length r) shares"
proof -
  have "r' ! i = r ! i" if "i < length r" "\<not> covered shares i" for i
    using that assms(2,3) xor_loop_nth [OF _ assms(1), of i] by (auto simp: covered_def)
  then show ?thesis using xor_loop_length [OF assms(1)] by (simp add: agree_def)
qed

lemma ve_only_forge:
  assumes "PQ_COMPONENTS g = Some (po, pl)"
  shows "ve_only (forge_pq_component r g)"
proof (cases "find_key_share r")
  case (Inl err)
  then show ?thesis using ve_only_find_key_share [of r] assms by (simp add: forge_pq_component_def)
next
  case (Inr shares)
  obtain s e where w: "client_hello_extensions r = Inr (s, e)" "list_all (within s e) shares"
    by (rule find_key_share_agree [OF Inr])
  from w(1) obtain l where "e \<le> 9 + from_bytes (pyslice r 6 9)" "9 + from_bytes (pyslice r 6 9) \<le> 5 + l" "5 + l \<le> length r"
    by (rule client_hello_extensionsE)
  then have e: "e \<le> length r" by linarith
  show ?thesis
  proof (cases "find (\<lambda>share. fst share = g) shares")
    case None
    then show ?thesis using assms Inr by (simp add: forge_pq_component_def)
  next
    case (Some x)
    then have "x \<in> set shares" by (auto simp: find_Some_iff)
    then have x: "fst (snd x) + snd (snd x) \<le> length r" using w(2) e by (auto simp: list_all_iff within_def)
    show ?thesis
    proof (cases "po + pl > snd (snd x)")
      case False
      then have "\<forall>i \<in> set [fst (snd x) + po..<fst (snd x) + po + pl]. i < length r" using x by auto
      then obtain r' where "xor_loop [fst (snd x) + po..<fst (snd x) + po + pl] r = Inr r'" using xor_loop_Inr by blast
      then show ?thesis using assms Inr Some False by (cases x) (simp add: forge_pq_component_def)
    qed (use assms Inr Some in \<open>cases x; simp add: forge_pq_component_def\<close>)
  qed
qed

section \<open>Theorems\<close>

definition demo_hybrid_exts :: "hello_ext list" where
  "demo_hybrid_exts = [Groups [0x11EC, 0x1D],
     Shares [(0x1D, replicate 32 0x11), (0x11EC, replicate 1184 0x22 @ replicate 32 0x33)]]"

lemma demo_hybrid_hello: "hello_exts (sample_hello demo_hybrid_exts) 52 (52 + 1272) demo_hybrid_exts"
  using sample_hello_exts [of demo_hybrid_exts] by (simp add: demo_hybrid_exts_def tlv_ok_def)

lemma demo_hybrid_shares:
  "find_key_share (sample_hello demo_hybrid_exts) = Inr [(0x1D, 72, 32), (0x11EC, 108, 1216)]"
  using find_key_share_hello(1) [OF demo_hybrid_hello] by (simp add: demo_hybrid_exts_def)

lemma demo_forge: "\<exists>r'. forge_pq_component (sample_hello demo_hybrid_exts) 0x11EC = Inr r'"
proof -
  have "length (sample_hello demo_hybrid_exts) = 1324"
    by (simp add: sample_hello_def sample_body_def demo_hybrid_exts_def)
  then have "\<exists>r'. xor_loop [108..<1292] (sample_hello demo_hybrid_exts) = Inr r'"
    by (intro xor_loop_Inr) (simp del: upt_rec_numeral)
  then show ?thesis
    by (simp add: forge_pq_component_def PQ_COMPONENTS_def demo_hybrid_shares del: upt_rec_numeral)
qed

text \<open>
  C4. A successful \<open>forge_pq_component\<close> keeps the length of the record, inverts every bit of the
  post-quantum component of the group's first key share, leaves every other byte as it was (the
  classical half included), and the forged record lists the same key shares at the same places.
\<close>

theorem forge_pq_component_exact:
  assumes "forge_pq_component r g = Inr r'"
  shows "\<exists>shares off n pq_offset pq_length.
    find_key_share r = Inr shares \<and> find (\<lambda>share. fst share = g) shares = Some (g, off, n) \<and>
    PQ_COMPONENTS g = Some (pq_offset, pq_length) \<and> pq_offset + pq_length \<le> n \<and> off + n \<le> length r \<and>
    length r' = length r \<and> find_key_share r' = Inr shares \<and>
    (\<forall>i. i < length r \<longrightarrow>
      r' ! i = (if off + pq_offset \<le> i \<and> i < off + pq_offset + pq_length then r ! i XOR 0xFF else r ! i))"
proof -
  from assms obtain po pl shares off n where *: "PQ_COMPONENTS g = Some (po, pl)" "find_key_share r = Inr shares"
    "find (\<lambda>share. fst share = g) shares = Some (g, off, n)" "(g, off, n) \<in> set shares" "po + pl \<le> n"
    "xor_loop [off + po..<off + po + pl] r = Inr r'"
    by (rule forge_pq_componentE)
  from *(2) obtain s e where fk: "client_hello_extensions r = Inr (s, e)" "list_all (within s e) shares"
    "\<And>r'. agree r r' 0 (length r) shares \<Longrightarrow> find_key_share r' = Inr shares"
    by (rule find_key_share_agree) blast
  have "e \<le> length r" using fk(1) by (rule client_hello_extensionsE) linarith
  moreover have "within s e (g, off, n)" using fk(2) *(4) by (auto simp: list_all_iff)
  ultimately have "off + n \<le> length r" by (simp add: within_def)
  moreover have "find_key_share r' = Inr shares" by (rule fk(3) [OF forge_agree [OF *(6,4,5)]])
  moreover have "r' ! i = (if off + po \<le> i \<and> i < off + po + pl then r ! i XOR 0xFF else r ! i)" if "i < length r" for i
    using xor_loop_nth [OF _ *(6) that] by simp
  ultimately show ?thesis using * xor_loop_length [OF *(6)] by blast
qed

theorem forge_pq_component_exact_witness:
  "\<exists>r' shares off n pq_offset pq_length.
    forge_pq_component (sample_hello demo_hybrid_exts) 0x11EC = Inr r' \<and>
    find_key_share (sample_hello demo_hybrid_exts) = Inr shares \<and>
    find (\<lambda>share. fst share = 0x11EC) shares = Some (0x11EC, off, n) \<and>
    PQ_COMPONENTS 0x11EC = Some (pq_offset, pq_length) \<and> find_key_share r' = Inr shares"
  using demo_forge forge_pq_component_exact [of "sample_hello demo_hybrid_exts" "0x11EC"] by blast

text \<open>
  Forging is an involution: applied to its own result it restores the original record.
\<close>

theorem forge_pq_component_involutive:
  assumes "forge_pq_component r g = Inr r'"
  shows "forge_pq_component r' g = Inr r"
proof -
  from assms obtain po pl shares off n where *: "PQ_COMPONENTS g = Some (po, pl)" "find_key_share r = Inr shares"
    "find (\<lambda>share. fst share = g) shares = Some (g, off, n)" "(g, off, n) \<in> set shares" "po + pl \<le> n"
    "xor_loop [off + po..<off + po + pl] r = Inr r'"
    by (rule forge_pq_componentE)
  have "find_key_share r' = Inr shares"
    using find_key_share_agree [OF *(2)] forge_agree [OF *(6,4,5)] by metis
  moreover have "xor_loop [off + po..<off + po + pl] r' = Inr r"
    by (rule xor_loop_involutive [OF _ *(6)]) simp
  ultimately show ?thesis using * by (simp add: forge_pq_component_def)
qed

theorem forge_pq_component_involutive_witness:
  "\<exists>r'. forge_pq_component (sample_hello demo_hybrid_exts) 0x11EC = Inr r' \<and>
     forge_pq_component r' 0x11EC = Inr (sample_hello demo_hybrid_exts)"
  using demo_forge forge_pq_component_involutive by blast

end
