(* ===== verification/SSH_KexInit.thy ===== *)
theory SSH_KexInit
  imports Py_Str
begin

text \<open>
  Model of \<open>tools/faultinject/ssh_kexinit.py\<close>: finding the client's public value in a
  KEX_ECDH_INIT packet (\<open>find_kex_ecdh_init\<close>) and inverting its sntrup761 part
  (\<open>forge_ssh_pq_component\<close>); finding the key-exchange name list of a KEXINIT packet
  (\<open>_kexinit_algorithm_bounds\<close>), reading it (\<open>kexinit_algorithms\<close>) and removing a name from it
  (\<open>strip_kexinit_algorithm\<close>). \<open>payload_end\<close> is an integer because the code subtracts the padding
  length before it checks the packet.
\<close>

abbreviation SSH_MSG_KEX_ECDH_INIT :: nat where "SSH_MSG_KEX_ECDH_INIT \<equiv> 30"
abbreviation SSH_MSG_KEXINIT :: nat where "SSH_MSG_KEXINIT \<equiv> 20"
abbreviation SNTRUP761_PUBLICKEY_BYTES :: nat where "SNTRUP761_PUBLICKEY_BYTES \<equiv> 1158"
abbreviation SSH_X25519_BYTES :: nat where "SSH_X25519_BYTES \<equiv> 32"

definition find_kex_ecdh_init :: "bytes \<Rightarrow> (nat \<times> nat) option result" where
  "find_kex_ecdh_init packet =
     (if length packet < 10 then Inr None else
      let packet_length = from_bytes (pyslice packet 0 4) in
      rbind (byte_at packet 4) (\<lambda>padding_length.
      let packet_end = 4 + packet_length; payload_end = int packet_end - int padding_length in
      if packet_end > length packet \<or> payload_end < 10 then Inr None else
      rbind (byte_at packet 5) (\<lambda>msg.
      if msg \<noteq> SSH_MSG_KEX_ECDH_INIT then Inr None else
      let blob_length = from_bytes (pyslice packet 6 10); blob_offset = 10 in
      if int (blob_offset + blob_length) > payload_end then Inr None
      else Inr (Some (blob_offset, blob_length)))))"

definition forge_ssh_pq_component :: "bytes \<Rightarrow> bytes result" where
  "forge_ssh_pq_component packet =
     rbind (find_kex_ecdh_init packet) (\<lambda>located.
     case located of None \<Rightarrow> Inl (ValueError ''SSH KEX_ECDH_INIT packet not found'')
     | Some (blob_offset, blob_length) \<Rightarrow>
       if blob_length < SNTRUP761_PUBLICKEY_BYTES + SSH_X25519_BYTES
       then Inl (ValueError ''SSH public-value blob is shorter than sntrup761x25519'')
       else xor_loop [blob_offset..<blob_offset + SNTRUP761_PUBLICKEY_BYTES] packet)"

definition kexinit_algorithm_bounds :: "bytes \<Rightarrow> (nat \<times> nat \<times> nat \<times> nat) option result" where
  "kexinit_algorithm_bounds packet =
     (if length packet < 26 then Inr None else
      let packet_length = from_bytes (pyslice packet 0 4) in
      rbind (byte_at packet 4) (\<lambda>padding_length.
      let packet_end = 4 + packet_length; payload_end = int packet_end - int padding_length in
      if packet_end > length packet \<or> payload_end < 26 then Inr None else
      rbind (byte_at packet 5) (\<lambda>msg.
      if msg \<noteq> SSH_MSG_KEXINIT then Inr None else
      let algorithms_length = from_bytes (pyslice packet 22 26); algorithms_start = 26;
          algorithms_end = algorithms_start + algorithms_length in
      if int algorithms_end > payload_end then Inr None
      else Inr (Some (algorithms_start, algorithms_end, nat payload_end, packet_end)))))"

definition ascii_decode :: "bytes \<Rightarrow> string result" where
  "ascii_decode bs = (if list_all (\<lambda>b. unat b < 128) bs then Inr (map (\<lambda>b. char_of (unat b)) bs)
     else Inl UnicodeDecodeError)"

definition ascii_encode :: "string \<Rightarrow> bytes result" where
  "ascii_encode s = (if list_all (\<lambda>c. of_char c < (128 :: nat)) s then Inr (map (\<lambda>c. word_of_nat (of_char c)) s)
     else Inl UnicodeEncodeError)"

definition kexinit_algorithms :: "bytes \<Rightarrow> string list result" where
  "kexinit_algorithms packet =
     rbind (kexinit_algorithm_bounds packet) (\<lambda>bounds.
     case bounds of None \<Rightarrow> Inl (ValueError ''SSH KEXINIT packet not found'')
     | Some (algorithms_start, algorithms_end, _, _) \<Rightarrow>
       let encoded = pyslice packet algorithms_start algorithms_end in
       if encoded \<noteq> [] then rbind (ascii_decode encoded) (\<lambda>s. Inr (split_char CHR '','' s)) else Inr [])"

definition strip_kexinit_algorithm :: "bytes \<Rightarrow> string \<Rightarrow> bytes result" where
  "strip_kexinit_algorithm packet algorithm =
     rbind (kexinit_algorithm_bounds packet) (\<lambda>bounds.
     case bounds of None \<Rightarrow> Inl (ValueError ''SSH KEXINIT packet not found'')
     | Some (algorithms_start, algorithms_end, payload_end, packet_end) \<Rightarrow>
       rbind (kexinit_algorithms packet) (\<lambda>names.
       let retained = filter (\<lambda>name. name \<noteq> algorithm) names;
           original = pyslice packet algorithms_start algorithms_end in
       rbind (ascii_encode (join '','' retained)) (\<lambda>replacement.
       if replacement = original then Inr packet else
       rbind (to_bytes 4 (length replacement)) (\<lambda>len.
       let payload = (pyslice packet 5 22 @ len @ replacement) @ pyslice packet algorithms_end payload_end;
           padding = pyslice packet payload_end packet_end;
           packet_length = 1 + length payload + length padding in
       rbind (to_bytes 4 packet_length) (\<lambda>plen.
       if length padding > 255 then Inl (ValueError ''bytes must be in range(0, 256)'')
       else Inr (plen @ [word_of_nat (length padding)] @ payload @ padding))))))"

section \<open>ASCII\<close>

lemma ascii_roundtrip: "ascii_decode bs = Inr s \<Longrightarrow> ascii_encode s = Inr bs"
  by (auto simp: ascii_decode_def ascii_encode_def list_all_iff comp_def map_idI split: if_splits)

lemma ascii_encode_decode:
  assumes "ascii_encode s = Inr bs"
  shows "ascii_decode bs = Inr s"
proof -
  have l: "unat (word_of_nat (of_char c) :: byte) = of_char c" if "of_char c < (128 :: nat)" for c
    using that by (simp add: unat_of_nat)
  then show ?thesis
    using assms by (auto simp: ascii_decode_def ascii_encode_def list_all_iff l map_idI char_of_char split: if_splits)
qed

lemma ascii_encode_length: "ascii_encode s = Inr bs \<Longrightarrow> length bs = length s"
  by (auto simp: ascii_encode_def split: if_splits)

lemma ascii_decode_length: "ascii_decode bs = Inr s \<Longrightarrow> length s = length bs"
  by (auto simp: ascii_decode_def split: if_splits)

lemma ascii_decode_chars: "ascii_decode bs = Inr s \<Longrightarrow> list_all (\<lambda>c. of_char c < (128 :: nat)) s"
  by (auto simp: ascii_decode_def list_all_iff split: if_splits)

section \<open>Packet bounds\<close>

lemma kexinit_boundsE:
  assumes "kexinit_algorithm_bounds packet = Inr (Some (a, e, pe, pk))"
  obtains pad where "a = 26" "e = 26 + from_bytes (pyslice packet 22 26)" "pk = 4 + from_bytes (pyslice packet 0 4)"
    "pad = unat (packet ! 4)" "pad < 256" "pe + pad = pk" "26 \<le> e" "e \<le> pe" "pe \<le> pk" "pk \<le> length packet"
    "unat (packet ! 5) = SSH_MSG_KEXINIT" "26 \<le> length packet"
proof -
  obtain pad where pad: "byte_at packet 4 = Inr pad" "pad = unat (packet ! 4)" "26 \<le> length packet"
    using assms by (auto simp: kexinit_algorithm_bounds_def byte_at_def split: if_splits)
  have "pad < 256" using pad(2) unat_byte_less by simp
  moreover have "byte_at packet 5 = Inr (unat (packet ! 5))" using pad(3) by (simp add: byte_at_def)
  ultimately show ?thesis
    using assms pad(1,3) unfolding kexinit_algorithm_bounds_def Let_def
    by (intro that [OF _ _ _ pad(2)]) (auto split: if_splits)
qed

lemma kexinit_boundsI:
  assumes "26 \<le> length packet" "pk = 4 + from_bytes (pyslice packet 0 4)" "pk \<le> length packet"
    "pe + unat (packet ! 4) = pk" "unat (packet ! 5) = SSH_MSG_KEXINIT"
    "e = 26 + from_bytes (pyslice packet 22 26)" "e \<le> pe"
  shows "kexinit_algorithm_bounds packet = Inr (Some (26, e, pe, pk))"
proof -
  obtain pad where pad: "byte_at packet 4 = Inr pad" "pe + pad = pk"
    using assms by (auto simp: byte_at_def)
  have "byte_at packet 5 = Inr SSH_MSG_KEXINIT" using assms by (simp add: byte_at_def)
  with pad assms(1-3,6,7) show ?thesis
    unfolding kexinit_algorithm_bounds_def Let_def by auto
qed

lemma kexinit_algorithm_bounds_Inr: "\<exists>b. kexinit_algorithm_bounds packet = Inr b"
  unfolding kexinit_algorithm_bounds_def Let_def by (auto simp: byte_at_def)

section \<open>The name list\<close>

lemma kexinit_algorithms_bounds:
  assumes "kexinit_algorithm_bounds packet = Inr (Some (a, e, pe, pk))"
  shows "kexinit_algorithms packet =
    (if pyslice packet a e = [] then Inr []
     else rbind (ascii_decode (pyslice packet a e)) (\<lambda>s. Inr (split_char CHR '','' s)))"
  using assms by (simp add: kexinit_algorithms_def)

lemma kexinit_namesE:
  assumes "kexinit_algorithm_bounds packet = Inr (Some (a, e, pe, pk))" "kexinit_algorithms packet = Inr names"
  obtains s where "ascii_decode (pyslice packet a e) = Inr s" "join '','' names = s" "\<forall>n \<in> set names. CHR '','' \<notin> set n"
    "pyslice packet a e = [] \<longleftrightarrow> names = []"
proof (cases "pyslice packet a e = []")
  case True
  then show ?thesis using assms by (intro that [of "[]"]) (auto simp: kexinit_algorithms_bounds ascii_decode_def)
next
  case False
  then obtain s where "ascii_decode (pyslice packet a e) = Inr s" "names = split_char CHR '','' s"
    using assms by (auto simp: kexinit_algorithms_bounds res_simps)
  then show ?thesis using False by (intro that [of s]) (auto dest: split_char_pieces)
qed

lemma ascii_encode_retained:
  assumes "list_all (\<lambda>c. of_char c < (128 :: nat)) (join '','' names)"
  shows "\<exists>bs. ascii_encode (join '','' (filter P names)) = Inr bs"
proof -
  have "set x \<subseteq> set (join '','' names)" if "x \<in> set names" for x
    using that by (induction "'',''" names rule: join.induct) auto
  then have "set (join '','' (filter P names)) \<subseteq> insert CHR '','' (set (join '','' names))"
    using set_join [of "'',''" "filter P names"] by auto
  then show ?thesis using assms by (auto simp: ascii_encode_def list_all_iff)
qed

text \<open>The packet that \<open>strip_kexinit_algorithm\<close> writes.\<close>

definition rebuilt_packet :: "bytes \<Rightarrow> nat \<Rightarrow> nat \<Rightarrow> nat \<Rightarrow> bytes \<Rightarrow> bytes" where
  "rebuilt_packet packet e pe pk repl =
     be_bytes 4 (pk - 4 - (e - 26) + length repl) @ [word_of_nat (pk - pe)] @ pyslice packet 5 22 @
     be_bytes 4 (length repl) @ repl @ pyslice packet e pe @ pyslice packet pe pk"

lemma strip_kexinit_eq:
  assumes b: "kexinit_algorithm_bounds packet = Inr (Some (a, e, pe, pk))" and n: "kexinit_algorithms packet = Inr names"
  obtains repl where "ascii_encode (join '','' (filter (\<lambda>x. x \<noteq> alg) names)) = Inr repl"
    "length repl \<le> e - 26"
    "strip_kexinit_algorithm packet alg =
       Inr (if repl = pyslice packet 26 e then packet else rebuilt_packet packet e pe pk repl)"
proof -
  obtain pad where p: "a = 26" "e = 26 + from_bytes (pyslice packet 22 26)" "pk = 4 + from_bytes (pyslice packet 0 4)"
    "pad = unat (packet ! 4)" "pad < 256" "pe + pad = pk" "26 \<le> e" "e \<le> pe" "pe \<le> pk" "pk \<le> length packet"
    by (rule kexinit_boundsE [OF b])
  obtain s where s: "ascii_decode (pyslice packet a e) = Inr s" "join '','' names = s"
    by (rule kexinit_namesE [OF b n])
  obtain repl where r: "ascii_encode (join '','' (filter (\<lambda>x. x \<noteq> alg) names)) = Inr repl"
    using ascii_encode_retained ascii_decode_chars [OF s(1)] s(2) by blast
  have len: "length repl \<le> e - 26"
    using length_join_filter [of "CHR '',''" "\<lambda>x. x \<noteq> alg" names] ascii_encode_length [OF r]
      ascii_decode_length [OF s(1)] s(2) p by simp
  have lim: "from_bytes (pyslice packet 22 26) < 256 ^ 4" "from_bytes (pyslice packet 0 4) < 256 ^ 4"
    using from_bytes_less [of "pyslice packet 22 26"] from_bytes_less [of "pyslice packet 0 4"] p by auto
  have pl: "length (pyslice packet e pe) = pe - e" "length (pyslice packet pe pk) = pk - pe"
    "length (pyslice packet 5 22) = 17"
    using p by simp_all
  have ar: "1 + (17 + (4 + (length repl + (pe - e))) + (pk - pe)) = pk - 4 - (e - 26) + length repl"
    using p(6-9) by linarith
  have t1: "to_bytes 4 (length repl) = Inr (be_bytes 4 (length repl))"
    using len lim p(2) by (intro to_bytes_Inr) simp
  have t2: "to_bytes 4 (pk - 4 - (e - 26) + length repl) = Inr (be_bytes 4 (pk - 4 - (e - 26) + length repl))"
    using len lim p(2,3,6-9) by (intro to_bytes_Inr) linarith
  have pad: "\<not> 255 < pk - pe" using p(5,6) by linarith
  have tot: "1 + length ((pyslice packet 5 22 @ be_bytes 4 (length repl) @ repl) @ pyslice packet e pe) +
      length (pyslice packet pe pk) = pk - 4 - (e - 26) + length repl"
    unfolding length_append pl length_be_bytes using ar by linarith
  have "strip_kexinit_algorithm packet alg =
       Inr (if repl = pyslice packet 26 e then packet else rebuilt_packet packet e pe pk repl)"
    unfolding strip_kexinit_algorithm_def Let_def b n rbind_simps option.case prod.case r t1
    unfolding tot rbind_simps t2 unfolding pl
    using pad p(1) by (simp add: rebuilt_packet_def)
  with r len show ?thesis using that by blast
qed

lemma strip_kexinit_returns:
  assumes "strip_kexinit_algorithm packet alg = Inr p'"
  obtains e pe pk names where "kexinit_algorithm_bounds packet = Inr (Some (26, e, pe, pk))"
    "kexinit_algorithms packet = Inr names"
proof -
  obtain b where b: "kexinit_algorithm_bounds packet = Inr b" using kexinit_algorithm_bounds_Inr by blast
  with assms obtain a e pe pk where bb: "b = Some (a, e, pe, pk)"
    by (cases b) (auto simp: strip_kexinit_algorithm_def)
  moreover have "a = 26" using b bb by (auto elim: kexinit_boundsE)
  moreover obtain names where "kexinit_algorithms packet = Inr names"
    using assms b bb by (auto simp: strip_kexinit_algorithm_def res_simps)
  ultimately show ?thesis using b that by blast
qed

lemma rebuilt_packet_bounds:
  assumes b: "kexinit_algorithm_bounds packet = Inr (Some (26, e, pe, pk))" and len: "length repl \<le> e - 26"
  shows "kexinit_algorithm_bounds (rebuilt_packet packet e pe pk repl) =
      Inr (Some (26, 26 + length repl, pe - (e - 26) + length repl, pk - (e - 26) + length repl))"
    "pyslice (rebuilt_packet packet e pe pk repl) 26 (26 + length repl) = repl"
    "length (rebuilt_packet packet e pe pk repl) = pk - (e - 26) + length repl"
proof -
  obtain pad where p: "e = 26 + from_bytes (pyslice packet 22 26)" "pk = 4 + from_bytes (pyslice packet 0 4)"
    "pad < 256" "pe + pad = pk" "26 \<le> e" "e \<le> pe" "pe \<le> pk" "pk \<le> length packet"
    "unat (packet ! 5) = SSH_MSG_KEXINIT" "26 \<le> length packet"
    by (rule kexinit_boundsE [OF b])
  let ?R = "rebuilt_packet packet e pe pk repl"
  have lim: "from_bytes (pyslice packet 22 26) < 256 ^ 4" "from_bytes (pyslice packet 0 4) < 256 ^ 4"
    using from_bytes_less [of "pyslice packet 22 26"] from_bytes_less [of "pyslice packet 0 4"] p by auto
  have l5: "length (pyslice packet 5 22) = 17" using p by simp
  show L: "length ?R = pk - (e - 26) + length repl"
    using p by (simp add: rebuilt_packet_def)
  show "pyslice ?R 26 (26 + length repl) = repl"
    using l5 by (simp add: rebuilt_packet_def pyslice_append)
  show "kexinit_algorithm_bounds ?R =
      Inr (Some (26, 26 + length repl, pe - (e - 26) + length repl, pk - (e - 26) + length repl))"
  proof (rule kexinit_boundsI)
    have "pyslice ?R 0 4 = be_bytes 4 (pk - 4 - (e - 26) + length repl)"
      by (simp add: rebuilt_packet_def pyslice_append)
    then show "pk - (e - 26) + length repl = 4 + from_bytes (pyslice ?R 0 4)"
      using p lim len by simp
    have "pyslice ?R 22 26 = be_bytes 4 (length repl)"
      using l5 by (simp add: rebuilt_packet_def pyslice_append)
    then show "26 + length repl = 26 + from_bytes (pyslice ?R 22 26)"
      using p lim len by simp
    have pad: "unat (word_of_nat (pk - pe) :: byte) = pk - pe"
      using p(3,4) by (simp add: unat_of_nat del: of_nat_diff)
    have "?R ! 4 = word_of_nat (pk - pe)" by (simp add: rebuilt_packet_def nth_append)
    then show "pe - (e - 26) + length repl + unat (?R ! 4) = pk - (e - 26) + length repl"
      using p(3-7) pad by (simp del: of_nat_diff)
    have "?R ! 5 = packet ! 5" using p by (simp add: rebuilt_packet_def nth_append)
    then show "unat (?R ! 5) = SSH_MSG_KEXINIT" using p by simp
  qed (use p L in auto)
qed

lemma rebuilt_packet_slices:
  assumes b: "kexinit_algorithm_bounds packet = Inr (Some (26, e, pe, pk))" and len: "length repl \<le> e - 26"
  shows "pyslice (rebuilt_packet packet e pe pk repl) 5 22 = pyslice packet 5 22"
    "pyslice (rebuilt_packet packet e pe pk repl) (26 + length repl) (pk - (e - 26) + length repl) = pyslice packet e pk"
proof -
  obtain pad where p: "26 \<le> e" "e \<le> pe" "pe \<le> pk" "pk \<le> length packet" "26 \<le> length packet"
    by (rule kexinit_boundsE [OF b])
  let ?R = "rebuilt_packet packet e pe pk repl"
  have l5: "length (pyslice packet 5 22) = 17" using p by simp
  then show "pyslice ?R 5 22 = pyslice packet 5 22"
    by (simp add: rebuilt_packet_def pyslice_append)
  have "pyslice packet e pe @ pyslice packet pe pk = pyslice packet e pk" using p by (simp add: pyslice_split [symmetric])
  moreover have "pyslice ?R (26 + length repl) (length ?R) = pyslice packet e pe @ pyslice packet pe pk"
    using l5 by (simp add: rebuilt_packet_def pyslice_append)
  ultimately show "pyslice ?R (26 + length repl) (pk - (e - 26) + length repl) = pyslice packet e pk"
    using rebuilt_packet_bounds(3) [OF b len] by simp
qed

lemma kexinit_algorithms_encoded:
  assumes "kexinit_algorithm_bounds packet = Inr (Some (26, e, pe, pk))"
    and "ascii_encode (join '','' names) = Inr (pyslice packet 26 e)"
    and "\<forall>n \<in> set names. CHR '','' \<notin> set n" "names \<noteq> [[]]"
  shows "kexinit_algorithms packet = Inr names"
proof (cases "names = []")
  case True
  then show ?thesis using assms by (simp add: kexinit_algorithms_bounds ascii_encode_def)
next
  case False
  have "ascii_decode (pyslice packet 26 e) = Inr (join '','' names)" by (rule ascii_encode_decode [OF assms(2)])
  moreover have "pyslice packet 26 e \<noteq> []"
    using False assms(4) ascii_encode_length [OF assms(2)] join_eq_Nil [of "CHR '',''" names] by force
  ultimately show ?thesis
    using assms(1,3) False by (simp add: kexinit_algorithms_bounds split_char_join)
qed

text \<open>The three cases of \<open>strip_kexinit_algorithm\<close> in one rule.\<close>

lemma strip_kexinit_cases:
  assumes "strip_kexinit_algorithm packet alg = Inr p'"
  obtains e pe pk names repl where "kexinit_algorithm_bounds packet = Inr (Some (26, e, pe, pk))"
    "kexinit_algorithms packet = Inr names" "length repl \<le> e - 26"
    "ascii_encode (join '','' (filter (\<lambda>x. x \<noteq> alg) names)) = Inr repl"
    "p' = (if repl = pyslice packet 26 e then packet else rebuilt_packet packet e pe pk repl)"
proof -
  obtain e pe pk names where b: "kexinit_algorithm_bounds packet = Inr (Some (26, e, pe, pk))"
    "kexinit_algorithms packet = Inr names" by (rule strip_kexinit_returns [OF assms])
  obtain repl where r: "ascii_encode (join '','' (filter (\<lambda>x. x \<noteq> alg) names)) = Inr repl" "length repl \<le> e - 26"
    "strip_kexinit_algorithm packet alg =
       Inr (if repl = pyslice packet 26 e then packet else rebuilt_packet packet e pe pk repl)"
    by (rule strip_kexinit_eq [OF b])
  from r(3) assms have "p' = (if repl = pyslice packet 26 e then packet else rebuilt_packet packet e pe pk repl)" by simp
  with b r(1,2) show ?thesis using that by blast
qed

lemma strip_kexinit_names:
  assumes "strip_kexinit_algorithm packet alg = Inr p'" "kexinit_algorithms packet = Inr names" "[] \<notin> set names"
  shows "kexinit_algorithms p' = Inr (filter (\<lambda>x. x \<noteq> alg) names)"
proof -
  obtain e pe pk names' repl where c: "kexinit_algorithm_bounds packet = Inr (Some (26, e, pe, pk))"
    "kexinit_algorithms packet = Inr names'" "length repl \<le> e - 26"
    "ascii_encode (join '','' (filter (\<lambda>x. x \<noteq> alg) names')) = Inr repl"
    "p' = (if repl = pyslice packet 26 e then packet else rebuilt_packet packet e pe pk repl)"
    by (rule strip_kexinit_cases [OF assms(1)])
  have nn: "names' = names" using c(2) assms(2) by simp
  obtain s where "\<forall>n \<in> set names. CHR '','' \<notin> set n" by (rule kexinit_namesE [OF c(1) assms(2)])
  moreover have "filter (\<lambda>x. x \<noteq> alg) names \<noteq> [[]]"
  proof
    assume "filter (\<lambda>x. x \<noteq> alg) names = [[]]"
    then have "[] \<in> set (filter (\<lambda>x. x \<noteq> alg) names)" by simp
    then show False using assms(3) by simp
  qed
  ultimately show ?thesis
    using c(1,4,5) rebuilt_packet_bounds(1,2) [OF c(1,3)] unfolding nn
    by (cases "repl = pyslice packet 26 e") (auto intro: kexinit_algorithms_encoded)
qed

lemma kexinit_algorithms_returns:
  assumes "kexinit_algorithms packet = Inr names"
  obtains e pe pk where "kexinit_algorithm_bounds packet = Inr (Some (26, e, pe, pk))"
proof -
  obtain b where b: "kexinit_algorithm_bounds packet = Inr b" using kexinit_algorithm_bounds_Inr by blast
  with assms obtain a e pe pk where bb: "b = Some (a, e, pe, pk)"
    by (cases b) (auto simp: kexinit_algorithms_def)
  moreover have "a = 26" using b bb by (auto elim: kexinit_boundsE)
  ultimately show ?thesis using b that by blast
qed

lemma kexinit_algorithms_ve_only: "ve_only (kexinit_algorithms packet)"
  using kexinit_algorithm_bounds_Inr [of packet]
  by (auto simp: kexinit_algorithms_def ascii_decode_def Let_def split: option.splits)

lemma kexinit_bounds_take:
  assumes "kexinit_algorithm_bounds packet = Inr (Some (a, e, pe, pk))"
  shows "kexinit_algorithm_bounds (take pk packet @ t) = Inr (Some (a, e, pe, pk))"
proof -
  obtain pad where p: "a = 26" "e = 26 + from_bytes (pyslice packet 22 26)" "pk = 4 + from_bytes (pyslice packet 0 4)"
    "pad = unat (packet ! 4)" "pe + pad = pk" "26 \<le> e" "e \<le> pe" "pe \<le> pk" "pk \<le> length packet"
    "unat (packet ! 5) = SSH_MSG_KEXINIT"
    by (rule kexinit_boundsE [OF assms])
  have sl: "pyslice (take pk packet @ t) i j = pyslice packet i j" if "j \<le> pk" for i j
    using that p(9) by (simp add: pyslice_append_left pyslice_take)
  have nt: "(take pk packet @ t) ! i = packet ! i" if "i < pk" for i
    using that p(9) by (simp add: nth_append)
  have big: "26 \<le> pk" using p(6-8) by linarith
  have s0: "pyslice (take pk packet @ t) 0 4 = pyslice packet 0 4" by (rule sl) (use big in simp)
  have s22: "pyslice (take pk packet @ t) 22 26 = pyslice packet 22 26" by (rule sl [OF big])
  show ?thesis unfolding p(1)
  proof (rule kexinit_boundsI)
    show "pk = 4 + from_bytes (pyslice (take pk packet @ t) 0 4)" unfolding s0 by (rule p(3))
    show "e = 26 + from_bytes (pyslice (take pk packet @ t) 22 26)" unfolding s22 by (rule p(2))
    show "pe + unat ((take pk packet @ t) ! 4) = pk" using p(4,5) big by (simp add: nt)
    show "unat ((take pk packet @ t) ! 5) = SSH_MSG_KEXINIT" using p(10) big by (simp add: nt)
  qed (use p(7,9) big in auto)
qed

end
