(* ===== verification/SSH_Strip.thy ===== *)
theory SSH_Strip
  imports SSH_KexInit
begin

text \<open>
  Properties of the SSH mutators: what \<open>strip_kexinit_algorithm\<close> does to the name list and to the
  framing of the packet, which packets it rejects, and that \<open>forge_ssh_pq_component\<close> inverts exactly
  the sntrup761 part of the public value. Two of the theorems record what the rebuilt packet loses:
  the bytes behind the packet and the alignment of the packet to the cipher block.
\<close>

section \<open>Encoders for the packets of the witnesses\<close>

definition kexinit_packet :: "bytes \<Rightarrow> bytes \<Rightarrow> bytes \<Rightarrow> bytes \<Rightarrow> bytes" where
  "kexinit_packet cookie ns rest pad =
     be_bytes 4 (22 + length ns + length rest + length pad) @ [word_of_nat (length pad), 20] @ cookie @
     be_bytes 4 (length ns) @ ns @ rest @ pad"

definition kex_ecdh_packet :: "bytes \<Rightarrow> bytes \<Rightarrow> bytes" where
  "kex_ecdh_packet blob pad =
     be_bytes 4 (6 + length blob + length pad) @ [word_of_nat (length pad), 30] @ be_bytes 4 (length blob) @ blob @ pad"

abbreviation ssh_hybrid_name :: string where "ssh_hybrid_name \<equiv> ''sntrup761x25519-sha512@openssh.com''"

definition demo_kexinit :: bytes where
  "demo_kexinit = kexinit_packet (replicate 16 7)
     (map (\<lambda>c. word_of_nat (of_char c)) ''sntrup761x25519-sha512@openssh.com,curve25519-sha256'') (replicate 5 0) (replicate 5 0)"

lemma kexinit_packet_bounds:
  assumes "length cookie = 16" "length pad < 256" "22 + length ns + length rest + length pad < 256 ^ 4"
  shows "kexinit_algorithm_bounds (kexinit_packet cookie ns rest pad @ t) =
      Inr (Some (26, 26 + length ns, 26 + length ns + length rest, 26 + length ns + length rest + length pad))"
    "pyslice (kexinit_packet cookie ns rest pad @ t) 26 (26 + length ns) = ns"
proof -
  let ?P = "kexinit_packet cookie ns rest pad @ t"
  have l: "length ?P = 26 + length ns + length rest + length pad + length t"
    using assms by (simp add: kexinit_packet_def)
  show "pyslice ?P 26 (26 + length ns) = ns"
    using assms by (simp add: kexinit_packet_def pyslice_append)
  show "kexinit_algorithm_bounds ?P =
      Inr (Some (26, 26 + length ns, 26 + length ns + length rest, 26 + length ns + length rest + length pad))"
  proof (rule kexinit_boundsI)
    have "pyslice ?P 0 4 = be_bytes 4 (22 + length ns + length rest + length pad)"
      by (simp add: kexinit_packet_def pyslice_append)
    then show "26 + length ns + length rest + length pad = 4 + from_bytes (pyslice ?P 0 4)" using assms by simp
    have "pyslice ?P 22 26 = be_bytes 4 (length ns)" using assms by (simp add: kexinit_packet_def pyslice_append)
    then show "26 + length ns = 26 + from_bytes (pyslice ?P 22 26)" using assms by simp
    have "?P ! 4 = word_of_nat (length pad)" by (simp add: kexinit_packet_def nth_append)
    then show "26 + length ns + length rest + unat (?P ! 4) = 26 + length ns + length rest + length pad"
      using assms by (simp add: unat_of_nat)
    show "unat (?P ! 5) = SSH_MSG_KEXINIT" by (simp add: kexinit_packet_def nth_append)
  qed (use l in auto)
qed

lemma kex_ecdh_packet_find:
  assumes "length pad < 256" "6 + length blob + length pad < 256 ^ 4"
  shows "find_kex_ecdh_init (kex_ecdh_packet blob pad @ t) = Inr (Some (10, length blob))"
proof -
  let ?P = "kex_ecdh_packet blob pad @ t"
  have "pyslice ?P 0 4 = be_bytes 4 (6 + length blob + length pad)" "pyslice ?P 6 10 = be_bytes 4 (length blob)"
    by (simp_all add: kex_ecdh_packet_def pyslice_append)
  moreover have "byte_at ?P 4 = Inr (length pad)" "byte_at ?P 5 = Inr 30"
    using assms(1) by (simp_all add: kex_ecdh_packet_def byte_at_def nth_append unat_of_nat)
  moreover have "length ?P = 10 + length blob + length pad + length t" by (simp add: kex_ecdh_packet_def)
  ultimately show ?thesis
    using assms(2) unfolding find_kex_ecdh_init_def Let_def by (simp del: length_append)
qed

lemma demo_kexinit_bounds: "kexinit_algorithm_bounds (demo_kexinit @ t) = Inr (Some (26, 78, 83, 88))"
  unfolding demo_kexinit_def by (subst kexinit_packet_bounds(1)) simp_all

lemma demo_kexinit_names: "kexinit_algorithms (demo_kexinit @ t) = Inr [ssh_hybrid_name, ''curve25519-sha256'']"
proof (rule kexinit_algorithms_encoded [OF demo_kexinit_bounds])
  have "pyslice (demo_kexinit @ t) 26 78 = map (\<lambda>c. word_of_nat (of_char c)) ''sntrup761x25519-sha512@openssh.com,curve25519-sha256''"
    unfolding demo_kexinit_def
    using kexinit_packet_bounds(2) [of "replicate 16 7" "replicate 5 0"
      "map (\<lambda>c. word_of_nat (of_char c)) ''sntrup761x25519-sha512@openssh.com,curve25519-sha256''" "replicate 5 0" t]
    by simp
  then show "ascii_encode (join '','' [ssh_hybrid_name, ''curve25519-sha256'']) = Inr (pyslice (demo_kexinit @ t) 26 78)"
    by (simp add: ascii_encode_def)
qed simp_all

lemma demo_kexinit_strips: "\<exists>p'. strip_kexinit_algorithm (demo_kexinit @ t) alg = Inr p'"
  using strip_kexinit_eq [OF demo_kexinit_bounds demo_kexinit_names] by metis

lemma length_demo_kexinit: "length demo_kexinit = 88"
  by (simp add: demo_kexinit_def kexinit_packet_def)

lemma demo_kexinit_stripped:
  obtains p' where "strip_kexinit_algorithm (demo_kexinit @ t) ssh_hybrid_name = Inr p'" "p' \<noteq> demo_kexinit @ t"
proof -
  obtain p' where p': "strip_kexinit_algorithm (demo_kexinit @ t) ssh_hybrid_name = Inr p'"
    using demo_kexinit_strips by blast
  have "kexinit_algorithms p' = Inr [''curve25519-sha256'']"
    using strip_kexinit_names [OF p' demo_kexinit_names] by simp
  then have "p' \<noteq> demo_kexinit @ t" using demo_kexinit_names [of t] by force
  with p' show ?thesis by (rule that)
qed

section \<open>The name list\<close>

text \<open>
  C5. Removing an algorithm from a KEXINIT packet is exactly the removal of its name from the list
  the packet offers: the new packet lists the same names in the same order without that one (the
  names of a well-formed list are not empty). A second removal of the same name changes nothing.
\<close>

theorem strip_kexinit_filters_names:
  assumes "strip_kexinit_algorithm packet alg = Inr p'" "kexinit_algorithms packet = Inr names" "[] \<notin> set names"
  shows "kexinit_algorithms p' = Inr (filter (\<lambda>name. name \<noteq> alg) names) \<and> strip_kexinit_algorithm p' alg = Inr p'"
proof
  show n: "kexinit_algorithms p' = Inr (filter (\<lambda>name. name \<noteq> alg) names)"
    by (rule strip_kexinit_names [OF assms])
  then obtain e pe pk where b: "kexinit_algorithm_bounds p' = Inr (Some (26, e, pe, pk))"
    by (rule kexinit_algorithms_returns)
  obtain s where s: "ascii_decode (pyslice p' 26 e) = Inr s" "join '','' (filter (\<lambda>name. name \<noteq> alg) names) = s"
    by (rule kexinit_namesE [OF b n])
  obtain repl where "ascii_encode (join '','' (filter (\<lambda>x. x \<noteq> alg) (filter (\<lambda>name. name \<noteq> alg) names))) = Inr repl"
    "strip_kexinit_algorithm p' alg = Inr (if repl = pyslice p' 26 e then p' else rebuilt_packet p' e pe pk repl)"
    by (rule strip_kexinit_eq [OF b n])
  with s ascii_roundtrip [OF s(1)] show "strip_kexinit_algorithm p' alg = Inr p'" by simp
qed

theorem strip_kexinit_filters_names_witness:
  "\<exists>p'. strip_kexinit_algorithm demo_kexinit ssh_hybrid_name = Inr p' \<and> kexinit_algorithms p' = Inr [''curve25519-sha256'']"
proof -
  obtain p' where p': "strip_kexinit_algorithm demo_kexinit ssh_hybrid_name = Inr p'"
    using demo_kexinit_strips [of "[]"] by auto
  then show ?thesis
    using strip_kexinit_filters_names [OF p', of "[ssh_hybrid_name, ''curve25519-sha256'']"] demo_kexinit_names [of "[]"]
    by simp
qed

section \<open>Framing\<close>

text \<open>
  C6. A KEXINIT packet that the removal changes is a well-formed KEXINIT packet again: its length
  field, its padding length and its list length agree with its contents, the cookie in front of
  the list and everything from the list to the end of the padding are the original bytes.
\<close>

theorem strip_kexinit_framing:
  assumes "strip_kexinit_algorithm packet alg = Inr p'" "p' \<noteq> packet"
    and "kexinit_algorithm_bounds packet = Inr (Some (a, e, pe, pk))"
  shows "\<exists>e' pe' pk'. kexinit_algorithm_bounds p' = Inr (Some (a, e', pe', pk')) \<and> length p' = pk' \<and>
     pk' - pe' = pk - pe \<and> e' \<le> e \<and> pyslice p' 5 22 = pyslice packet 5 22 \<and> pyslice p' e' pk' = pyslice packet e pk"
proof -
  obtain e2 pe2 pk2 names repl where c: "kexinit_algorithm_bounds packet = Inr (Some (26, e2, pe2, pk2))"
    "length repl \<le> e2 - 26"
    "p' = (if repl = pyslice packet 26 e2 then packet else rebuilt_packet packet e2 pe2 pk2 repl)"
    by (rule strip_kexinit_cases [OF assms(1)])
  have eq: "a = 26" "e2 = e" "pe2 = pe" "pk2 = pk" using c(1) assms(3) by auto
  have r: "p' = rebuilt_packet packet e pe pk repl" using c(3) assms(2) eq by (auto split: if_splits)
  note c' = c(1,2) [unfolded eq]
  obtain pad where p: "26 \<le> e" "e \<le> pe" "pe \<le> pk" by (rule kexinit_boundsE [OF c'(1)])
  show ?thesis
    using rebuilt_packet_bounds [OF c'] rebuilt_packet_slices [OF c'] p c'(2) unfolding r eq
    by (intro exI [of _ "26 + length repl"] exI [of _ "pe - (e - 26) + length repl"]
        exI [of _ "pk - (e - 26) + length repl"]) auto
qed

theorem strip_kexinit_framing_witness:
  "\<exists>p' e' pe' pk'. strip_kexinit_algorithm demo_kexinit ssh_hybrid_name = Inr p' \<and>
     kexinit_algorithm_bounds p' = Inr (Some (26, e', pe', pk')) \<and> length p' = pk' \<and> pk' - pe' = 5"
proof -
  obtain p' where p': "strip_kexinit_algorithm demo_kexinit ssh_hybrid_name = Inr p'" "p' \<noteq> demo_kexinit"
    using demo_kexinit_stripped [of "[]"] by auto
  show ?thesis using strip_kexinit_framing [OF p', of 26 78 83 88] demo_kexinit_bounds [of "[]"] p'(1) by auto
qed

lemma strip_kexinit_error_iff:
  "(strip_kexinit_algorithm packet alg = Inl err \<longleftrightarrow> kexinit_algorithms packet = Inl err) \<and>
   ve_only (strip_kexinit_algorithm packet alg)"
proof (cases "kexinit_algorithms packet")
  case (Inl er)
  then show ?thesis using kexinit_algorithms_ve_only [of packet] kexinit_algorithm_bounds_Inr [of packet]
    by (auto simp: strip_kexinit_algorithm_def kexinit_algorithms_def split: option.splits)
next
  case (Inr names)
  obtain e pe pk where b: "kexinit_algorithm_bounds packet = Inr (Some (26, e, pe, pk))"
    by (rule kexinit_algorithms_returns [OF Inr])
  obtain p' where "strip_kexinit_algorithm packet alg = Inr p'"
    using strip_kexinit_eq [OF b Inr] by metis
  then show ?thesis using Inr by simp
qed

lemma strip_kexinit_ve_only: "ve_only (strip_kexinit_algorithm packet alg)"
  using strip_kexinit_error_iff by blast

text \<open>
  The removal raises exactly when reading the list raises, and with the same exception, which
  is a \<open>ValueError\<close>: a packet whose list can be read can always be rebuilt.
\<close>

theorem strip_kexinit_errors:
  "(strip_kexinit_algorithm packet alg = Inl err \<longleftrightarrow> kexinit_algorithms packet = Inl err) \<and>
   ve_only (strip_kexinit_algorithm packet alg)"
  by (rule strip_kexinit_error_iff)

section \<open>What the rebuilt packet loses\<close>

text \<open>
  The rebuilt packet ends at the end of the first SSH packet: whatever follows it in the same
  buffer is dropped. The result is that of the removal on the first packet alone. (The TLS mutator
  keeps the bytes behind the record.)
\<close>

theorem strip_kexinit_drops_trailing:
  assumes "kexinit_algorithm_bounds packet = Inr (Some (a, e, pe, pk))"
    and "strip_kexinit_algorithm packet alg = Inr p'" "p' \<noteq> packet"
  shows "strip_kexinit_algorithm (take pk packet @ t) alg = Inr p'"
proof -
  obtain e2 pe2 pk2 names repl where c: "kexinit_algorithm_bounds packet = Inr (Some (26, e2, pe2, pk2))"
    "kexinit_algorithms packet = Inr names" "length repl \<le> e2 - 26"
    "ascii_encode (join '','' (filter (\<lambda>x. x \<noteq> alg) names)) = Inr repl"
    "p' = (if repl = pyslice packet 26 e2 then packet else rebuilt_packet packet e2 pe2 pk2 repl)"
    by (rule strip_kexinit_cases [OF assms(2)])
  have eq: "e2 = e" "pe2 = pe" "pk2 = pk" using c(1) assms(1) by auto
  note c' = c [unfolded eq]
  obtain pad where p: "26 \<le> e" "e \<le> pe" "pe \<le> pk" "pk \<le> length packet" by (rule kexinit_boundsE [OF c'(1)])
  let ?T = "take pk packet @ t"
  have sl: "pyslice ?T i j = pyslice packet i j" if "j \<le> pk" for i j
    using that p by (simp add: pyslice_append_left pyslice_take)
  have b: "kexinit_algorithm_bounds ?T = Inr (Some (26, e, pe, pk))"
    by (rule kexinit_bounds_take [OF c'(1)])
  then have n: "kexinit_algorithms ?T = Inr names"
    using c'(2) p(2,3) sl [of e 26] unfolding kexinit_algorithms_bounds [OF b] kexinit_algorithms_bounds [OF c'(1)]
    by (simp split: if_splits)
  obtain r2 where "ascii_encode (join '','' (filter (\<lambda>x. x \<noteq> alg) names)) = Inr r2"
    "strip_kexinit_algorithm ?T alg = Inr (if r2 = pyslice ?T 26 e then ?T else rebuilt_packet ?T e pe pk r2)"
    by (rule strip_kexinit_eq [OF b n])
  moreover have "rebuilt_packet ?T e pe pk repl = rebuilt_packet packet e pe pk repl"
    using p by (simp add: rebuilt_packet_def sl)
  ultimately show ?thesis using c'(4,5) assms(3) p by (simp add: sl split: if_splits)
qed

theorem strip_kexinit_drops_trailing_witness:
  "\<exists>p'. strip_kexinit_algorithm (demo_kexinit @ [1, 2, 3]) ssh_hybrid_name = Inr p' \<and>
     strip_kexinit_algorithm demo_kexinit ssh_hybrid_name = Inr p'"
proof -
  obtain p' where p': "strip_kexinit_algorithm (demo_kexinit @ [1, 2, 3]) ssh_hybrid_name = Inr p'" "p' \<noteq> demo_kexinit @ [1, 2, 3]"
    by (rule demo_kexinit_stripped)
  then show ?thesis
    using strip_kexinit_drops_trailing [OF demo_kexinit_bounds p', of "[]"] length_demo_kexinit by auto
qed

text \<open>
  C7. The padding is kept as it was, so the packet shrinks by the removed names and their commas
  and its length is not brought back to a multiple of the cipher block: removing the hybrid name of
  34 characters once, from a list with another name, turns a packet of length 0 modulo 8 into one
  of length 5 modulo 8, which an SSH peer refuses.
\<close>

theorem strip_kexinit_misaligns:
  assumes "kexinit_algorithm_bounds packet = Inr (Some (a, e, pe, pk))" "kexinit_algorithms packet = Inr names"
    and "count_list names ssh_hybrid_name = 1" "length names > 1" "8 dvd pk"
    and "strip_kexinit_algorithm packet ssh_hybrid_name = Inr p'"
  shows "length p' = pk - 35 \<and> length p' mod 8 = 5"
proof -
  obtain e2 pe2 pk2 names2 repl where c: "kexinit_algorithm_bounds packet = Inr (Some (26, e2, pe2, pk2))"
    "kexinit_algorithms packet = Inr names2" "length repl \<le> e2 - 26"
    "ascii_encode (join '','' (filter (\<lambda>x. x \<noteq> ssh_hybrid_name) names2)) = Inr repl"
    "p' = (if repl = pyslice packet 26 e2 then packet else rebuilt_packet packet e2 pe2 pk2 repl)"
    by (rule strip_kexinit_cases [OF assms(6)])
  have eq: "e2 = e" "pe2 = pe" "pk2 = pk" "names2 = names" using c(1,2) assms(1,2) by auto
  note c' = c [unfolded eq]
  obtain pad where p: "26 \<le> e" "e \<le> pe" "pe \<le> pk" "pk \<le> length packet" by (rule kexinit_boundsE [OF c'(1)])
  obtain s where s: "ascii_decode (pyslice packet 26 e) = Inr s" "join '','' names = s"
    by (rule kexinit_namesE [OF c'(1,2)])
  have "length (filter (\<lambda>x. x \<noteq> ssh_hybrid_name) names) + 1 = length names"
    using length_filter_count [of ssh_hybrid_name names] assms(3) by simp
  then have "filter (\<lambda>x. x \<noteq> ssh_hybrid_name) names \<noteq> []" using assms(4) by auto
  then have "length (join '','' names) = length repl + 35"
    using length_join_remove [of ssh_hybrid_name names "CHR '',''"] assms(3) ascii_encode_length [OF c'(4)] by simp
  then have l: "e - 26 = length repl + 35" using ascii_decode_length [OF s(1)] s(2) p by simp
  then have "repl \<noteq> pyslice packet 26 e" using p by auto
  then have "length p' = pk - (e - 26) + length repl" using c'(5) rebuilt_packet_bounds(3) [OF c'(1,3)] by simp
  then have *: "length p' = pk - 35" using l p by linarith
  obtain k where k: "pk = 8 * k" using assms(5) by blast
  have "61 \<le> pk" using l p by linarith
  then have "pk - 35 = 5 + 8 * (k - 5)" using k by linarith
  then show ?thesis using * by simp
qed

theorem strip_kexinit_misaligns_witness:
  "\<exists>p'. strip_kexinit_algorithm demo_kexinit ssh_hybrid_name = Inr p' \<and> length p' = 53"
proof -
  obtain p' where p': "strip_kexinit_algorithm demo_kexinit ssh_hybrid_name = Inr p'"
    using demo_kexinit_strips [of "[]"] by auto
  then show ?thesis
    using strip_kexinit_misaligns [of demo_kexinit 26 78 83 88 "[ssh_hybrid_name, ''curve25519-sha256'']" p']
      demo_kexinit_bounds [of "[]"] demo_kexinit_names [of "[]"] by simp
qed

section \<open>Forging the post-quantum part\<close>

lemma find_kex_ecdh_initE:
  assumes "find_kex_ecdh_init packet = Inr (Some (off, n))"
  obtains "off = 10" "n = from_bytes (pyslice packet 6 10)" "off + n \<le> length packet"
    "unat (packet ! 5) = SSH_MSG_KEX_ECDH_INIT" "10 \<le> length packet"
proof -
  have l: "10 \<le> length packet" using assms by (auto simp: find_kex_ecdh_init_def split: if_splits)
  obtain pad where "byte_at packet 4 = Inr pad" using l by (simp add: byte_at_def)
  moreover have "byte_at packet 5 = Inr (unat (packet ! 5))" using l by (simp add: byte_at_def)
  ultimately show ?thesis
    using assms l that unfolding find_kex_ecdh_init_def Let_def by (auto split: if_splits)
qed

lemma find_kex_ecdh_init_cong:
  assumes "length packet' = length packet" "\<And>i. i < 10 \<Longrightarrow> i < length packet \<Longrightarrow> packet' ! i = packet ! i"
  shows "find_kex_ecdh_init packet' = find_kex_ecdh_init packet"
proof -
  have "pyslice packet' 0 4 = pyslice packet 0 4" "pyslice packet' 6 10 = pyslice packet 6 10"
    by (rule pyslice_eqI; use assms in simp)+
  moreover have "byte_at packet' 4 = byte_at packet 4" "byte_at packet' 5 = byte_at packet 5"
    using assms by (simp_all add: byte_at_def)
  ultimately show ?thesis using assms(1) unfolding find_kex_ecdh_init_def Let_def by presburger
qed

text \<open>
  C8. Forging succeeds on every packet whose public value is long enough for sntrup761x25519;
  it inverts every bit of the 1158 bytes of the sntrup761 key and nothing else, so the length, the
  header and the X25519 part behind the key are untouched, the public value is found in the same
  place, and forging twice restores the packet.
\<close>

theorem forge_ssh_exact:
  assumes "find_kex_ecdh_init packet = Inr (Some (off, n))" "SNTRUP761_PUBLICKEY_BYTES + SSH_X25519_BYTES \<le> n"
  shows "\<exists>p'. forge_ssh_pq_component packet = Inr p' \<and> length p' = length packet \<and>
     (\<forall>i < length packet. p' ! i = (if i \<in> {off..<off + SNTRUP761_PUBLICKEY_BYTES} then packet ! i XOR 0xFF else packet ! i)) \<and>
     find_kex_ecdh_init p' = Inr (Some (off, n)) \<and> forge_ssh_pq_component p' = Inr packet"
proof -
  have off: "off = 10" "off + n \<le> length packet" by (rule find_kex_ecdh_initE [OF assms(1)]; assumption)+
  let ?is = "[off..<off + SNTRUP761_PUBLICKEY_BYTES]"
  have "\<forall>i \<in> set ?is. i < length packet" using off(2) assms(2) by (auto simp del: upt_rec_numeral)
  then obtain p' where p': "xor_loop ?is packet = Inr p'" using xor_loop_Inr by blast
  have len: "length p' = length packet" by (rule xor_loop_length [OF p'])
  have nth: "p' ! i = (if i \<in> {off..<off + SNTRUP761_PUBLICKEY_BYTES} then packet ! i XOR 0xFF else packet ! i)"
    if "i < length packet" for i
    using xor_loop_nth [OF _ p' that] by simp
  have "find_kex_ecdh_init p' = find_kex_ecdh_init packet"
    by (rule find_kex_ecdh_init_cong [OF len]) (use nth off in auto)
  moreover have "xor_loop ?is p' = Inr packet" by (rule xor_loop_involutive [OF _ p']) simp
  ultimately show ?thesis
    using assms p' len nth by (simp add: forge_ssh_pq_component_def del: upt_rec_numeral)
qed

theorem forge_ssh_exact_witness:
  "\<exists>p'. forge_ssh_pq_component (kex_ecdh_packet (replicate 1190 5) (replicate 8 0)) = Inr p' \<and>
     forge_ssh_pq_component p' = Inr (kex_ecdh_packet (replicate 1190 5) (replicate 8 0))"
proof -
  have "find_kex_ecdh_init (kex_ecdh_packet (replicate 1190 5) (replicate 8 0)) = Inr (Some (10, 1190))"
    using kex_ecdh_packet_find [of "replicate 8 0" "replicate 1190 5" "[]"]
    by (simp only: length_replicate append_Nil2) simp
  from forge_ssh_exact [OF this] show ?thesis by auto
qed

end
