(* ===== verification/Fault_Scenarios.thy ===== *)
theory Fault_Scenarios
  imports Scenario TLS_Forge SSH_Strip
begin

text \<open>
  The scenarios of the first phases: \<open>condition_spec\<close> (\<open>conditions.py\<close>), \<open>group_list_spec\<close>
  (\<open>fault_group_list.py\<close>) and \<open>binding_spec\<close> with its logging mutator (\<open>fault_binding.py\<close>). Paths to
  the tools are a dictionary; a missing key raises \<open>KeyError\<close>. \<open>sha256\<close> stands for
  \<open>hashlib.sha256(data).hexdigest()\<close>; it is an argument of the mutators.
\<close>

section \<open>Definitions\<close>

type_synonym paths = "string \<rightharpoonup> string"

definition look :: "(string \<rightharpoonup> 'a) \<Rightarrow> string \<Rightarrow> 'a result" where
  "look d k = (case d k of None \<Rightarrow> Inl (KeyError k) | Some v \<Rightarrow> Inr v)"

definition CLIENT_GROUPS :: "string \<rightharpoonup> (string \<rightharpoonup> string)" where
  "CLIENT_GROUPS = [''openssl'' \<mapsto> [''base'' \<mapsto> ''X25519MLKEM768:X25519'', ''silent-downgrade'' \<mapsto> ''X25519:X25519MLKEM768''],
     ''boringssl'' \<mapsto> [''base'' \<mapsto> ''X25519Kyber768Draft00:X25519'',
       ''silent-downgrade'' \<mapsto> ''X25519:X25519Kyber768Draft00'']]"

definition PORTS :: "string \<rightharpoonup> nat" where
  "PORTS = [''openssl'' \<mapsto> 8543, ''boringssl'' \<mapsto> 8544, ''openssh'' \<mapsto> 2323]"

definition ADVERTISED_HYBRID :: "string \<rightharpoonup> bool" where
  "ADVERTISED_HYBRID = [''base'' \<mapsto> True, ''silent-downgrade'' \<mapsto> True, ''ssh-order'' \<mapsto> True]"

definition advertised_hybrid_for :: "string \<Rightarrow> bool result" where
  "advertised_hybrid_for condition = look ADVERTISED_HYBRID condition"

text \<open>The commands of \<open>condition_spec\<close>, per implementation.\<close>

definition condition_commands :: "string \<Rightarrow> string \<Rightarrow> nat \<Rightarrow> paths \<Rightarrow> (string list \<times> string list) result" where
  "condition_commands impl condition port paths =
     (if impl = ''openssl'' then
        rbind (look paths ''openssl_bin'') (\<lambda>openssl_bin.
        rbind (look paths ''openssl_cert'') (\<lambda>cert.
        rbind (look (case CLIENT_GROUPS ''openssl'' of Some m \<Rightarrow> m | None \<Rightarrow> Map.empty) condition) (\<lambda>groups.
        Inr ([openssl_bin, ''s_server'', ''-tls1_3'', ''-www'', ''-provider'', ''default'', ''-provider'', ''oqsprovider'',
              ''-accept'', dec port, ''-cert'', cert, ''-groups'', ''X25519MLKEM768:X25519''],
             [openssl_bin, ''s_client'', ''-tls1_3'', ''-state'', ''-msg'', ''-provider'', ''default'', ''-provider'',
              ''oqsprovider'', ''-connect'', ''127.0.0.1:'' @ dec port, ''-groups'', groups]))))
      else if impl = ''boringssl'' then
        rbind (look paths ''bssl_bin'') (\<lambda>bssl_bin.
        rbind (look paths ''boring_cert'') (\<lambda>cert.
        rbind (look paths ''boring_key'') (\<lambda>key.
        rbind (look (case CLIENT_GROUPS ''boringssl'' of Some m \<Rightarrow> m | None \<Rightarrow> Map.empty) condition) (\<lambda>groups.
        Inr ([bssl_bin, ''server'', ''-accept'', dec port, ''-curves'', ''X25519Kyber768Draft00:X25519'', ''-min-version'',
              ''tls1.3'', ''-max-version'', ''tls1.3'', ''-cert'', cert, ''-key'', key, ''-loop''],
             [bssl_bin, ''client'', ''-connect'', ''127.0.0.1:'' @ dec port, ''-min-version'', ''tls1.3'', ''-max-version'',
              ''tls1.3'', ''-curves'', groups])))))
      else if impl = ''openssh'' then
        rbind (look paths ''sshd_bin'') (\<lambda>sshd.
        rbind (look paths ''sshd_config'') (\<lambda>config.
        rbind (look paths ''ssh_bin'') (\<lambda>ssh.
        rbind (look paths ''ssh_key'') (\<lambda>key.
        Inr ([sshd, ''-D'', ''-e'', ''-f'', config, ''-p'', dec port, ''-o'', ''PidFile=/tmp/pq-hybrid-phase3-sshd.pid'',
              ''-o'', ''KexAlgorithms=sntrup761x25519-sha512@openssh.com,curve25519-sha256''],
             [ssh, ''-vvv'', ''-o'', ''KexAlgorithms=sntrup761x25519-sha512@openssh.com,curve25519-sha256'', ''-p'', dec port,
              ''-i'', key, ''-o'', ''StrictHostKeyChecking=no'', ''-o'', ''UserKnownHostsFile=/dev/null'', ''root@127.0.0.1'',
              ''true''])))))
      else Inl (ValueError (''Unsupported implementation: '' @ impl)))"

definition condition_spec ::
    "string \<Rightarrow> string \<Rightarrow> nat \<Rightarrow> environ \<Rightarrow> string \<Rightarrow> paths \<Rightarrow> ScenarioSpec result" where
  "condition_spec impl condition rep env out_dir paths =
     rbind (look PORTS impl) (\<lambda>port.
     rbind (condition_commands impl condition port paths) (\<lambda>(server_cmd, client_cmd).
     Inr ((new_spec impl ''condition'' rep condition server_cmd client_cmd port env out_dir)
       \<lparr>sp_capture_traffic := True\<rparr>)))"

definition CLASSICAL :: "string \<rightharpoonup> string \<times> string" where
  "CLASSICAL = [''openssl'' \<mapsto> (''-groups'', ''X25519:P-256''), ''boringssl'' \<mapsto> (''-curves'', ''X25519:P-256''),
     ''openssh'' \<mapsto> (''-o'', ''KexAlgorithms=curve25519-sha256'')]"

definition group_list_commands :: "string \<Rightarrow> string \<Rightarrow> string \<Rightarrow> paths \<Rightarrow> (string list \<times> string list) result" where
  "group_list_commands impl flag val paths =
     (if impl = ''openssl'' then
        rbind (look paths ''openssl_bin'') (\<lambda>openssl_bin.
        rbind (look paths ''openssl_cert'') (\<lambda>cert.
        Inr ([openssl_bin, ''s_server'', ''-tls1_3'', ''-www'', ''-provider'', ''default'', ''-provider'', ''oqsprovider'',
              ''-accept'', ''8443'', ''-cert'', cert, ''-groups'', ''X25519MLKEM768:X25519''],
             [openssl_bin, ''s_client'', ''-tls1_3'', ''-state'', ''-provider'', ''default'', ''-provider'', ''oqsprovider'',
              ''-connect'', ''127.0.0.1:8443'', flag, val])))
      else if impl = ''boringssl'' then
        rbind (look paths ''bssl_bin'') (\<lambda>bssl_bin.
        rbind (look paths ''boring_cert'') (\<lambda>cert.
        rbind (look paths ''boring_key'') (\<lambda>key.
        Inr ([bssl_bin, ''server'', ''-accept'', ''8444'', ''-curves'', ''X25519Kyber768Draft00:X25519'', ''-min-version'',
              ''tls1.3'', ''-max-version'', ''tls1.3'', ''-cert'', cert, ''-key'', key, ''-loop''],
             [bssl_bin, ''client'', ''-connect'', ''127.0.0.1:8444'', ''-min-version'', ''tls1.3'', ''-max-version'',
              ''tls1.3'', flag, val]))))
      else if impl = ''openssh'' then
        rbind (look paths ''sshd_bin'') (\<lambda>sshd.
        rbind (look paths ''sshd_config'') (\<lambda>config.
        rbind (look paths ''ssh_bin'') (\<lambda>ssh.
        rbind (look paths ''ssh_key'') (\<lambda>key.
        Inr ([sshd, ''-D'', ''-e'', ''-f'', config, ''-p'', ''2223'', ''-o'', ''PidFile=/tmp/pq-hybrid-phase3-sshd.pid'',
              ''-o'', ''KexAlgorithms=sntrup761x25519-sha512@openssh.com,curve25519-sha256''],
             [ssh, ''-vvv'', flag, val, ''-p'', ''2223'', ''-i'', key, ''-o'', ''StrictHostKeyChecking=no'', ''-o'',
              ''UserKnownHostsFile=/dev/null'', ''root@127.0.0.1'', ''true''])))))
      else Inl (ValueError (''Unsupported implementation: '' @ impl)))"

definition group_list_port :: "string \<rightharpoonup> nat" where
  "group_list_port = [''openssl'' \<mapsto> 8443, ''boringssl'' \<mapsto> 8444, ''openssh'' \<mapsto> 2223]"

definition group_list_spec :: "string \<Rightarrow> nat \<Rightarrow> environ \<Rightarrow> string \<Rightarrow> paths \<Rightarrow> ScenarioSpec result" where
  "group_list_spec impl rep env out_dir paths =
     rbind (look CLASSICAL impl) (\<lambda>(flag, val).
     rbind (group_list_commands impl flag val paths) (\<lambda>(server_cmd, client_cmd).
     rbind (look group_list_port impl) (\<lambda>port.
     Inr ((new_spec impl ''group-list'' rep ''default'' server_cmd client_cmd port env out_dir)
       \<lparr>sp_capture_traffic := True\<rparr>))))"

text \<open>\<open>path.open("a")\<close> and one \<open>write\<close>.\<close>

definition append_file :: "string \<Rightarrow> string \<Rightarrow> files \<Rightarrow> files" where
  "append_file path line fs = fs(path \<mapsto> (case fs path of None \<Rightarrow> line | Some old \<Rightarrow> old @ line))"

definition mutation_line :: "string \<Rightarrow> string \<Rightarrow> string \<Rightarrow> string \<Rightarrow> string" where
  "mutation_line evt group_id before after =
     ''event='' @ evt @ '' group_id='' @ group_id @ '' before_sha256='' @ before @ '' after_sha256='' @ after @ [CHR 0x0A]"

definition logged_mutator ::
    "(bytes \<Rightarrow> string) \<Rightarrow> string \<Rightarrow> string \<Rightarrow> (bytes \<Rightarrow> bytes result) \<Rightarrow> files mutator" where
  "logged_mutator sha256 path group_id transform data fs =
     (case transform data of
        Inl e \<Rightarrow> if is_ValueError e then Inr (data, fs) else Inl e
      | Inr forged \<Rightarrow>
        Inr (forged, if forged \<noteq> data
          then append_file path (mutation_line ''binding_mutation'' group_id (sha256 data) (sha256 forged)) fs else fs))"

text \<open>The choices of \<open>binding_spec\<close>: commands, ports, the name of the group and the transformation.\<close>

definition binding_choice ::
    "string \<Rightarrow> paths \<Rightarrow> (string list \<times> string list \<times> nat \<times> nat \<times> string \<times> (bytes \<Rightarrow> bytes result)) result" where
  "binding_choice impl paths =
     (if impl = ''openssl'' then
        rbind (look paths ''openssl_bin'') (\<lambda>openssl_bin.
        rbind (look paths ''openssl_cert'') (\<lambda>cert.
        Inr ([openssl_bin, ''s_server'', ''-tls1_3'', ''-www'', ''-provider'', ''default'', ''-provider'', ''oqsprovider'',
              ''-accept'', ''8445'', ''-cert'', cert, ''-groups'', ''X25519MLKEM768''],
             [openssl_bin, ''s_client'', ''-tls1_3'', ''-state'', ''-provider'', ''default'', ''-provider'', ''oqsprovider'',
              ''-connect'', ''127.0.0.1:9443'', ''-groups'', ''X25519MLKEM768''],
             9443, 8445, ''0x11ec'', \<lambda>data. forge_pq_component data 0x11EC)))
      else if impl = ''boringssl'' then
        rbind (look paths ''bssl_bin'') (\<lambda>bssl_bin.
        rbind (look paths ''boring_cert'') (\<lambda>cert.
        rbind (look paths ''boring_key'') (\<lambda>key.
        Inr ([bssl_bin, ''server'', ''-accept'', ''8446'', ''-curves'', ''X25519Kyber768Draft00'', ''-min-version'',
              ''tls1.3'', ''-max-version'', ''tls1.3'', ''-cert'', cert, ''-key'', key, ''-loop''],
             [bssl_bin, ''client'', ''-connect'', ''127.0.0.1:9444'', ''-min-version'', ''tls1.3'', ''-max-version'',
              ''tls1.3'', ''-curves'', ''X25519Kyber768Draft00''],
             9444, 8446, ''0x6399'', \<lambda>data. forge_pq_component data 0x6399))))
      else if impl = ''openssh'' then
        rbind (look paths ''sshd_bin'') (\<lambda>sshd.
        rbind (look paths ''sshd_config'') (\<lambda>config.
        rbind (look paths ''ssh_bin'') (\<lambda>ssh.
        rbind (look paths ''ssh_key'') (\<lambda>key.
        Inr ([sshd, ''-D'', ''-e'', ''-f'', config, ''-p'', ''2224'', ''-o'',
              ''PidFile=/tmp/pq-hybrid-phase3-binding-sshd.pid''],
             [ssh, ''-vvv'', ''-o'', ''KexAlgorithms=sntrup761x25519-sha512@openssh.com'', ''-p'', ''2225'', ''-i'', key, ''-o'',
              ''StrictHostKeyChecking=no'', ''-o'', ''UserKnownHostsFile=/dev/null'', ''root@127.0.0.1'', ''true''],
             2225, 2224, ''sntrup761x25519-sha512@openssh.com'', forge_ssh_pq_component)))))
      else Inl (ValueError (''Unsupported implementation: '' @ impl)))"

definition binding_spec ::
    "(bytes \<Rightarrow> string) \<Rightarrow> string \<Rightarrow> nat \<Rightarrow> environ \<Rightarrow> string \<Rightarrow> paths \<Rightarrow> ScenarioSpec result" where
  "binding_spec sha256 impl rep env out_dir paths =
     (let identifier = run_id impl ''binding'' rep ''default'';
          proxy_log = path_join out_dir (identifier @ ''-proxy.log'') in
      rbind (binding_choice impl paths) (\<lambda>(server_cmd, client_cmd, listen_port, upstream_port, group_id, transform).
      Inr ((new_spec impl ''binding'' rep ''default'' server_cmd client_cmd listen_port env out_dir)
        \<lparr>sp_server_listen_port := Some upstream_port, sp_proxy_upstream_port := Some upstream_port,
         sp_proxy_mutate := Some (logged_mutator sha256 proxy_log group_id transform), sp_proxy_log := Some proxy_log,
         sp_capture_traffic := True\<rparr>)))"

end
