(* ===== verification/Verify_Applied.thy ===== *)
theory Verify_Applied
  imports Fault_Scenarios
begin

text \<open>
  Model of \<open>tools/faultinject/verify_applied.py\<close>: deciding from the artifacts of a run whether its
  manipulation took place. \<open>tshark\<close> is an argument: the exit code and the two outputs it gives for a
  command line. Reading a file that does not exist raises. \<open>int_base0\<close> is \<open>int(value, 0)\<close>.

  The main theorem joins the whole path of a mutation: for a run through the proxy with the logging
  mutator, the log verifies exactly the runs in which the server got a changed payload.
\<close>

section \<open>Definitions\<close>

definition lstrip :: "string \<Rightarrow> string" where "lstrip s = dropWhile is_space s"
definition strip :: "string \<Rightarrow> string" where "strip s = rev (lstrip (rev (lstrip s)))"

type_synonym tshark = "string list \<Rightarrow> int \<times> string \<times> string"

text \<open>\<open>s.split(c, 1)\<close> of a string that contains \<open>c\<close>.\<close>

definition split_once :: "char \<Rightarrow> string \<Rightarrow> string \<times> string" where
  "split_once c s = (takeWhile (\<lambda>x. x \<noteq> c) s, drop 1 (dropWhile (\<lambda>x. x \<noteq> c) s))"

definition supported_groups :: "tshark \<Rightarrow> string \<Rightarrow> string set result" where
  "supported_groups tshark pcap =
     (case tshark [''tshark'', ''-r'', pcap, ''-Y'', ''tls.handshake.extensions_supported_group'', ''-T'', ''fields'', ''-e'',
        ''tls.handshake.extensions_supported_group''] of (returncode, stdout, stderr) \<Rightarrow>
      if returncode \<noteq> 0
      then Inl (RuntimeError (if strip stderr \<noteq> [] then strip stderr else ''tshark could not read pcap''))
      else Inr (set (filter (\<lambda>v. v \<noteq> []) (concat (map (split_char CHR '','') (splitlines stdout))))))"

definition digit_of :: "nat \<Rightarrow> char \<Rightarrow> nat option" where
  "digit_of b c = (let n = of_char c :: nat;
       d = (if 48 \<le> n \<and> n \<le> 57 then n - 48 else if 97 \<le> n \<and> n \<le> 122 then n - 87
            else if 65 \<le> n \<and> n \<le> 90 then n - 55 else 99) in
     if d < b then Some d else None)"

text \<open>Digits of a base with single underscores between them.\<close>

definition digits_value :: "nat \<Rightarrow> string \<Rightarrow> nat option" where
  "digits_value b s =
     (let parts = split_char CHR ''_'' s in
      if list_all (\<lambda>p. p \<noteq> [] \<and> list_all (\<lambda>c. digit_of b c \<noteq> None) p) parts
      then Some (foldl (\<lambda>n c. n * b + (case digit_of b c of Some d \<Rightarrow> d | None \<Rightarrow> 0)) 0 (concat parts))
      else None)"

definition unsigned_base0 :: "string \<Rightarrow> nat option" where
  "unsigned_base0 s =
     (case s of
        CHR ''0'' # x # rest \<Rightarrow>
          (let b = (if lower_char x = CHR ''x'' then 16 else if lower_char x = CHR ''o'' then 8
                    else if lower_char x = CHR ''b'' then 2 else 0) in
           if b \<noteq> 0 then digits_value b (case rest of CHR ''_'' # r \<Rightarrow> r | _ \<Rightarrow> rest)
           else (case digits_value 10 s of Some 0 \<Rightarrow> Some 0 | _ \<Rightarrow> None))
      | _ \<Rightarrow> digits_value 10 s)"

definition int_base0 :: "string \<Rightarrow> int result" where
  "int_base0 text =
     (let s = strip text;
          (sign, body) = (case s of CHR ''-'' # r \<Rightarrow> (-1, r) | CHR ''+'' # r \<Rightarrow> (1, r) | _ \<Rightarrow> (1, s)) in
      case unsigned_base0 body of Some n \<Rightarrow> Inr (sign * int n)
      | None \<Rightarrow> Inl (ValueError (''invalid literal for int() with base 0: '' @ text)))"

definition ids :: "string \<Rightarrow> int list result" where
  "ids raw = rmap int_base0 (filter (\<lambda>v. v \<noteq> []) (split_char CHR '','' raw))"

definition client_hello_groups :: "tshark \<Rightarrow> string \<Rightarrow> (int list \<times> int list) list result" where
  "client_hello_groups tshark pcap =
     (case tshark [''tshark'', ''-r'', pcap, ''-Y'', ''tls.handshake.type==1'', ''-T'', ''fields'', ''-e'',
        ''tls.handshake.extensions_supported_group'', ''-e'', ''tls.handshake.extensions_key_share_group''] of
        (returncode, stdout, stderr) \<Rightarrow>
      if returncode \<noteq> 0
      then Inl (RuntimeError (if strip stderr \<noteq> [] then strip stderr else ''tshark could not read pcap''))
      else rmap (\<lambda>line. case split_once CHR 0x09 line of (a, b) \<Rightarrow> rbind (ids a) (\<lambda>x. rbind (ids b) (\<lambda>y. Inr (x, y))))
             (filter (\<lambda>line. CHR 0x09 \<in> set line) (splitlines stdout)))"

definition verify_group_list :: "tshark \<Rightarrow> string \<Rightarrow> string \<Rightarrow> bool result" where
  "verify_group_list tshark run_pcap baseline_pcap =
     rbind (supported_groups tshark run_pcap) (\<lambda>run_groups.
     rbind (supported_groups tshark baseline_pcap) (\<lambda>baseline_groups.
       Inr (run_groups \<noteq> {} \<and> baseline_groups \<noteq> {} \<and> run_groups \<noteq> baseline_groups)))"

definition read_text :: "files \<Rightarrow> string \<Rightarrow> string result" where
  "read_text fs path = (case fs path of None \<Rightarrow> Inl (OSError (''No such file or directory: '' @ path)) | Some t \<Rightarrow> Inr t)"

definition verify_ssh_group_list :: "files \<Rightarrow> string \<Rightarrow> string \<Rightarrow> bool result" where
  "verify_ssh_group_list fs run_log baseline_log =
     rbind (read_text fs run_log) (\<lambda>t. rbind (parse_group ''openssh'' t) (\<lambda>run_group.
     rbind (read_text fs baseline_log) (\<lambda>t. rbind (parse_group ''openssh'' t) (\<lambda>baseline_group.
       Inr (run_group \<noteq> None \<and> baseline_group \<noteq> None \<and> run_group \<noteq> baseline_group)))))"

text \<open>The dictionary of a log line; a later field of the same name wins.\<close>

definition line_fields :: "string \<Rightarrow> (string \<rightharpoonup> string)" where
  "line_fields line = map_of (rev (map (split_once CHR ''='') (filter (\<lambda>f. CHR ''='' \<in> set f) (split_ws line))))"

definition truthy :: "string option \<Rightarrow> bool" where "truthy v \<longleftrightarrow> v \<noteq> None \<and> v \<noteq> Some []"

definition binding_line :: "string \<Rightarrow> bool" where
  "binding_line line = (let fields = line_fields line in
     fields ''event'' = Some ''binding_mutation'' \<and> truthy (fields ''before_sha256'') \<and> truthy (fields ''after_sha256'') \<and>
     fields ''before_sha256'' \<noteq> fields ''after_sha256'')"

definition verify_binding :: "files \<Rightarrow> string \<Rightarrow> bool result" where
  "verify_binding fs proxy_log = rbind (read_text fs proxy_log) (\<lambda>t. Inr (list_ex binding_line (splitlines t)))"

definition strip_line :: "string \<Rightarrow> bool" where
  "strip_line line = (let fields = line_fields line in
     fields ''event'' = Some ''strip_mutation'' \<and> fields ''before_sha256'' \<noteq> fields ''after_sha256'')"

text \<open>\<open>output_dir / record.artifacts[key]\<close> of an artifact that is a file name.\<close>

definition artifact_path :: "RunRecord \<Rightarrow> string \<Rightarrow> string \<Rightarrow> string result" where
  "artifact_path rec output_dir key =
     rbind (look (map_of (artifacts rec)) key) (\<lambda>j. rbind (as_str j) (\<lambda>name. Inr (path_join output_dir name)))"

definition verify_condition :: "tshark \<Rightarrow> files \<Rightarrow> RunRecord \<Rightarrow> string \<Rightarrow> bool result" where
  "verify_condition tshark fs rec output_dir =
     (if rec_condition rec = ''silent-downgrade'' then
        rbind (artifact_path rec output_dir ''pcap'') (\<lambda>pcap. rbind (client_hello_groups tshark pcap) (\<lambda>groups.
        Inr (list_ex (\<lambda>(advertised, key_shares).
          list_ex (\<lambda>g. g = 0x11EC \<or> g = 0x6399) advertised \<and> key_shares \<noteq> [] \<and> hd key_shares = 0x001D) groups)))
      else if rec_condition rec = ''onpath-strip'' then
        rbind (artifact_path rec output_dir ''proxy_log'') (\<lambda>log. rbind (read_text fs log) (\<lambda>t.
        Inr (list_ex strip_line (splitlines t))))
      else Inr True)"

definition mark :: "RunRecord \<Rightarrow> bool \<Rightarrow> RunRecord" where
  "mark rec verified = rec\<lparr>manipulation_verified := verified\<rparr>"

section \<open>Reading back a log line\<close>

lemma words_acc_append: "(\<forall>c \<in> set w. \<not> is_space c) \<Longrightarrow> words_acc acc (w @ s) = words_acc (acc @ w) s"
  by (induction w arbitrary: acc) auto

lemma split_ws_words:
  "(\<forall>w \<in> set ws. w \<noteq> [] \<and> (\<forall>c \<in> set w. \<not> is_space c)) \<Longrightarrow> split_ws (join '' '' ws) = ws"
proof (induction "'' ''" ws rule: join.induct)
  case (2 x)
  then show ?case using words_acc_append [of x "[]" "[]"] by (simp add: split_ws_def)
next
  case (3 x y ys)
  then show ?case using words_acc_append [of x "[]" "CHR '' '' # join '' '' (y # ys)"]
    by (simp add: split_ws_def)
qed (simp add: split_ws_def)

lemma lines_acc_line:
  "(\<forall>c \<in> set l. \<not> is_linebreak c) \<Longrightarrow>
   lines_acc False acc (l @ CHR 0x0A # rest) = (acc @ l) # lines_acc False [] rest"
  by (induction l arbitrary: acc) (auto simp: is_linebreak_def)

lemma splitlines_line: "(\<forall>c \<in> set l. \<not> is_linebreak c) \<Longrightarrow> splitlines (l @ [CHR 0x0A]) = [l]"
  by (simp add: splitlines_def lines_acc_line)

lemma linebreak_space: "is_linebreak c \<Longrightarrow> is_space c"
  by (auto simp: is_linebreak_def is_space_def Let_def)

abbreviation word :: "string \<Rightarrow> bool" where "word w \<equiv> w \<noteq> [] \<and> (\<forall>c \<in> set w. \<not> is_space c)"

lemma mutation_line_words:
  "mutation_line evt gid b a =
     join '' '' [''event='' @ evt, ''group_id='' @ gid, ''before_sha256='' @ b, ''after_sha256='' @ a] @ [CHR 0x0A]"
  by (simp add: mutation_line_def)

lemma mutation_line_read:
  assumes "word evt" "word gid" "word b" "word a"
  shows "\<exists>l. splitlines (mutation_line evt gid b a) = [l] \<and> line_fields l ''event'' = Some evt \<and>
     line_fields l ''before_sha256'' = Some b \<and> line_fields l ''after_sha256'' = Some a"
proof -
  let ?ws = "[''event='' @ evt, ''group_id='' @ gid, ''before_sha256='' @ b, ''after_sha256='' @ a]"
  have ok: "\<forall>w \<in> set ?ws. word w" using assms by (auto simp: is_space_def)
  have "\<forall>c \<in> set (join '' '' ?ws). \<not> is_linebreak c"
    using ok linebreak_space by (auto simp: is_linebreak_def)
  then have "splitlines (mutation_line evt gid b a) = [join '' '' ?ws]"
    unfolding mutation_line_words by (rule splitlines_line)
  moreover have "split_ws (join '' '' ?ws) = ?ws" by (rule split_ws_words [OF ok])
  ultimately show ?thesis by (auto simp: line_fields_def split_once_def simp del: join.simps)
qed

section \<open>The log of a proxied run\<close>

lemma ve_only_forge_ssh: "ve_only (forge_ssh_pq_component packet)"
proof -
  have v: "ve_only (find_kex_ecdh_init packet)"
    by (auto simp: find_kex_ecdh_init_def byte_at_def Let_def intro!: ve_only_rbind)
  show ?thesis
  proof (cases "find_kex_ecdh_init packet")
    case (Inr located)
    show ?thesis
    proof (cases located)
      case (Some x)
      obtain off n where x: "x = (off, n)" by force
      show ?thesis
      proof (cases "n < SNTRUP761_PUBLICKEY_BYTES + SSH_X25519_BYTES")
        case False
        obtain "off + n \<le> length packet" by (rule find_kex_ecdh_initE [of packet off n]) (use Inr Some x in auto)
        then have "\<forall>i \<in> set [off..<off + SNTRUP761_PUBLICKEY_BYTES]. i < length packet" using False by auto
        then obtain p' where "xor_loop [off..<off + SNTRUP761_PUBLICKEY_BYTES] packet = Inr p'" using xor_loop_Inr by blast
        then show ?thesis using Inr Some x False by (simp add: forge_ssh_pq_component_def)
      qed (use Inr Some x in \<open>simp add: forge_ssh_pq_component_def\<close>)
    qed (use Inr in \<open>simp add: forge_ssh_pq_component_def\<close>)
  qed (use v in \<open>simp add: forge_ssh_pq_component_def\<close>)
qed

lemma binding_transform_ve_only:
  assumes "binding_choice impl paths = Inr (server_cmd, client_cmd, listen_port, upstream_port, gid, transform)"
  shows "ve_only (transform data)" "word gid"
proof -
  have c: "gid = ''0x11ec'' \<and> transform = (\<lambda>data. forge_pq_component data 0x11EC) \<or>
      gid = ''0x6399'' \<and> transform = (\<lambda>data. forge_pq_component data 0x6399) \<or>
      gid = ''sntrup761x25519-sha512@openssh.com'' \<and> transform = forge_ssh_pq_component"
    using assms by (auto simp: binding_choice_def res_simps split: if_splits)
  have "ve_only (forge_pq_component data 0x11EC)" "ve_only (forge_pq_component data 0x6399)"
    using ve_only_forge [of "0x11EC" 0 1184] ve_only_forge [of "0x6399" X25519_BYTES 1184] by (simp_all add: PQ_COMPONENTS_def)
  then show "ve_only (transform data)" using c ve_only_forge_ssh by auto
  show "word gid" using c by (auto simp: is_space_def)
qed

lemma logged_mutator_Inr: "ve_only (transform data) \<Longrightarrow> \<exists>r. logged_mutator sha256 path gid transform data fs = Inr r"
  by (cases "transform data") (auto simp: logged_mutator_def)

text \<open>
  Both logging mutators of the program are this function; it writes exactly one line in the life of
  a proxied connection, for the payload that was changed.
\<close>

definition logging ::
    "string \<Rightarrow> (bytes \<Rightarrow> string) \<Rightarrow> string \<Rightarrow> string \<Rightarrow> (bytes \<Rightarrow> bytes result) \<Rightarrow> files mutator" where
  "logging evt sha256 path gid transform data fs =
     (case transform data of
        Inl e \<Rightarrow> if is_ValueError e then Inr (data, fs) else Inl e
      | Inr forged \<Rightarrow>
        Inr (forged, if forged \<noteq> data
          then append_file path (mutation_line evt gid (sha256 data) (sha256 forged)) fs else fs))"

lemma logged_mutator_logging: "logged_mutator sha256 path gid transform = logging ''binding_mutation'' sha256 path gid transform"
  by (intro ext) (simp add: logged_mutator_def logging_def)

lemma logging_stream:
  "mutate_stream (logging evt sha256 path gid transform) cs fs = Inr (outs, b, fs') \<Longrightarrow>
   (if b then \<exists>c f. c \<in> set cs \<and> transform c = Inr f \<and> f \<noteq> c \<and>
      fs' = append_file path (mutation_line evt gid (sha256 c) (sha256 f)) fs
    else fs' = fs)"
proof (induction cs arbitrary: outs)
  case (Cons c cs)
  obtain f m where f: "logging evt sha256 path gid transform c fs = Inr (f, m)"
    using Cons.prems by (auto simp: res_simps)
  show ?case
  proof (cases "f = c")
    case True
    then have "m = fs" using f by (auto simp: logging_def split: sum.splits if_splits)
    then obtain gs where "mutate_stream (logging evt sha256 path gid transform) cs fs = Inr (gs, b, fs')"
      using Cons.prems f True by (auto simp: res_simps)
    from Cons.IH [OF this] show ?thesis by (cases b) auto
  next
    case False
    then have "b" "fs' = m" using Cons.prems f by auto
    moreover have "transform c = Inr f" "m = append_file path (mutation_line evt gid (sha256 c) (sha256 f)) fs"
      using f False by (auto simp: logging_def split: sum.splits if_splits)
    ultimately show ?thesis using False by auto
  qed
qed simp

lemma logging_log:
  assumes "mutate_stream (logging evt sha256 path gid transform) cs fs = Inr (outs, b, fs')" "fs path = None"
    and "word evt" "word gid" "\<And>d. word (sha256 d)"
    and "\<And>c f. c \<in> set cs \<Longrightarrow> transform c = Inr f \<Longrightarrow> f \<noteq> c \<Longrightarrow> sha256 c \<noteq> sha256 f"
  shows "if outs \<noteq> cs then \<exists>t l x y. fs' path = Some t \<and> splitlines t = [l] \<and> line_fields l ''event'' = Some evt \<and>
      line_fields l ''before_sha256'' = Some x \<and> line_fields l ''after_sha256'' = Some y \<and> x \<noteq> [] \<and> y \<noteq> [] \<and> x \<noteq> y
    else fs' = fs"
proof -
  have mut: "outs \<noteq> cs \<longleftrightarrow> b"
    using mutate_stream_changes_one [OF assms(1)] by (auto split: if_splits)
  show ?thesis
  proof (cases b)
    case True
    then obtain c f where c: "c \<in> set cs" "transform c = Inr f" "f \<noteq> c"
      "fs' = append_file path (mutation_line evt gid (sha256 c) (sha256 f)) fs"
      using logging_stream [OF assms(1)] by auto
    obtain l where l: "splitlines (mutation_line evt gid (sha256 c) (sha256 f)) = [l]"
      "line_fields l ''event'' = Some evt" "line_fields l ''before_sha256'' = Some (sha256 c)"
      "line_fields l ''after_sha256'' = Some (sha256 f)"
      using mutation_line_read [OF assms(3,4,5,5)] by blast
    have "fs' path = Some (mutation_line evt gid (sha256 c) (sha256 f))"
      using c(4) assms(2) by (simp add: append_file_def)
    then show ?thesis using True mut l assms(5) assms(6) [OF c(1-3)] by auto
  next
    case False
    then show ?thesis using logging_stream [OF assms(1)] mut by simp
  qed
qed

text \<open>
  C22. The proxy log tells the truth about a run of a binding scenario: started without a log, with
  digests that are words and tell the changed payload from the original, the run leaves a log that
  \<open>verify_binding\<close> accepts exactly if the server got a changed payload. A run without a mutation
  leaves no log at all, and then \<open>verify_binding\<close> does not return \<open>False\<close> but raises.
\<close>

theorem binding_log_verifies:
  assumes "binding_choice impl paths = Inr (server_cmd, client_cmd, listen_port, upstream_port, gid, transform)"
    and "run_proxy listening connected first rounds (logged_mutator sha256 path gid transform) fs = (ready, Inr (s, fin))"
    and "fs path = None" "\<And>d. word (sha256 d)"
    and "\<And>c f. c \<in> set (from_client s) \<Longrightarrow> transform c = Inr f \<Longrightarrow> f \<noteq> c \<Longrightarrow> sha256 c \<noteq> sha256 f"
  shows "verify_binding (mstate s) path =
    (if to_upstream s \<noteq> from_client s then Inr True else Inl (OSError (''No such file or directory: '' @ path)))"
proof -
  have st: "mutate_stream (logging ''binding_mutation'' sha256 path gid transform) (from_client s) fs =
      Inr (to_upstream s, mutated s, mstate s)"
    using run_proxy_inv [OF assms(2)] by (simp add: proxy_inv_def logged_mutator_logging)
  have "word ''binding_mutation''" by (simp add: is_space_def)
  from logging_log [OF st assms(3) this binding_transform_ve_only(2) [OF assms(1)] assms(4,5)] assms(3)
  show ?thesis by (auto simp: verify_binding_def read_text_def binding_line_def truthy_def split: if_splits)
qed

lemma forge_changes:
  assumes "forge_pq_component r g = Inr r'"
  shows "r' \<noteq> r"
proof -
  obtain po pl shares off n where *: "PQ_COMPONENTS g = Some (po, pl)" "xor_loop [off + po..<off + po + pl] r = Inr r'"
    by (rule forge_pq_componentE [OF assms])
  have pl: "0 < pl" using *(1) by (auto simp: PQ_COMPONENTS_def split: if_splits)
  then have i: "off + po \<in> set [off + po..<off + po + pl]" by simp
  have "off + po < length r"
  proof (rule ccontr)
    assume "\<not> off + po < length r"
    then show False using *(2) pl by (simp add: upt_conv_Cons)
  qed
  then have "r' ! (off + po) \<noteq> r ! (off + po)"
    using xor_loop_nth [OF _ *(2), of "off + po"] i byte_xor_FF_neq by simp
  then show ?thesis by auto
qed

definition demo_paths :: paths where
  "demo_paths = [''openssl_bin'' \<mapsto> ''openssl'', ''openssl_cert'' \<mapsto> ''server.pem'']"

theorem binding_log_verifies_witness:
  "\<exists>sha256 s. run_proxy (Inr ()) (Inr ()) (Inr (sample_hello demo_hybrid_exts), None) [[]]
       (logged_mutator sha256 ''log'' ''0x11ec'' (\<lambda>data. forge_pq_component data 0x11EC)) Map.empty = (True, Inr (s, True)) \<and>
     to_upstream s \<noteq> from_client s \<and> verify_binding (mstate s) ''log'' = Inr True"
proof -
  let ?h = "sample_hello demo_hybrid_exts"
  let ?t = "\<lambda>data. forge_pq_component data 0x11EC"
  define sha where "sha = (\<lambda>d. if d = ?h then ''a'' else ''b'')"
  obtain r' where r': "forge_pq_component ?h 0x11EC = Inr r'" using demo_forge by blast
  have ne: "r' \<noteq> ?h" by (rule forge_changes [OF r'])
  obtain h0 where h0: "?h \<noteq> []" by (simp add: sample_hello_def)
  have mut: "logged_mutator sha ''log'' ''0x11ec'' ?t ?h Map.empty =
      Inr (r', append_file ''log'' (mutation_line ''binding_mutation'' ''0x11ec'' (sha ?h) (sha r')) Map.empty)"
    using r' ne by (simp add: logged_mutator_def)
  obtain s where s: "run_proxy (Inr ()) (Inr ()) (Inr ?h, None) [[]] (logged_mutator sha ''log'' ''0x11ec'' ?t) Map.empty =
      (True, Inr (s, True))" "from_client s = [?h]" "to_upstream s = [r']"
    using h0 mut ne by (simp add: run_proxy_def first_payload_def start_state_def)
  have ch: "\<exists>sc cc. binding_choice ''openssl'' demo_paths = Inr (sc, cc, 9443, 8445, ''0x11ec'', ?t)"
    by (simp add: binding_choice_def look_def demo_paths_def)
  have w: "word (sha d)" for d by (simp add: sha_def is_space_def)
  have "verify_binding (mstate s) ''log'' =
      (if to_upstream s \<noteq> from_client s then Inr True else Inl (OSError (''No such file or directory: '' @ ''log'')))"
  proof -
    obtain sc cc where "binding_choice ''openssl'' demo_paths = Inr (sc, cc, 9443, 8445, ''0x11ec'', ?t)" using ch by blast
    then show ?thesis
    proof (rule binding_log_verifies [OF _ s(1)])
      show "sha c \<noteq> sha f" if "c \<in> set (from_client s)" "?t c = Inr f" "f \<noteq> c" for c f
        using that s(2) by (simp add: sha_def)
    qed (use w in auto)
  qed
  then show ?thesis using s ne by (intro exI [of _ sha] exI [of _ s]) simp
qed

end
