(* ===== verification/PCAP_Hello.thy ===== *)
theory PCAP_Hello
  imports TLS_Strip
begin

text \<open>
  Model of \<open>tools/faultinject/pcap_hello.py\<close>: reading the hellos of a capture. \<open>extensions_for\<close> is
  the generator \<open>_extensions\<close> together with the \<open>for\<close> loop that consumes it (the body runs between
  two yields); \<open>client_hello\<close>, \<open>server_hello\<close>, \<open>summarize_hellos\<close> and \<open>client_precondition\<close> are the
  functions of the same names. \<open>handshake_suffixes\<close> is \<open>capture[match.start():]\<close> for the matches
  of the regular expression \<open>\x16\x03[\x01\x03]\<close> that \<open>finditer\<close> yields.

  The theorems tie the reader to the mutator: what a capture shows of a stripped hello is the
  original hello without the group; the reader never raises; and it finds every hello.
\<close>

section \<open>Definitions\<close>

definition HRR_RANDOM :: bytes where
  "HRR_RANDOM = [0xcf, 0x21, 0xad, 0x74, 0xe5, 0x9a, 0x61, 0x11, 0xbe, 0x1d, 0x8c, 0x02, 0x1e, 0x65, 0xb8, 0x91,
     0xc2, 0xa2, 0x11, 0x16, 0x7a, 0xbb, 0x8c, 0x5e, 0x07, 0x9e, 0x09, 0xe2, 0xc8, 0xa8, 0x33, 0x9c]"

definition GROUP_NAMES :: "nat \<rightharpoonup> string" where
  "GROUP_NAMES = [0x001D \<mapsto> ''X25519'', 0x11EC \<mapsto> ''X25519MLKEM768'', 0x6399 \<mapsto> ''X25519Kyber768Draft00'']"

type_synonym client_hello = "nat list \<times> nat list"
type_synonym server_hello = "bool \<times> nat option"

record HelloSummary =
  client_hellos :: "client_hello list"
  server_hellos :: "server_hello list"

definition hrr_count :: "HelloSummary \<Rightarrow> nat" where
  "hrr_count summary = length (filter fst (server_hellos summary))"

definition server_hello_count :: "HelloSummary \<Rightarrow> nat" where
  "server_hello_count summary = length (filter (\<lambda>h. \<not> fst h) (server_hellos summary))"

definition final_group :: "HelloSummary \<Rightarrow> nat option" where
  "final_group summary =
     (let real = map snd (filter (\<lambda>h. \<not> fst h) (server_hellos summary)) in
      if real \<noteq> [] then last real else None)"

definition group_name :: "nat option \<Rightarrow> string option" where
  "group_name code = (case code of None \<Rightarrow> None
     | Some c \<Rightarrow> Some (case GROUP_NAMES c of Some n \<Rightarrow> n | None \<Rightarrow> ''0x'' @ hex04 c))"

function extensions_for :: "(nat \<Rightarrow> bytes \<Rightarrow> 's \<Rightarrow> 's result) \<Rightarrow> bytes \<Rightarrow> nat \<Rightarrow> nat \<Rightarrow> 's \<Rightarrow> 's result" where
  "extensions_for body data e cursor st =
     (if cursor < e then
        rbind (read_u16 data cursor) (\<lambda>ext_type.
        rbind (read_u16 data (cursor + 2)) (\<lambda>ext_len.
        if cursor + 4 + ext_len > e then Inl (ValueError ''truncated TLS extension'')
        else rbind (body ext_type (pyslice data (cursor + 4) (cursor + 4 + ext_len)) st) (\<lambda>st.
          extensions_for body data e (cursor + (4 + ext_len)) st)))
      else Inr st)"
  by pat_completeness auto
termination
  by (relation "measure (\<lambda>(body, data, e, c, s). e - c)") auto

function share_groups_loop :: "bytes \<Rightarrow> nat \<Rightarrow> nat list \<Rightarrow> nat list result" where
  "share_groups_loop payload cursor shares =
     (if cursor < length payload then
        rbind (read_u16 payload cursor) (\<lambda>g.
        rbind (read_u16 payload (cursor + 2)) (\<lambda>n.
          share_groups_loop payload (cursor + (4 + n)) (shares @ [g])))
      else Inr shares)"
  by pat_completeness auto
termination
  by (relation "measure (\<lambda>(payload, c, s). length payload - c)") auto

declare extensions_for.simps [simp del] share_groups_loop.simps [simp del]

definition client_hello_body :: "nat \<Rightarrow> bytes \<Rightarrow> client_hello \<Rightarrow> client_hello result" where
  "client_hello_body ext_type payload st = (case st of (groups, shares) \<Rightarrow>
     if ext_type = TLS_SUPPORTED_GROUPS then
       rbind (rmap (read_u16 payload) (pyrange 2 (length payload) 2)) (\<lambda>groups. Inr (groups, shares))
     else if ext_type = TLS_KEY_SHARE then
       rbind (share_groups_loop payload 2 shares) (\<lambda>shares. Inr (groups, shares))
     else Inr (groups, shares))"

definition client_hello :: "bytes \<Rightarrow> client_hello result" where
  "client_hello record =
     rbind (client_hello_extensions record) (\<lambda>(start, e).
       extensions_for client_hello_body record e start ([], []))"

definition server_hello_body :: "nat \<Rightarrow> bytes \<Rightarrow> nat option \<Rightarrow> nat option result" where
  "server_hello_body ext_type payload grp =
     (if ext_type = TLS_KEY_SHARE then rbind (read_u16 payload 0) (\<lambda>g. Inr (Some g)) else Inr grp)"

definition server_hello :: "bytes \<Rightarrow> server_hello result" where
  "server_hello record =
     rbind (read_u16 record 3) (\<lambda>l. let record_end = 5 + l in
     if record_end > length record then Inl (ValueError ''not a complete ServerHello'') else
     rbind (byte_at record 5) (\<lambda>b5.
     if b5 \<noteq> 0x02 \<or> record_end < 47 then Inl (ValueError ''not a complete ServerHello'') else
     let random = pyslice record 11 43 in
     rbind (byte_at record 43) (\<lambda>sid.
     let cursor = 44 + sid; cursor = cursor + 3 in
     rbind (read_u16 record cursor) (\<lambda>n.
     let extensions_end = cursor + 2 + n in
     if extensions_end > record_end then Inl (ValueError ''truncated ServerHello extensions'') else
     rbind (extensions_for server_hello_body record extensions_end (cursor + 2) None) (\<lambda>grp.
       Inr (random = HRR_RANDOM, grp))))))"

fun handshake_suffixes :: "bytes \<Rightarrow> bytes list" where
  "handshake_suffixes (a # b # c # rest) =
     (if a = 0x16 \<and> b = 0x03 \<and> (c = 0x01 \<or> c = 0x03) then (a # b # c # rest) # handshake_suffixes rest
      else handshake_suffixes (b # c # rest))"
| "handshake_suffixes _ = []"

definition summarize_record :: "bytes \<Rightarrow> HelloSummary \<Rightarrow> HelloSummary result" where
  "summarize_record record summary =
     (if length record < 6 then Inr summary else
      let attempt = rbind (byte_at record 5) (\<lambda>b5.
        if b5 = 0x01 then rbind (client_hello record) (\<lambda>h.
          Inr (summary\<lparr>client_hellos := client_hellos summary @ [h]\<rparr>))
        else if b5 = 0x02 then rbind (server_hello record) (\<lambda>h.
          Inr (summary\<lparr>server_hellos := server_hellos summary @ [h]\<rparr>))
        else Inr summary) in
      case attempt of Inl e \<Rightarrow> if is_ValueError e then Inr summary else Inl e | Inr s \<Rightarrow> Inr s)"

fun summarize_loop :: "bytes list \<Rightarrow> HelloSummary \<Rightarrow> HelloSummary result" where
  "summarize_loop [] summary = Inr summary"
| "summarize_loop (r # rs) summary = rbind (summarize_record r summary) (summarize_loop rs)"

definition summarize_hellos :: "bytes \<Rightarrow> HelloSummary result" where
  "summarize_hellos capture =
     summarize_loop (handshake_suffixes capture) \<lparr>client_hellos = [], server_hellos = []\<rparr>"

definition client_precondition :: "HelloSummary \<Rightarrow> bool" where
  "client_precondition summary =
     (case client_hellos summary of [] \<Rightarrow> False
      | (groups, shares) # _ \<Rightarrow> {0x001D, 0x11EC} \<subseteq> set groups \<and> shares = [0x001D])"

section \<open>The generator loop is a walk\<close>

interpretation ext_iter: tlv_walk "extensions_for body" "\<lambda>data t off n. body t (pyslice data off (off + n))"
    "''truncated TLS extension''" for body
  by unfold_locales (subst extensions_for.simps, simp only: add.assoc)

lemma ve_only_share_groups_loop: "ve_only (share_groups_loop payload cursor shares)"
proof (induction payload cursor shares rule: share_groups_loop.induct)
  case (1 payload cursor shares)
  then show ?case by (subst share_groups_loop.simps) (auto intro!: ve_only_rbind)
qed

lemma ve_only_client_hello: "ve_only (client_hello record)"
proof -
  have "ve_only (client_hello_body t p st)" for t p st
    by (auto simp: client_hello_body_def split_def intro!: ve_only_rbind ve_only_rmap ve_only_share_groups_loop)
  then show ?thesis unfolding client_hello_def
    by (auto intro!: ve_only_rbind ve_only_client_hello_extensions ext_iter.walk_ve_only split: prod.splits)
qed

lemma ve_only_server_hello:
  assumes "6 \<le> length record"
  shows "ve_only (server_hello record)"
proof -
  have "ve_only (server_hello_body t p st)" for t p st by (auto simp: server_hello_body_def intro!: ve_only_rbind)
  then show ?thesis using assms unfolding server_hello_def Let_def
    by (auto intro!: ve_only_rbind ext_iter.walk_ve_only simp: byte_at_def)
qed

section \<open>What the reader sees of a decoded hello\<close>

text \<open>The reader keeps the last list of groups and all the groups of key shares.\<close>

fun read_ext :: "hello_ext \<Rightarrow> client_hello \<Rightarrow> client_hello" where
  "read_ext (Groups gs) st = (gs, snd st)"
| "read_ext (Shares ss) st = (fst st, snd st @ map fst ss)"
| "read_ext (Other t p) st = st"

lemma read_groups:
  assumes "list_all (\<lambda>g. g < 65536) gs"
  shows "rmap (read_u16 (groups_payload gs)) (pyrange 2 (length (groups_payload gs)) 2) = Inr gs"
proof -
  have "read_u16 (groups_payload gs) (2 + 2 * k) = Inr (gs ! k)" if "k < length gs" for k
  proof (rule read_u16_of_slice)
    have "pyslice (groups_payload gs) (2 + 2 * k) (2 + 2 * k + 2) =
        pyslice (concat (map (be_bytes 2) gs)) (2 * k) (2 * k + 2)"
      by (simp add: groups_payload_def pyslice_append_right add.commute)
    then show "pyslice (groups_payload gs) (2 + 2 * k) (2 + 2 * k + 2) = be_bytes 2 (gs ! k)"
      using pyslice_concat_be2 [OF that] by simp
  qed (use that assms in \<open>auto simp: list_all_length\<close>)
  then have "rmap (read_u16 (groups_payload gs)) (pyrange 2 (2 + 2 * length gs) 2) =
      Inr (map (\<lambda>i. gs ! ((i - 2) div 2)) (pyrange 2 (2 + 2 * length gs) 2))"
    by (intro rmap_Inr_map) (auto simp: pyrange_2)
  also have "map (\<lambda>i. gs ! ((i - 2) div 2)) (pyrange 2 (2 + 2 * length gs) 2) = gs"
    by (rule nth_equalityI) (auto simp: pyrange_2)
  finally show ?thesis by simp
qed

lemma read_shares:
  "tlv_region payload c (length payload) ss \<Longrightarrow> share_groups_loop payload c acc = Inr (acc @ map fst ss)"
proof (induction ss arbitrary: c acc)
  case Nil
  then show ?case by (simp add: share_groups_loop.simps)
next
  case (Cons x xs)
  from Cons.prems show ?case
    by (rule tlv_region_Cons_elim) (subst share_groups_loop.simps, use Cons.IH in \<open>auto simp: add.assoc\<close>)
qed

lemma client_hello_body_ext:
  assumes "ext_ok h"
  shows "client_hello_body (fst (ext_tlv h)) (snd (ext_tlv h)) st = Inr (read_ext h st)"
proof (cases h)
  case (Groups gs)
  then show ?thesis using assms read_groups [of gs] by (cases st) (simp add: client_hello_body_def)
next
  case (Shares ss)
  have "tlv_region (shares_payload ss) 2 (length (shares_payload ss)) ss"
    using assms shares_payload_region(2) [of ss] by (simp add: Shares)
  then show ?thesis using read_shares [of "shares_payload ss" 2 ss "snd st"] Shares
    by (cases st) (simp add: client_hello_body_def)
next
  case (Other t p)
  then show ?thesis using assms by (cases st) (simp add: client_hello_body_def)
qed

lemma client_hello_fold:
  "tlv_region record c e (map ext_tlv hs) \<Longrightarrow> list_all ext_ok hs \<Longrightarrow>
   tlv_fold (\<lambda>data t off n. client_hello_body t (pyslice data off (off + n))) record c (map ext_tlv hs) st =
     Inr (fold read_ext hs st)"
proof (induction hs arbitrary: c st)
  case (Cons h hs)
  then have "tlv_region record c e (ext_tlv h # map ext_tlv hs)" by simp
  then show ?case
    by (rule tlv_region_Cons_elim) (use Cons in \<open>simp add: client_hello_body_ext\<close>)
qed simp

lemma client_hello_hello:
  assumes "hello_exts record s e hs"
  shows "client_hello record = Inr (fold read_ext hs ([], []))"
proof -
  have h: "client_hello_extensions record = Inr (s, e)" "tlv_region record s e (map ext_tlv hs)" "list_all ext_ok hs"
    using assms by (auto simp: hello_exts_def)
  show ?thesis
    unfolding client_hello_def h(1) by (simp add: ext_iter.walk_region [OF h(2)] client_hello_fold [OF h(2,3)])
qed

lemma read_ext_strip:
  "fold read_ext (map (strip_ext g) hs) (filter (\<lambda>x. x \<noteq> g) a, filter (\<lambda>x. x \<noteq> g) b) =
   (let st = fold read_ext hs (a, b) in (filter (\<lambda>x. x \<noteq> g) (fst st), filter (\<lambda>x. x \<noteq> g) (snd st)))"
proof (induction hs arbitrary: a b)
  case (Cons h hs)
  show ?case
  proof (cases h)
    case (Groups gs)
    then show ?thesis using Cons [of gs b] by simp
  next
    case (Shares ss)
    have "filter (\<lambda>x. x \<noteq> g) (map fst ss) = map fst (filter (\<lambda>x. fst x \<noteq> g) ss)" by (induction ss) auto
    then show ?thesis using Shares Cons [of a "b @ map fst ss"] by simp
  next
    case (Other t p)
    then show ?thesis using Cons [of a b] by simp
  qed
qed simp

lemma read_ext_shares: "snd (fold read_ext hs st) = snd st @ map fst (concat (map ext_tlvs hs))"
proof (induction hs arbitrary: st)
  case (Cons h hs)
  then show ?case by (cases h) simp_all
qed simp

lemma map_fst_share_values: "map fst (share_values r ss) = map fst ss"
  by (auto simp: share_values_def split_def)

section \<open>The scan\<close>

definition handshake_at :: "bytes \<Rightarrow> nat \<Rightarrow> bool" where
  "handshake_at capture i \<longleftrightarrow> i + 3 \<le> length capture \<and> capture ! i = 0x16 \<and> capture ! (i + 1) = 0x03 \<and>
     (capture ! (i + 2) = 0x01 \<or> capture ! (i + 2) = 0x03)"

lemma handshake_at_Cons: "handshake_at (x # xs) (Suc i) = handshake_at xs i"
  by (simp add: handshake_at_def add.commute)

lemma handshake_at_take: "handshake_at r 0 = handshake_at (take 3 r) 0"
  by (simp add: handshake_at_def)

lemma handshake_at_append: "handshake_at r i \<Longrightarrow> handshake_at (r @ t) i"
  by (simp add: handshake_at_def nth_append)

lemma handshake_at_shift: "handshake_at (pre @ r) (length pre + i) = handshake_at r i"
  by (auto simp: handshake_at_def nth_append add.assoc)

lemma filter_upt_Suc: "filter P [Suc m..<Suc n] = map Suc (filter (\<lambda>i. P (Suc i)) [m..<n])"
proof -
  have "[Suc m..<Suc n] = map Suc [m..<n]" by (simp add: map_Suc_upt)
  then show ?thesis by (simp add: filter_map comp_def)
qed

lemma handshake_positions_Cons:
  "map (\<lambda>i. drop i (x # xs)) (filter (handshake_at (x # xs)) [0..<length (x # xs)]) =
   (if handshake_at (x # xs) 0 then [x # xs] else []) @
   map (\<lambda>i. drop i xs) (filter (handshake_at xs) [0..<length xs])"
proof -
  have "[0..<length (x # xs)] = 0 # [Suc 0..<Suc (length xs)]" by (simp add: upt_conv_Cons del: upt_Suc)
  then show ?thesis
    by (simp add: filter_upt_Suc handshake_at_Cons comp_def del: upt_Suc)
qed

text \<open>Matches cannot overlap, so skipping the three matched bytes misses nothing.\<close>

lemma handshake_suffixes_positions:
  "handshake_suffixes capture = map (\<lambda>i. drop i capture) (filter (handshake_at capture) [0..<length capture])"
proof (induction capture rule: handshake_suffixes.induct)
  case (1 a b c rest)
  show ?case
  proof (cases "a = 0x16 \<and> b = 0x03 \<and> (c = 0x01 \<or> c = 0x03)")
    case True
    then have "handshake_at (a # b # c # rest) 0" "\<not> handshake_at (b # c # rest) 0" "\<not> handshake_at (c # rest) 0"
      by (auto simp: handshake_at_def)
    moreover have "handshake_suffixes (a # b # c # rest) = (a # b # c # rest) # handshake_suffixes rest"
      unfolding handshake_suffixes.simps(1) by (rule if_P [OF True])
    ultimately show ?thesis using 1(1) [OF True]
      by (simp only: handshake_positions_Cons if_False if_True append_Nil append_Cons)
  next
    case False
    then have "\<not> handshake_at (a # b # c # rest) 0" by (auto simp: handshake_at_def)
    moreover have "handshake_suffixes (a # b # c # rest) = handshake_suffixes (b # c # rest)"
      using False by (simp only: handshake_suffixes.simps if_False)
    ultimately show ?thesis using 1(2) [OF False] by (simp only: handshake_positions_Cons [of a] if_False append_Nil)
  qed
qed (auto simp: handshake_at_def)

lemma summarize_record_Inr: "\<exists>s. summarize_record record summary = Inr s"
proof (cases "length record < 6")
  case False
  then have "ve_only (client_hello record)" "ve_only (server_hello record)" "byte_at record 5 = Inr (unat (record ! 5))"
    using ve_only_client_hello ve_only_server_hello by (auto simp: byte_at_def)
  then show ?thesis using False
    by (cases "client_hello record"; cases "server_hello record") (auto simp: summarize_record_def Let_def)
qed (simp add: summarize_record_def)

definition hello_step :: "bytes \<Rightarrow> HelloSummary" where
  "hello_step record = projr (summarize_record record \<lparr>client_hellos = [], server_hellos = []\<rparr>)"

text \<open>Each record contributes its hellos independently of what was read before.\<close>

lemma summarize_record_step:
  "summarize_record record summary =
     Inr \<lparr>client_hellos = client_hellos summary @ client_hellos (hello_step record),
          server_hellos = server_hellos summary @ server_hellos (hello_step record)\<rparr>"
proof (cases "length record < 6")
  case False
  then have "ve_only (client_hello record)" "ve_only (server_hello record)" "byte_at record 5 = Inr (unat (record ! 5))"
    using ve_only_client_hello ve_only_server_hello by (auto simp: byte_at_def)
  then show ?thesis using False
    by (cases "client_hello record"; cases "server_hello record")
      (auto simp: summarize_record_def hello_step_def Let_def)
qed (simp add: summarize_record_def hello_step_def)

lemma summarize_loop_concat:
  "summarize_loop rs summary =
     Inr \<lparr>client_hellos = client_hellos summary @ concat (map (client_hellos \<circ> hello_step) rs),
          server_hellos = server_hellos summary @ concat (map (server_hellos \<circ> hello_step) rs)\<rparr>"
  by (induction rs arbitrary: summary) (simp_all add: summarize_record_step)

lemma summarize_hellos_concat:
  "summarize_hellos capture =
     Inr \<lparr>client_hellos = concat (map (client_hellos \<circ> hello_step) (handshake_suffixes capture)),
          server_hellos = concat (map (server_hellos \<circ> hello_step) (handshake_suffixes capture))\<rparr>"
  by (simp add: summarize_hellos_def summarize_loop_concat)

section \<open>ServerHello records\<close>

definition server_hello_fields :: "bytes \<Rightarrow> bytes \<Rightarrow> bytes \<Rightarrow> tlv list \<Rightarrow> bytes" where
  "server_hello_fields random sid suite exts =
     [3, 3] @ random @ [word_of_nat (length sid)] @ sid @ suite @ be_bytes 2 (length (tlvs_bytes exts)) @ tlvs_bytes exts"

definition server_hello_bytes :: "bytes \<Rightarrow> bytes \<Rightarrow> bytes \<Rightarrow> tlv list \<Rightarrow> bytes" where
  "server_hello_bytes random sid suite exts =
     (let b = server_hello_fields random sid suite exts in
      [0x16, 3, 3] @ be_bytes 2 (4 + length b) @ [2] @ be_bytes 3 (length b) @ b)"

definition selected_group :: "tlv list \<Rightarrow> nat option" where
  "selected_group exts = fold (\<lambda>x grp. if fst x = TLS_KEY_SHARE then Some (from_bytes (take 2 (snd x))) else grp) exts None"

definition server_ext_ok :: "tlv \<Rightarrow> bool" where
  "server_ext_ok x \<longleftrightarrow> tlv_ok x \<and> (fst x = TLS_KEY_SHARE \<longrightarrow> 2 \<le> length (snd x))"

lemma server_hello_fold:
  "tlv_region data c e exts \<Longrightarrow> list_all server_ext_ok exts \<Longrightarrow>
   tlv_fold (\<lambda>data t off n. server_hello_body t (pyslice data off (off + n))) data c exts grp =
     Inr (fold (\<lambda>x grp. if fst x = TLS_KEY_SHARE then Some (from_bytes (take 2 (snd x))) else grp) exts grp)"
proof (induction exts arbitrary: c grp)
  case (Cons x exts)
  have ok: "server_ext_ok x" "list_all server_ext_ok exts" using Cons.prems(2) by auto
  from Cons.prems(1) show ?case
  proof (rule tlv_region_Cons_elim)
    assume *: "pyslice data (c + 4) (c + 4 + length (snd x)) = snd x" "tlv_region data (c + 4 + length (snd x)) e exts"
    have "server_hello_body (fst x) (snd x) grp =
        Inr (if fst x = TLS_KEY_SHARE then Some (from_bytes (take 2 (snd x))) else grp)"
      using ok(1) by (auto simp: server_hello_body_def server_ext_ok_def read_u16_def pyslice_def)
    then show ?thesis using Cons.IH [OF *(2) ok(2)] *(1) by simp
  qed
qed simp

lemma server_hello_encoded:
  assumes "length random = 32" "length sid < 256" "length suite = 3" "list_all server_ext_ok exts"
    and "length (tlvs_bytes exts) < 60000"
  shows "server_hello (server_hello_bytes random sid suite exts @ post) = Inr (random = HRR_RANDOM, selected_group exts)"
proof -
  define X where "X = tlvs_bytes exts"
  define n where "n = 40 + length sid + length X"
  define r where "r = server_hello_bytes random sid suite exts @ post"
  have r: "r = ([0x16, 3, 3] @ be_bytes 2 (4 + n) @ [2] @ be_bytes 3 n @ [3, 3] @ random @ [word_of_nat (length sid)] @ sid @
      suite @ be_bytes 2 (length X)) @ X @ post"
    using assms by (simp add: r_def server_hello_bytes_def server_hello_fields_def X_def n_def add.assoc)
  have n: "n < 65532" using assms by (simp add: n_def X_def)
  have len: "length r = 9 + n + length post" using assms by (simp add: r n_def)
  have "pyslice r 3 (3 + 2) = be_bytes 2 (4 + n)" by (simp add: r pyslice_append)
  then have r3: "read_u16 r 3 = Inr (4 + n)" using n len by (intro read_u16_of_slice) auto
  have b: "byte_at r 5 = Inr 2" "byte_at r 43 = Inr (length sid)"
    using assms(1,2) by (simp_all add: r byte_at_def nth_append unat_of_nat)
  have rnd: "pyslice r 11 43 = random" using assms(1) by (simp add: r pyslice_append)
  have "pyslice r (47 + length sid) (47 + length sid + 2) = be_bytes 2 (length X)"
    using assms by (simp add: r pyslice_append)
  then have rx: "read_u16 r (47 + length sid) = Inr (length X)"
    using assms len by (intro read_u16_of_slice) (auto simp: n_def X_def)
  have reg: "tlv_region r (49 + length sid) (49 + length sid + length X) exts"
    using r unfolding X_def
    by (rule tlv_region_append) (use assms in \<open>auto simp: list_all_iff server_ext_ok_def\<close>)
  have "extensions_for server_hello_body r (49 + length sid + length X) (49 + length sid) None = Inr (selected_group exts)"
    by (simp add: ext_iter.walk_region [OF reg] server_hello_fold [OF reg assms(4)] selected_group_def)
  moreover have "44 + length sid + 3 = 47 + length sid" "47 + length sid + 2 = 49 + length sid" by simp_all
  moreover have "\<not> 49 + length sid + length X > 5 + (4 + n)" "\<not> 5 + (4 + n) > length r" "\<not> 5 + (4 + n) < 47"
    using len by (simp_all add: n_def)
  ultimately show ?thesis
    unfolding r_def [symmetric] server_hello_def Let_def r3 rbind_simps b rx rnd by (simp only: rbind_simps if_False simp_thms rx)
qed

lemma client_hello_stripped:
  assumes "strip_hybrid r g = Inr r'"
  shows "\<exists>groups shares. client_hello r = Inr (groups, shares) \<and>
    client_hello r' = Inr (filter (\<lambda>x. x \<noteq> g) groups, filter (\<lambda>x. x \<noteq> g) shares)"
proof -
  from assms obtain s e e' hs where "hello_exts r s e hs" "hello_exts r' s e' (map (strip_ext g) hs)"
    by (rule strip_hybrid_refines)
  then show ?thesis
    using client_hello_hello [of r s e hs] client_hello_hello [of r' s e' "map (strip_ext g) hs"]
      read_ext_strip [of g hs "[]" "[]"] by (cases "fold read_ext hs ([], [])") (auto simp: Let_def)
qed

section \<open>Theorems\<close>

text \<open>
  What the reader sees of a stripped ClientHello: if \<open>strip_hybrid\<close> returns, the reader
  accepts both records, and the groups and the key shares it reads from the result are those of the
  original without the stripped group.
\<close>

theorem client_hello_of_stripped:
  assumes "strip_hybrid r g = Inr r'"
  shows "\<exists>groups shares. client_hello r = Inr (groups, shares) \<and>
    client_hello r' = Inr (filter (\<lambda>x. x \<noteq> g) groups, filter (\<lambda>x. x \<noteq> g) shares)"
  by (rule client_hello_stripped [OF assms])

theorem client_hello_of_stripped_witness:
  "\<exists>r' groups shares. strip_hybrid demo_record 0x11EC = Inr r' \<and> client_hello demo_record = Inr (groups, shares) \<and>
     client_hello r' = Inr (filter (\<lambda>x. x \<noteq> 0x11EC) groups, filter (\<lambda>x. x \<noteq> 0x11EC) shares)"
  using demo_strip client_hello_of_stripped [OF demo_strip] by blast

text \<open>
  C9. A stripped hello on the wire is found in the capture: wherever the bytes of the mutated
  record stand, \<open>summarize_hellos\<close> returns and lists the original hello without the group.
\<close>

theorem capture_shows_stripped_hello:
  assumes "strip_hybrid r g = Inr r'" "handshake_at r 0"
  shows "\<exists>summary groups shares. client_hello r = Inr (groups, shares) \<and>
    summarize_hellos (pre @ r' @ post) = Inr summary \<and>
    (filter (\<lambda>x. x \<noteq> g) groups, filter (\<lambda>x. x \<noteq> g) shares) \<in> set (client_hellos summary)"
proof -
  from assms(1) obtain s e e' hs where h: "hello_exts r s e hs" "hello_exts r' s e' (map (strip_ext g) hs)"
    "r' = (if list_ex (ext_offers g) hs then rebuilt r s (tlvs_bytes (map ext_tlv (map (strip_ext g) hs))) else r)"
    by (rule strip_hybrid_refines)
  obtain groups shares where gs: "fold read_ext hs ([], []) = (groups, shares)" by force
  have "take 3 r' = take 3 r" using h(3) assms(2) by (auto simp: rebuilt_def Let_def handshake_at_def)
  then have at: "handshake_at r' 0" using assms(2) handshake_at_take by metis
  have "r' @ post \<in> set (handshake_suffixes (pre @ r' @ post))"
    using at handshake_at_shift [of pre "r' @ post" 0] handshake_at_append [OF at, of post]
    by (auto simp: handshake_suffixes_positions handshake_at_def intro!: image_eqI [of _ _ "length pre"])
  moreover have "client_hello (r' @ post) = Inr (filter (\<lambda>x. x \<noteq> g) groups, filter (\<lambda>x. x \<noteq> g) shares)"
    using client_hello_hello [OF hello_exts_append [OF h(2), of post]] read_ext_strip [of g hs "[]" "[]"] gs by simp
  moreover have "6 \<le> length (r' @ post)" "byte_at (r' @ post) 5 = Inr 1"
    using h(2) by (auto simp: hello_exts_def byte_at_def nth_append elim!: client_hello_extensionsE)
  ultimately show ?thesis
    using client_hello_hello [OF h(1)] gs
    by (auto simp: summarize_hellos_concat hello_step_def summarize_record_def Let_def intro!: bexI [of _ "r' @ post"])
qed

theorem capture_shows_stripped_hello_witness:
  "\<exists>r' summary groups shares. strip_hybrid demo_record 0x11EC = Inr r' \<and> client_hello demo_record = Inr (groups, shares) \<and>
    summarize_hellos ([1, 2, 3] @ r' @ [4, 5]) = Inr summary \<and>
    (filter (\<lambda>x. x \<noteq> 0x11EC) groups, filter (\<lambda>x. x \<noteq> 0x11EC) shares) \<in> set (client_hellos summary)"
proof -
  have "handshake_at demo_record 0"
    by (simp add: demo_record_def sample_hello_def handshake_at_def)
  from capture_shows_stripped_hello [OF demo_strip this] show ?thesis using demo_strip by blast
qed

text \<open>
  C10. Reading a capture never raises, whatever its bytes: the summary lists the hellos of the
  handshake records in the order of their positions, every position of the capture where the three
  bytes of a handshake record stand is tried, and each ServerHello is counted once, either as a
  HelloRetryRequest or as a real one.
\<close>

theorem summarize_hellos_total:
  "\<exists>summary. summarize_hellos capture = Inr summary \<and>
     hrr_count summary + server_hello_count summary = length (server_hellos summary) \<and>
     summarize_loop (map (\<lambda>i. drop i capture) (filter (handshake_at capture) [0..<length capture]))
       \<lparr>client_hellos = [], server_hellos = []\<rparr> = Inr summary"
proof -
  obtain summary where s: "summarize_hellos capture = Inr summary" using summarize_hellos_concat by blast
  moreover have "hrr_count summary + server_hello_count summary = length (server_hellos summary)"
    by (simp add: hrr_count_def server_hello_count_def sum_length_filter_compl)
  ultimately show ?thesis by (simp add: summarize_hellos_def handshake_suffixes_positions)
qed

text \<open>
  C11. Reading back an encoded ServerHello, with any bytes behind it: the reader reports a
  HelloRetryRequest exactly when the random is the one RFC 8446 reserves for it, and the group of
  the last key share extension.
\<close>

theorem server_hello_roundtrip:
  assumes "length random = 32" "length sid < 256" "length suite = 3" "list_all server_ext_ok exts"
    and "length (tlvs_bytes exts) < 60000"
  shows "server_hello (server_hello_bytes random sid suite exts @ post) = Inr (random = HRR_RANDOM, selected_group exts)"
  by (rule server_hello_encoded [OF assms])

theorem server_hello_roundtrip_witness:
  "server_hello (server_hello_bytes HRR_RANDOM [] [0x13, 1, 0] [(0x2B, [3, 4]), (0x33, [0x11, 0xEC])] @ [7]) =
     Inr (True, Some 0x11EC)"
  using server_hello_roundtrip [of HRR_RANDOM "[]" "[0x13, 1, 0]" "[(0x2B, [3, 4]), (0x33, [0x11, 0xEC])]" "[7]"]
  by (simp add: HRR_RANDOM_def server_ext_ok_def tlv_ok_def selected_group_def from_bytes_two)

end
