(* ===== verification/Run_Phases.thy ===== *)
theory Run_Phases
  imports Verify_Applied PCAP_Hello
begin

text \<open>
  Model of \<open>tools/faultinject/run.py\<close>: the lists of scenarios of the phases, the on-path strip
  scenario with its logging mutator, the choice of the verification of a record and the batch
  runners. \<open>repo\<close> is the directory \<open>Path(__file__).resolve().parents[2]\<close>, \<open>environ\<close> the environment of
  the process; \<open>preflight\<close> takes the existence of files and the output of a command as arguments. The
  function \<open>main\<close> is in \<open>Command_Lines\<close>; see \<open>em_dash\<close> for a character of one message.
\<close>

section \<open>Definitions\<close>

definition PHASE2_ROOT :: string where "PHASE2_ROOT = ''/root/pq-hybrid-phase2''"

definition default_output_dir :: "string \<Rightarrow> string" where
  "default_output_dir repo = repo @ ''/docs/research/baselines/raw/phase-3''"

definition phase4_output_dir :: "string \<Rightarrow> string" where
  "phase4_output_dir repo = repo @ ''/docs/research/baselines/raw/phase-4''"

definition v11_output_dir :: "string \<Rightarrow> string" where
  "v11_output_dir repo = repo @ ''/docs/research/baselines/raw/v1.1''"

definition phase2_paths :: paths where
  "phase2_paths = [''openssl_bin'' \<mapsto> PHASE2_ROOT @ ''/install/openssl/bin/openssl'',
     ''openssl_cert'' \<mapsto> PHASE2_ROOT @ ''/openssl/apps/server.pem'',
     ''bssl_bin'' \<mapsto> PHASE2_ROOT @ ''/build/boringssl/tool/bssl'',
     ''boring_cert'' \<mapsto> PHASE2_ROOT @ ''/boring-cert.pem'',
     ''boring_key'' \<mapsto> PHASE2_ROOT @ ''/boring-key.pem'',
     ''ssh_bin'' \<mapsto> PHASE2_ROOT @ ''/openssh/ssh'',
     ''sshd_bin'' \<mapsto> PHASE2_ROOT @ ''/openssh/sshd'',
     ''sshd_config'' \<mapsto> PHASE2_ROOT @ ''/openssh-run/sshd_config'',
     ''ssh_key'' \<mapsto> PHASE2_ROOT @ ''/openssh-run/client_ed25519'']"

text \<open>\<open>d[k] = v\<close> on a dictionary that keeps its order.\<close>

fun dict_set :: "'k \<Rightarrow> 'v \<Rightarrow> ('k \<times> 'v) list \<Rightarrow> ('k \<times> 'v) list" where
  "dict_set k v [] = [(k, v)]"
| "dict_set k v ((k', v') # d) = (if k' = k then (k, v) # d else (k', v') # dict_set k v d)"

definition phase2_environment :: "environ \<Rightarrow> environ" where
  "phase2_environment environ =
     (let openssl_lib = PHASE2_ROOT @ ''/install/openssl/lib64'';
          liboqs_lib = PHASE2_ROOT @ ''/install/liboqs/lib'';
          existing = (case map_of environ ''LD_LIBRARY_PATH'' of Some v \<Rightarrow> v | None \<Rightarrow> []);
          environ = dict_set ''LD_LIBRARY_PATH'' (join '':'' (filter (\<lambda>v. v \<noteq> []) [openssl_lib, liboqs_lib, existing])) environ in
      dict_set ''OPENSSL_MODULES'' (openssl_lib @ ''/ossl-modules'') environ)"

fun preflight_missing :: "string list \<Rightarrow> paths \<Rightarrow> (string \<Rightarrow> bool) \<Rightarrow> string option result" where
  "preflight_missing [] paths exists = Inr None"
| "preflight_missing (key # keys) paths exists =
     rbind (look paths key) (\<lambda>p. if \<not> exists p then Inr (Some (''missing binary: '' @ key @ '' -> '' @ p))
       else preflight_missing keys paths exists)"

definition preflight ::
    "paths \<Rightarrow> environ \<Rightarrow> (string \<Rightarrow> bool) \<Rightarrow> (string list \<Rightarrow> environ \<Rightarrow> string) \<Rightarrow> (bool \<times> string) result" where
  "preflight paths environment exists runner =
     rbind (preflight_missing [''openssl_bin'', ''bssl_bin'', ''ssh_bin'', ''sshd_bin''] paths exists) (\<lambda>missing.
     case missing of Some reason \<Rightarrow> Inr (False, reason)
     | None \<Rightarrow>
       rbind (look paths ''openssl_bin'') (\<lambda>openssl_bin.
       let stdout = runner [openssl_bin, ''list'', ''-providers'', ''-provider'', ''default'', ''-provider'', ''oqsprovider''] environment in
       if \<not> contains ''oqsprovider'' stdout
       then Inr (False, ''oqsprovider not loaded '' @ em_dash @ '' check LD_LIBRARY_PATH/OPENSSL_MODULES'')
       else Inr (True, ''ok'')))"

definition implementations :: "string list" where
  "implementations = [''openssl'', ''boringssl'', ''openssh'']"

definition smoke_specs :: "(bytes \<Rightarrow> string) \<Rightarrow> environ \<Rightarrow> string \<Rightarrow> ScenarioSpec list result" where
  "smoke_specs sha256 environ out_dir =
     (let environment = phase2_environment environ in
      rbind (rmap (\<lambda>impl. group_list_spec impl 1 environment out_dir phase2_paths) implementations) (\<lambda>a.
      rbind (rmap (\<lambda>impl. binding_spec sha256 impl 1 environment out_dir phase2_paths) implementations) (\<lambda>b.
        Inr (a @ b))))"

definition rconcat_map :: "('a \<Rightarrow> 'b list result) \<Rightarrow> 'a list \<Rightarrow> 'b list result" where
  "rconcat_map f xs = rbind (rmap f xs) (\<lambda>ys. Inr (concat ys))"

definition batch_specs :: "(bytes \<Rightarrow> string) \<Rightarrow> environ \<Rightarrow> string \<Rightarrow> nat \<Rightarrow> ScenarioSpec list result" where
  "batch_specs sha256 environ out_dir repetitions =
     (let environment = phase2_environment environ in
      rconcat_map (\<lambda>rep. rconcat_map (\<lambda>impl.
        rbind (group_list_spec impl rep environment out_dir phase2_paths) (\<lambda>a.
        rbind (binding_spec sha256 impl rep environment out_dir phase2_paths) (\<lambda>b. Inr [a, b])))
        implementations) [1..<repetitions + 1])"

datatype strip_target = TlsGroup nat | SshName string

definition strip_target_text :: "strip_target \<Rightarrow> string" where
  "strip_target_text t = (case t of TlsGroup g \<Rightarrow> ''0x'' @ hex04 g | SshName s \<Rightarrow> s)"

text \<open>The function \<open>mutate\<close> inside \<open>_strip_spec\<close>.\<close>

definition strip_payload_bytes :: "strip_target \<Rightarrow> bytes \<Rightarrow> bytes result" where
  "strip_payload_bytes t data = (case t of SshName s \<Rightarrow> strip_kexinit_algorithm data s | TlsGroup g \<Rightarrow> strip_hybrid data g)"

definition strip_mutator :: "(bytes \<Rightarrow> string) \<Rightarrow> string \<Rightarrow> strip_target \<Rightarrow> files mutator" where
  "strip_mutator sha256 proxy_log target data fs =
     (case strip_payload_bytes target data of
        Inl e \<Rightarrow> if is_ValueError e then Inr (data, fs) else Inl e
      | Inr stripped \<Rightarrow>
        Inr (stripped, if stripped \<noteq> data
          then append_file proxy_log (mutation_line ''strip_mutation'' (strip_target_text target) (sha256 data) (sha256 stripped)) fs
          else fs))"

definition strip_ports :: "string \<rightharpoonup> nat" where
  "strip_ports = [''openssl'' \<mapsto> 9543, ''boringssl'' \<mapsto> 9544, ''openssh'' \<mapsto> 9555]"

definition strip_targets :: "string \<rightharpoonup> strip_target" where
  "strip_targets = [''openssl'' \<mapsto> TlsGroup 0x11EC, ''boringssl'' \<mapsto> TlsGroup 0x6399,
     ''openssh'' \<mapsto> SshName ''sntrup761x25519-sha512@openssh.com'']"

definition redirect :: "nat \<Rightarrow> nat \<Rightarrow> string \<Rightarrow> string" where
  "redirect proxy_port base_port v =
     (if v = ''127.0.0.1:'' @ dec base_port then ''127.0.0.1:'' @ dec proxy_port
      else if v = dec base_port then dec proxy_port else v)"

definition strip_spec :: "(bytes \<Rightarrow> string) \<Rightarrow> string \<Rightarrow> nat \<Rightarrow> environ \<Rightarrow> string \<Rightarrow> paths \<Rightarrow> ScenarioSpec result" where
  "strip_spec sha256 impl rep environment out_dir paths =
     rbind (condition_spec impl ''base'' rep environment out_dir paths) (\<lambda>base.
     rbind (look strip_ports impl) (\<lambda>proxy_port.
     rbind (look strip_targets impl) (\<lambda>target.
     let proxy_log = path_join out_dir (impl @ ''_condition_r'' @ dec02 rep @ ''_onpath-strip-proxy.log'') in
     Inr (base\<lparr>sp_condition := ''onpath-strip'',
       sp_client_cmd := map (redirect proxy_port (sp_listen_port base)) (sp_client_cmd base),
       sp_listen_port := proxy_port, sp_server_listen_port := Some (sp_listen_port base),
       sp_proxy_upstream_port := Some (sp_listen_port base),
       sp_proxy_mutate := Some (strip_mutator sha256 proxy_log target), sp_proxy_log := Some proxy_log,
       sp_advertised_hybrid := Some True\<rparr>))))"

definition condition_run :: "string \<Rightarrow> string \<Rightarrow> nat \<Rightarrow> environ \<Rightarrow> string \<Rightarrow> ScenarioSpec result" where
  "condition_run impl condition rep environment out_dir =
     rbind (condition_spec impl condition rep environment out_dir phase2_paths) (\<lambda>spec.
     rbind (advertised_hybrid_for condition) (\<lambda>adv. Inr (spec\<lparr>sp_advertised_hybrid := Some adv\<rparr>)))"

definition v11_specs :: "(bytes \<Rightarrow> string) \<Rightarrow> environ \<Rightarrow> string \<Rightarrow> nat \<Rightarrow> ScenarioSpec list result" where
  "v11_specs sha256 environ out_dir repetitions =
     (let environment = phase2_environment environ in
      rconcat_map (\<lambda>rep.
        rbind (rconcat_map (\<lambda>impl.
          rbind (rmap (\<lambda>c. condition_run impl c rep environment out_dir) [''base'', ''silent-downgrade'']) (\<lambda>a.
          rbind (strip_spec sha256 impl rep environment out_dir phase2_paths) (\<lambda>b. Inr (a @ [b]))))
          [''openssl'', ''boringssl'']) (\<lambda>tls.
        rbind (rmap (\<lambda>c. condition_run ''openssh'' c rep environment out_dir) [''base'', ''ssh-order'']) (\<lambda>ssh.
        rbind (strip_spec sha256 ''openssh'' rep environment out_dir phase2_paths) (\<lambda>b. Inr (tls @ ssh @ [b])))))
        [1..<repetitions + 1])"

definition baseline_path :: "string \<Rightarrow> string \<Rightarrow> string result" where
  "baseline_path repo impl =
     rbind (look [''openssl'' \<mapsto> ''openssl-67b5686b-baseline'', ''boringssl'' \<mapsto> ''boringssl-7fb4d3da-baseline'',
        ''openssh'' \<mapsto> ''openssh-d01efaa1-baseline''] impl) (\<lambda>name.
       Inr (repo @ ''/docs/research/baselines/raw/'' @ name))"

definition record_verified :: "tshark \<Rightarrow> files \<Rightarrow> string \<Rightarrow> RunRecord \<Rightarrow> string \<Rightarrow> bool result" where
  "record_verified tshark fs repo rec output_dir =
     (if fault_type rec = ''condition'' then verify_condition tshark fs rec output_dir
      else if fault_type rec = ''binding'' then
        rbind (artifact_path rec output_dir ''proxy_log'') (verify_binding fs)
      else if implementation rec = ''openssh'' then
        rbind (baseline_path repo ''openssh'') (\<lambda>baseline.
        rbind (artifact_path rec output_dir ''client_log'') (\<lambda>log.
          verify_ssh_group_list fs log (baseline @ ''-client.log'')))
      else
        rbind (baseline_path repo (implementation rec)) (\<lambda>baseline.
        rbind (artifact_path rec output_dir ''pcap'') (\<lambda>pcap.
          verify_group_list tshark pcap (baseline @ ''.pcapng''))))"

definition verify_record :: "tshark \<Rightarrow> string \<Rightarrow> string \<Rightarrow> RunRecord \<Rightarrow> RunRecord prog" where
  "verify_record tshark repo output_dir rec w =
     seqp (lift_result (record_verified tshark (texts w) repo rec output_dir)) (\<lambda>verified.
     let marked = mark rec verified in
     seqp (modify (\<lambda>w. w\<lparr>docs := (docs w)(path_join output_dir (rec_run_id marked @ ''.json'') \<mapsto> asdict_record marked)\<rparr>))
       (\<lambda>_. ret marked)) w"

text \<open>
  The loop of \<open>run_smoke\<close>, \<open>run_batch\<close> and \<open>run_v11\<close>: each scenario is run and verified before the
  next one starts. The environment of the \<open>i\<close>-th run is \<open>envs i\<close>.
\<close>

definition run_and_verify :: "(nat \<Rightarrow> run_env) \<Rightarrow> tshark \<Rightarrow> string \<Rightarrow> string \<Rightarrow> nat \<Rightarrow> ScenarioSpec \<Rightarrow> RunRecord prog" where
  "run_and_verify envs tshark repo out_dir i sp = seqp (run_scenario (envs i) sp) (verify_record tshark repo out_dir)"

definition run_all :: "(nat \<Rightarrow> run_env) \<Rightarrow> tshark \<Rightarrow> string \<Rightarrow> string \<Rightarrow> nat \<Rightarrow> ScenarioSpec list \<Rightarrow> RunRecord list prog" where
  "run_all envs tshark repo out_dir = for_each (run_and_verify envs tshark repo out_dir)"

definition run_smoke where
  "run_smoke envs tshark repo environ sha256 output_dir =
     (let out_dir = (case output_dir of Some d \<Rightarrow> d | None \<Rightarrow> default_output_dir repo) in
      seqp (lift_result (smoke_specs sha256 environ out_dir)) (run_all envs tshark repo out_dir 0))"

definition run_batch where
  "run_batch envs tshark repo environ sha256 repetitions output_dir =
     (let out_dir = (case output_dir of Some d \<Rightarrow> d | None \<Rightarrow> phase4_output_dir repo) in
      seqp (lift_result (batch_specs sha256 environ out_dir repetitions)) (run_all envs tshark repo out_dir 0))"

definition run_v11 where
  "run_v11 envs tshark repo environ sha256 repetitions output_dir =
     (let out_dir = (case output_dir of Some d \<Rightarrow> d | None \<Rightarrow> v11_output_dir repo) in
      seqp (lift_result (v11_specs sha256 environ out_dir repetitions)) (run_all envs tshark repo out_dir 0))"

section \<open>The lists of scenarios\<close>

lemma rconcat_map_Inr: "(\<And>x. x \<in> set xs \<Longrightarrow> f x = Inr (g x)) \<Longrightarrow> rconcat_map f xs = Inr (concat (map g xs))"
  by (simp add: rconcat_map_def rmap_Inr_map)

lemma phase2_look:
  "k \<in> {''openssl_bin'', ''openssl_cert'', ''bssl_bin'', ''boring_cert'', ''boring_key'', ''ssh_bin'', ''sshd_bin'',
     ''sshd_config'', ''ssh_key''} \<Longrightarrow> \<exists>v. phase2_paths k = Some v"
  unfolding phase2_paths_def by auto

lemma distinct_concat_map:
  assumes "distinct xs" "\<And>x. distinct (h x)" "\<And>x y. x \<noteq> y \<Longrightarrow> set (h x) \<inter> set (h y) = {}"
  shows "distinct (concat (map h xs))"
  using assms(1)
proof (induction xs)
  case (Cons x xs)
  then have "set (h x) \<inter> set (h y) = {}" if "y \<in> set xs" for y using assms(3) [of x y] that by auto
  then show ?case using Cons assms(2) [of x] by auto
qed simp

lemma run_ids_distinct:
  assumes "distinct combos" "\<forall>(i, f, c) \<in> set combos. CHR ''_'' \<notin> set i \<and> CHR ''_'' \<notin> set f" "distinct reps"
  shows "distinct (concat (map (\<lambda>rep. map (\<lambda>(i, f, c). run_id i f rep c) combos) reps))"
proof (rule distinct_concat_map [OF assms(3)])
  let ?id = "\<lambda>rep (i, f, c). run_id i f rep c"
  have inj: "rep = rep' \<and> x = y" if "x \<in> set combos" "y \<in> set combos" "?id rep x = ?id rep' y" for x y rep rep'
  proof -
    obtain i f c i' f' c' where xy: "x = (i, f, c)" "y = (i', f', c')" by (cases x, cases y)
    then have "CHR ''_'' \<notin> set i" "CHR ''_'' \<notin> set f" "CHR ''_'' \<notin> set i'" "CHR ''_'' \<notin> set f'"
      using assms(2) that(1,2) by auto
    then show ?thesis using that(3) xy by (simp add: run_id_inj_lemma)
  qed
  show "distinct (map (?id rep) combos)" for rep
    using assms(1) inj by (simp add: distinct_map inj_on_def)
  show "set (map (?id rep) combos) \<inter> set (map (?id rep') combos) = {}" if "rep \<noteq> rep'" for rep rep'
    using that inj unfolding set_map by blast
qed

definition v11_combos :: "(string \<times> string \<times> string) list" where
  "v11_combos = [(''openssl'', ''condition'', ''base''), (''openssl'', ''condition'', ''silent-downgrade''),
     (''openssl'', ''condition'', ''onpath-strip''), (''boringssl'', ''condition'', ''base''),
     (''boringssl'', ''condition'', ''silent-downgrade''), (''boringssl'', ''condition'', ''onpath-strip''),
     (''openssh'', ''condition'', ''base''), (''openssh'', ''condition'', ''ssh-order''),
     (''openssh'', ''condition'', ''onpath-strip'')]"

definition batch_combos :: "(string \<times> string \<times> string) list" where
  "batch_combos = [(''openssl'', ''group-list'', ''default''), (''openssl'', ''binding'', ''default''),
     (''boringssl'', ''group-list'', ''default''), (''boringssl'', ''binding'', ''default''),
     (''openssh'', ''group-list'', ''default''), (''openssh'', ''binding'', ''default'')]"

definition spec_combo :: "ScenarioSpec \<Rightarrow> string \<times> string \<times> string" where
  "spec_combo sp = (sp_impl sp, sp_fault_type sp, sp_condition sp)"

lemma condition_run_ok:
  assumes "(impl, condition) \<in> {(''openssl'', ''base''), (''openssl'', ''silent-downgrade''), (''boringssl'', ''base''),
      (''boringssl'', ''silent-downgrade''), (''openssh'', ''base''), (''openssh'', ''ssh-order'')}"
  shows "\<exists>sp. condition_run impl condition rep env out = Inr sp \<and> spec_combo sp = (impl, ''condition'', condition) \<and>
    sp_repetition sp = rep"
  using assms
  by (auto simp: condition_run_def condition_spec_def condition_commands_def look_def PORTS_def CLIENT_GROUPS_def
      phase2_paths_def advertised_hybrid_for_def ADVERTISED_HYBRID_def spec_combo_def new_spec_def)

lemma strip_spec_ok:
  assumes "impl \<in> {''openssl'', ''boringssl'', ''openssh''}"
  shows "\<exists>sp. strip_spec sha256 impl rep env out phase2_paths = Inr sp \<and> spec_combo sp = (impl, ''condition'', ''onpath-strip'') \<and>
    sp_repetition sp = rep"
  using assms
  by (auto simp: strip_spec_def condition_spec_def condition_commands_def look_def PORTS_def CLIENT_GROUPS_def
      phase2_paths_def strip_ports_def strip_targets_def spec_combo_def new_spec_def Let_def)

lemma group_list_spec_ok:
  assumes "impl \<in> set implementations"
  shows "\<exists>sp. group_list_spec impl rep env out phase2_paths = Inr sp \<and> spec_combo sp = (impl, ''group-list'', ''default'') \<and>
    sp_repetition sp = rep"
  using assms
  by (auto simp: implementations_def group_list_spec_def group_list_commands_def CLASSICAL_def group_list_port_def look_def
      phase2_paths_def spec_combo_def new_spec_def)

lemma binding_spec_ok:
  assumes "impl \<in> set implementations"
  shows "\<exists>sp. binding_spec sha256 impl rep env out phase2_paths = Inr sp \<and> spec_combo sp = (impl, ''binding'', ''default'') \<and>
    sp_repetition sp = rep"
  using assms
  by (auto simp: implementations_def binding_spec_def binding_choice_def look_def phase2_paths_def spec_combo_def new_spec_def Let_def)

lemma repeated_specs:
  assumes F: "\<And>rep. \<exists>xs. F rep = Inr xs \<and> map spec_combo xs = combos \<and> (\<forall>sp \<in> set xs. sp_repetition sp = rep)"
    and "distinct combos" "\<forall>(i, f, c) \<in> set combos. CHR ''_'' \<notin> set i \<and> CHR ''_'' \<notin> set f"
  shows "\<exists>specs. rconcat_map F [1..<n + 1] = Inr specs \<and> length specs = length combos * n \<and> distinct (map identifier_of specs) \<and>
     map (\<lambda>sp. (sp_repetition sp, spec_combo sp)) specs = List.product [1..<n + 1] combos"
proof -
  obtain g where g: "\<And>rep. F rep = Inr (g rep)" "\<And>rep. map spec_combo (g rep) = combos"
    "\<And>rep sp. sp \<in> set (g rep) \<Longrightarrow> sp_repetition sp = rep"
    using F by metis
  have ids: "map identifier_of (g rep) = map (\<lambda>(i, f, c). run_id i f rep c) combos" for rep
    unfolding g(2) [of rep, symmetric] map_map comp_def
    by (rule map_cong [OF refl]) (simp add: spec_combo_def g(3))
  have pairs: "map (\<lambda>sp. (sp_repetition sp, spec_combo sp)) (g rep) = map (Pair rep) combos" for rep
    unfolding g(2) [of rep, symmetric] map_map comp_def
    by (rule map_cong [OF refl]) (simp add: g(3))
  let ?S = "concat (map g [1..<n + 1])"
  have "rconcat_map F [1..<n + 1] = Inr ?S" by (rule rconcat_map_Inr) (rule g(1))
  moreover have "length ?S = length combos * n"
  proof -
    have "length (g rep) = length combos" for rep using g(2) [of rep] by (metis length_map)
    then show ?thesis by (simp add: length_concat comp_def sum_list_triv)
  qed
  moreover have "map identifier_of ?S = concat (map (\<lambda>rep. map (\<lambda>(i, f, c). run_id i f rep c) combos) [1..<n + 1])"
    unfolding map_concat map_map comp_def ids ..
  moreover have "map (\<lambda>sp. (sp_repetition sp, spec_combo sp)) ?S = List.product [1..<n + 1] combos"
    unfolding map_concat map_map comp_def pairs product_concat_map ..
  ultimately show ?thesis using run_ids_distinct [OF assms(2,3), of "[1..<n + 1]"] by auto
qed

text \<open>
  C23. The batches are complete and collision-free: with the tools of phase 2, \<open>batch_specs\<close> and
  \<open>v11_specs\<close> return for every number of repetitions; the scenarios are all combinations of the
  repetitions with the six (nine) combinations of implementation, fault and condition, in this
  order; and no two of them share a run identifier, so no run overwrites the files of another.
\<close>

theorem phase_specs_complete:
  "(\<exists>specs. batch_specs sha256 environ out_dir n = Inr specs \<and> length specs = 6 * n \<and> distinct (map identifier_of specs) \<and>
     map (\<lambda>sp. (sp_repetition sp, spec_combo sp)) specs = List.product [1..<n + 1] batch_combos) \<and>
   (\<exists>specs. v11_specs sha256 environ out_dir n = Inr specs \<and> length specs = 9 * n \<and> distinct (map identifier_of specs) \<and>
     map (\<lambda>sp. (sp_repetition sp, spec_combo sp)) specs = List.product [1..<n + 1] v11_combos)"
proof
  have len: "length batch_combos = 6" "length v11_combos = 9" by (simp_all add: batch_combos_def v11_combos_def)
  let ?env = "phase2_environment environ"
  show "\<exists>specs. batch_specs sha256 environ out_dir n = Inr specs \<and> length specs = 6 * n \<and> distinct (map identifier_of specs) \<and>
     map (\<lambda>sp. (sp_repetition sp, spec_combo sp)) specs = List.product [1..<n + 1] batch_combos"
    unfolding batch_specs_def Let_def len(1) [symmetric]
  proof (rule repeated_specs)
    fix rep
    obtain a b where ab: "\<And>impl. impl \<in> set implementations \<Longrightarrow> group_list_spec impl rep ?env out_dir phase2_paths = Inr (a impl) \<and>
        spec_combo (a impl) = (impl, ''group-list'', ''default'') \<and> sp_repetition (a impl) = rep"
      "\<And>impl. impl \<in> set implementations \<Longrightarrow> binding_spec sha256 impl rep ?env out_dir phase2_paths = Inr (b impl) \<and>
        spec_combo (b impl) = (impl, ''binding'', ''default'') \<and> sp_repetition (b impl) = rep"
      using group_list_spec_ok [of _ rep ?env out_dir] binding_spec_ok [of _ sha256 rep ?env out_dir] by metis
    have "rconcat_map (\<lambda>impl. rbind (group_list_spec impl rep ?env out_dir phase2_paths) (\<lambda>a.
        rbind (binding_spec sha256 impl rep ?env out_dir phase2_paths) (\<lambda>b. Inr [a, b]))) implementations =
      Inr (concat (map (\<lambda>impl. [a impl, b impl]) implementations))"
      by (rule rconcat_map_Inr) (simp add: ab)
    moreover have "map spec_combo (concat (map (\<lambda>impl. [a impl, b impl]) implementations)) = batch_combos"
      using ab by (simp add: implementations_def batch_combos_def)
    moreover have "\<forall>sp \<in> set (concat (map (\<lambda>impl. [a impl, b impl]) implementations)). sp_repetition sp = rep"
      using ab by auto
    ultimately show "\<exists>xs. rconcat_map (\<lambda>impl. rbind (group_list_spec impl rep ?env out_dir phase2_paths) (\<lambda>a.
        rbind (binding_spec sha256 impl rep ?env out_dir phase2_paths) (\<lambda>b. Inr [a, b]))) implementations = Inr xs \<and>
      map spec_combo xs = batch_combos \<and> (\<forall>sp \<in> set xs. sp_repetition sp = rep)" by blast
  qed (simp_all add: batch_combos_def)
  show "\<exists>specs. v11_specs sha256 environ out_dir n = Inr specs \<and> length specs = 9 * n \<and> distinct (map identifier_of specs) \<and>
     map (\<lambda>sp. (sp_repetition sp, spec_combo sp)) specs = List.product [1..<n + 1] v11_combos"
    unfolding v11_specs_def Let_def len(2) [symmetric]
  proof (rule repeated_specs)
    fix rep
    let ?ok = "\<lambda>impl condition. \<exists>sp. condition_run impl condition rep ?env out_dir = Inr sp \<and>
      spec_combo sp = (impl, ''condition'', condition) \<and> sp_repetition sp = rep"
    let ?st = "\<lambda>impl. \<exists>sp. strip_spec sha256 impl rep ?env out_dir phase2_paths = Inr sp \<and>
      spec_combo sp = (impl, ''condition'', ''onpath-strip'') \<and> sp_repetition sp = rep"
    have "?ok ''openssl'' ''base''" "?ok ''openssl'' ''silent-downgrade''" "?ok ''boringssl'' ''base''"
      "?ok ''boringssl'' ''silent-downgrade''" "?ok ''openssh'' ''base''" "?ok ''openssh'' ''ssh-order''"
      "?st ''openssl''" "?st ''boringssl''" "?st ''openssh''"
      by (rule condition_run_ok strip_spec_ok; simp)+
    then show "\<exists>xs. rbind (rconcat_map (\<lambda>impl.
          rbind (rmap (\<lambda>c. condition_run impl c rep ?env out_dir) [''base'', ''silent-downgrade'']) (\<lambda>a.
          rbind (strip_spec sha256 impl rep ?env out_dir phase2_paths) (\<lambda>b. Inr (a @ [b]))))
          [''openssl'', ''boringssl'']) (\<lambda>tls.
        rbind (rmap (\<lambda>c. condition_run ''openssh'' c rep ?env out_dir) [''base'', ''ssh-order'']) (\<lambda>ssh.
        rbind (strip_spec sha256 ''openssh'' rep ?env out_dir phase2_paths) (\<lambda>b. Inr (tls @ ssh @ [b])))) = Inr xs \<and>
      map spec_combo xs = v11_combos \<and> (\<forall>sp \<in> set xs. sp_repetition sp = rep)"
      by (auto simp: rconcat_map_def v11_combos_def)
  qed (simp_all add: v11_combos_def)
qed

section \<open>The on-path strip\<close>

lemma strip_mutator_logging:
  "strip_mutator sha256 log target = logging ''strip_mutation'' sha256 log (strip_target_text target) (strip_payload_bytes target)"
  by (intro ext) (simp add: strip_mutator_def logging_def)

lemma strip_payload_ve_only: "ve_only (strip_payload_bytes target data)"
  using strip_kexinit_ve_only strip_hybrid_ve_only by (cases target) (auto simp: strip_payload_bytes_def)

text \<open>
  The strip log tells the truth: for a record of the condition \<open>onpath-strip\<close> whose artifact
  is the log of the run, \<open>verify_condition\<close> accepts exactly the runs in which the server got a
  changed payload; for a run without a mutation there is no log, and it raises.
\<close>

theorem strip_log_verifies:
  assumes "strip_targets impl = Some target"
    and "run_proxy listening connected first rounds (strip_mutator sha256 (path_join dir name) target) fs = (ready, Inr (s, fin))"
    and "fs (path_join dir name) = None" "\<And>d. word (sha256 d)"
    and "\<And>c f. c \<in> set (from_client s) \<Longrightarrow> strip_payload_bytes target c = Inr f \<Longrightarrow> f \<noteq> c \<Longrightarrow> sha256 c \<noteq> sha256 f"
    and "rec_condition rec = ''onpath-strip''" "map_of (artifacts rec) ''proxy_log'' = Some (JStr name)"
  shows "verify_condition tshark (mstate s) rec dir =
    (if to_upstream s \<noteq> from_client s then Inr True
     else Inl (OSError (''No such file or directory: '' @ path_join dir name)))"
proof -
  have st: "mutate_stream (logging ''strip_mutation'' sha256 (path_join dir name) (strip_target_text target) (strip_payload_bytes target))
      (from_client s) fs = Inr (to_upstream s, mutated s, mstate s)"
    using run_proxy_inv [OF assms(2)] by (simp add: proxy_inv_def strip_mutator_logging)
  have ev: "word ''strip_mutation''" by (simp add: is_space_def)
  have nospace: "\<not> is_space c" if "c \<in> set (hex04 n)" for c n
    using hex04_chars [OF that] by (auto simp: is_space_def Let_def)
  have gw: "word (strip_target_text target)"
  proof (cases target)
    case (TlsGroup g)
    then show ?thesis using nospace by (auto simp: strip_target_text_def is_space_def)
  next
    case (SshName n)
    then have "n = ''sntrup761x25519-sha512@openssh.com''" using assms(1) by (auto simp: strip_targets_def split: if_splits)
    then show ?thesis using SshName by (simp add: strip_target_text_def is_space_def)
  qed
  have path: "artifact_path rec dir ''proxy_log'' = Inr (path_join dir name)"
    using assms(7) by (simp add: artifact_path_def look_def)
  from logging_log [OF st assms(3) ev gw assms(4,5)] assms(3,6) path show ?thesis
    by (auto simp: verify_condition_def read_text_def strip_line_def split: if_splits)
qed

theorem strip_log_verifies_witness:
  "\<exists>sha256 s. run_proxy (Inr ()) (Inr ()) (Inr demo_record, None) [[]]
       (strip_mutator sha256 (path_join ''out'' ''proxy.log'') (TlsGroup 0x11EC)) Map.empty = (True, Inr (s, True)) \<and>
     verify_condition (\<lambda>_. (0, [], [])) (mstate s) \<lparr>rec_run_id = ''r'', implementation = ''openssl'', fault_type = ''condition'', repetition = 1,
       rec_condition = ''onpath-strip'', metrics = new_metrics None False False ''failure'', manipulation_verified = False,
       artifacts = [(''proxy_log'', JStr ''proxy.log'')], provenance = [], audit = []\<rparr> ''out'' = Inr True"
proof -
  let ?rec = "\<lparr>rec_run_id = ''r'', implementation = ''openssl'', fault_type = ''condition'', repetition = 1,
       rec_condition = ''onpath-strip'', metrics = new_metrics None False False ''failure'', manipulation_verified = False,
       artifacts = [(''proxy_log'', JStr ''proxy.log'')], provenance = [], audit = []\<rparr>"
  define sha where "sha = (\<lambda>d. if d = demo_record then ''a'' else ''b'')"
  have w: "word (sha d)" for d by (simp add: sha_def is_space_def)
  obtain st where st: "strip_hybrid demo_record 0x11EC = Inr st" using demo_strip by blast
  have ne: "st \<noteq> demo_record"
    using client_hello_stripped [OF st] client_hello_hello [OF demo_hello] by (auto simp: demo_exts_def)
  have nn: "demo_record \<noteq> []" by (simp add: demo_record_def)
  obtain s where s: "run_proxy (Inr ()) (Inr ()) (Inr demo_record, None) [[]]
       (strip_mutator sha (path_join ''out'' ''proxy.log'') (TlsGroup 0x11EC)) Map.empty = (True, Inr (s, True))"
    "from_client s = [demo_record]" "to_upstream s = [st]"
    using st ne nn by (simp add: run_proxy_def first_payload_def start_state_def strip_mutator_def strip_payload_bytes_def)
  have tg: "strip_targets ''openssl'' = Some (TlsGroup 0x11EC)" by (simp add: strip_targets_def)
  have dist: "sha c \<noteq> sha f" if "c \<in> set (from_client s)" "strip_payload_bytes (TlsGroup 0x11EC) c = Inr f" "f \<noteq> c" for c f
    using that s(2) by (simp add: sha_def)
  have "verify_condition (\<lambda>_. (0, [], [])) (mstate s) ?rec ''out'' =
    (if to_upstream s \<noteq> from_client s then Inr True
     else Inl (OSError (''No such file or directory: '' @ path_join ''out'' ''proxy.log'')))"
    by (rule strip_log_verifies [OF tg s(1) _ w dist]) simp_all
  then show ?thesis using s ne by (intro exI [of _ sha] exI [of _ s]) simp
qed

end
