(* ===== verification/Aggregate.thy ===== *)
theory Aggregate
  imports Tally Run_Phases
begin

text \<open>
  Model of \<open>tools/faultinject/aggregate.py\<close> and of the summaries of phase 3, 4 and v1.1 in
  \<open>tools/faultinject/analyze.py\<close> (\<open>comparison\<close>, \<open>comparison_v11\<close>, \<open>comparison_rows\<close>,
  \<open>render_markdown\<close>, \<open>render_v11_markdown\<close>). The CSV text that \<open>write_manifest\<close> writes is modelled;
  the functions \<open>main\<close> are in \<open>Command_Lines\<close>.
\<close>

section \<open>Definitions\<close>

record counts_row =
  total :: nat
  verified :: nat
  success :: nat
  downgrade :: nat

definition aggregate_step :: "RunRecord \<Rightarrow> counts_row \<Rightarrow> counts_row" where
  "aggregate_step r c =
     (let c = c\<lparr>total := total c + 1\<rparr>;
          c = (if manipulation_verified r then c\<lparr>verified := verified c + 1\<rparr> else c);
          c = (if handshake_result (metrics r) = ''success'' then c\<lparr>success := success c + 1\<rparr> else c) in
      if downgrade_visible (metrics r) then c\<lparr>downgrade := downgrade c + 1\<rparr> else c)"

definition fault_key :: "RunRecord \<Rightarrow> string \<times> string" where
  "fault_key r = (implementation r, fault_type r)"

definition condition_key :: "RunRecord \<Rightarrow> string \<times> string" where
  "condition_key r = (implementation r, rec_condition r)"

definition aggregate_records :: "RunRecord list \<Rightarrow> ((string \<times> string) \<times> counts_row) list" where
  "aggregate_records rs = fold (\<lambda>r. dict_update (fault_key r)
     \<lparr>total = 0, verified = 0, success = 0, downgrade = 0\<rparr> (aggregate_step r)) rs []"

definition aggregate :: "run_dir \<Rightarrow> ((string \<times> string) \<times> counts_row) list result" where
  "aggregate dir = rbind (load_records dir) (\<lambda>rs. Inr (aggregate_records rs))"

record counts_row_v11 = counts_row +
  hrr :: nat
  flagged :: nat

definition aggregate_v11_step :: "RunRecord \<Rightarrow> counts_row_v11 \<Rightarrow> counts_row_v11" where
  "aggregate_v11_step r c =
     c\<lparr>total := total c + 1, verified := verified c + of_bool (manipulation_verified r),
       success := success c + of_bool (handshake_result (metrics r) = ''success''),
       downgrade := downgrade c + of_bool (downgrade_visible (metrics r)),
       hrr := hrr c + of_bool (hrr_present (metrics r) = Some True),
       flagged := flagged c + of_bool (downgrade_flagged (metrics r) = Some True)\<rparr>"

definition aggregate_v11_records :: "RunRecord list \<Rightarrow> ((string \<times> string) \<times> counts_row_v11) list" where
  "aggregate_v11_records rs = fold (\<lambda>r. dict_update (condition_key r)
     \<lparr>total = 0, verified = 0, success = 0, downgrade = 0, hrr = 0, flagged = 0\<rparr> (aggregate_v11_step r)) rs []"

definition aggregate_v11 :: "run_dir \<Rightarrow> ((string \<times> string) \<times> counts_row_v11) list result" where
  "aggregate_v11 dir = rbind (load_records dir) (\<lambda>rs. Inr (aggregate_v11_records rs))"

definition meets_minimum :: "((string \<times> string) \<times> counts_row) list \<Rightarrow> nat \<Rightarrow> bool" where
  "meets_minimum counts minimum \<longleftrightarrow> length counts = 6 \<and> list_all (\<lambda>(k, c). minimum \<le> verified c) counts"

text \<open>\<open>csv.writer\<close> with its defaults: fields quoted when they need it, rows ended by CR LF.\<close>

definition csv_field :: "string \<Rightarrow> string" where
  "csv_field s =
     (if list_ex (\<lambda>c. c = CHR '','' \<or> c = CHR 0x22 \<or> c = CHR 0x0D \<or> c = CHR 0x0A) s
      then [CHR 0x22] @ concat (map (\<lambda>c. if c = CHR 0x22 then [CHR 0x22, CHR 0x22] else [c]) s) @ [CHR 0x22] else s)"

definition csv_row :: "string list \<Rightarrow> string" where
  "csv_row row = join '','' (map csv_field row) @ [CHR 0x0D, CHR 0x0A]"

definition manifest_text :: "((string \<times> string) \<times> counts_row) list \<Rightarrow> string" where
  "manifest_text counts =
     csv_row [''implementation'', ''fault_type'', ''total'', ''verified'', ''success'', ''downgrade''] @
     concat (map (\<lambda>((impl, fault), c).
       csv_row [impl, fault, dec (total c), dec (verified c), dec (success c), dec (downgrade c)]) (sort_key fst counts))"

definition write_manifest :: "run_dir \<Rightarrow> string \<Rightarrow> string option \<Rightarrow> files \<Rightarrow> files result" where
  "write_manifest dir dir_name out_csv fs =
     rbind (aggregate dir) (\<lambda>counts.
       Inr (fs((case out_csv of Some p \<Rightarrow> p | None \<Rightarrow> path_join dir_name ''manifest.csv'') \<mapsto> manifest_text counts)))"

record comparison_row =
  c_n :: nat
  c_verified :: nat
  c_success :: nat
  c_failure :: nat
  c_downgrade :: nat
  c_groups :: "string set"

definition comparison_step :: "RunRecord \<Rightarrow> comparison_row \<Rightarrow> comparison_row" where
  "comparison_step r c =
     (let c = c\<lparr>c_n := c_n c + 1\<rparr>;
          c = (if manipulation_verified r then c\<lparr>c_verified := c_verified c + 1\<rparr> else c);
          c = (if handshake_result (metrics r) = ''success'' then c\<lparr>c_success := c_success c + 1\<rparr>
               else c\<lparr>c_failure := c_failure c + 1\<rparr>);
          c = (if downgrade_visible (metrics r) then c\<lparr>c_downgrade := c_downgrade c + 1\<rparr> else c) in
      case negotiated_group (metrics r) of Some g \<Rightarrow> if g \<noteq> [] then c\<lparr>c_groups := insert g (c_groups c)\<rparr> else c | None \<Rightarrow> c)"

definition comparison_records :: "RunRecord list \<Rightarrow> ((string \<times> string) \<times> comparison_row) list" where
  "comparison_records rs = fold (\<lambda>r. dict_update (fault_key r)
     \<lparr>c_n = 0, c_verified = 0, c_success = 0, c_failure = 0, c_downgrade = 0, c_groups = {}\<rparr> (comparison_step r)) rs []"

definition comparison :: "run_dir \<Rightarrow> ((string \<times> string) \<times> comparison_row) list result" where
  "comparison dir = rbind (load_records dir) (\<lambda>rs. Inr (comparison_records rs))"

record comparison_v11_row =
  n11 :: nat
  v11_verified :: nat
  v11_success :: nat
  v11_failure :: nat
  v11_hrr :: nat
  v11_flagged :: nat

definition comparison_v11_step :: "RunRecord \<Rightarrow> comparison_v11_row \<Rightarrow> comparison_v11_row" where
  "comparison_v11_step r c =
     c\<lparr>n11 := n11 c + 1, v11_verified := v11_verified c + of_bool (manipulation_verified r),
       v11_success := v11_success c + of_bool (handshake_result (metrics r) = ''success''),
       v11_failure := v11_failure c + of_bool (handshake_result (metrics r) \<noteq> ''success''),
       v11_hrr := v11_hrr c + of_bool (hrr_present (metrics r) = Some True),
       v11_flagged := v11_flagged c + of_bool (downgrade_flagged (metrics r) = Some True)\<rparr>"

definition comparison_v11_records :: "RunRecord list \<Rightarrow> ((string \<times> string) \<times> comparison_v11_row) list" where
  "comparison_v11_records rs = fold (\<lambda>r. dict_update (condition_key r)
     \<lparr>n11 = 0, v11_verified = 0, v11_success = 0, v11_failure = 0, v11_hrr = 0, v11_flagged = 0\<rparr> (comparison_v11_step r)) rs []"

definition comparison_v11 :: "run_dir \<Rightarrow> ((string \<times> string) \<times> comparison_v11_row) list result" where
  "comparison_v11 dir = rbind (load_records dir) (\<lambda>rs. Inr (comparison_v11_records rs))"

definition groups_text :: "string set \<Rightarrow> string" where
  "groups_text gs = (let t = join '','' (sorted_list_of_set gs) in if t \<noteq> [] then t else ''-'')"

definition comparison_rows :: "run_dir \<Rightarrow> (string \<times> string \<times> comparison_row \<times> string) list result" where
  "comparison_rows dir =
     rbind (comparison dir) (\<lambda>d. Inr (map (\<lambda>((impl, fault), c). (impl, fault, c, groups_text (c_groups c))) (sort_key fst d)))"

abbreviation nl :: string where "nl \<equiv> [CHR 0x0A]"

definition render_markdown :: "run_dir \<Rightarrow> string result" where
  "render_markdown dir =
     rbind (comparison_rows dir) (\<lambda>rows.
       Inr (join nl
         ((''| implementation | fault_type | verified/n | success | failure | downgrade | negotiated group(s) |'' @ nl @
           ''|---|---|---|---|---|---|---|'') #
          map (\<lambda>(impl, fault, c, groups).
            ''| '' @ impl @ '' | '' @ fault @ '' | '' @ dec (c_verified c) @ ''/'' @ dec (c_n c) @ '' | '' @ dec (c_success c) @ '' | '' @
            dec (c_failure c) @ '' | '' @ dec (c_downgrade c) @ '' | '' @ groups @ '' |'') rows)))"

definition render_v11_markdown :: "run_dir \<Rightarrow> string result" where
  "render_v11_markdown dir =
     rbind (comparison_v11 dir) (\<lambda>d.
       Inr (join nl
         ((''| implementation | condition | verified/n | success | failure | HRR | downgrade flagged |'' @ nl @
           ''|---|---|---|---|---|---|---|'') #
          map (\<lambda>((impl, condition), c).
            ''| '' @ impl @ '' | '' @ condition @ '' | '' @ dec (v11_verified c) @ ''/'' @ dec (n11 c) @ '' | '' @
            dec (v11_success c) @ '' | '' @ dec (v11_failure c) @ '' | '' @ dec (v11_hrr c) @ '' | '' @ dec (v11_flagged c) @ '' |'')
            (sort_key fst d))))"

section \<open>The summaries are tallies\<close>

interpretation agg: tally aggregate_records fault_key "\<lparr>total = 0, verified = 0, success = 0, downgrade = 0\<rparr>" aggregate_step
  by unfold_locales (simp add: aggregate_records_def)

interpretation agg11: tally aggregate_v11_records condition_key
    "\<lparr>total = 0, verified = 0, success = 0, downgrade = 0, hrr = 0, flagged = 0\<rparr>" aggregate_v11_step
  by unfold_locales (simp add: aggregate_v11_records_def)

interpretation cmp: tally comparison_records fault_key
    "\<lparr>c_n = 0, c_verified = 0, c_success = 0, c_failure = 0, c_downgrade = 0, c_groups = {}\<rparr>" comparison_step
  by unfold_locales (simp add: comparison_records_def)

interpretation cmp11: tally comparison_v11_records condition_key
    "\<lparr>n11 = 0, v11_verified = 0, v11_success = 0, v11_failure = 0, v11_hrr = 0, v11_flagged = 0\<rparr>" comparison_v11_step
  by unfold_locales (simp add: comparison_v11_records_def)

lemma aggregate_fold:
  "fold aggregate_step rs c =
     c\<lparr>total := total c + length rs, verified := verified c + count_if manipulation_verified rs,
       success := success c + count_if (\<lambda>r. handshake_result (metrics r) = ''success'') rs,
       downgrade := downgrade c + count_if (\<lambda>r. downgrade_visible (metrics r)) rs\<rparr>"
  by (induction rs arbitrary: c) (simp_all add: aggregate_step_def)

lemma aggregate_v11_fold:
  "fold aggregate_v11_step rs c =
     c\<lparr>total := total c + length rs, verified := verified c + count_if manipulation_verified rs,
       success := success c + count_if (\<lambda>r. handshake_result (metrics r) = ''success'') rs,
       downgrade := downgrade c + count_if (\<lambda>r. downgrade_visible (metrics r)) rs,
       hrr := hrr c + count_if (\<lambda>r. hrr_present (metrics r) = Some True) rs,
       flagged := flagged c + count_if (\<lambda>r. downgrade_flagged (metrics r) = Some True) rs\<rparr>"
  by (induction rs arbitrary: c) (simp_all add: aggregate_v11_step_def)

lemma comparison_step_sel:
  "c_n (comparison_step r c) = c_n c + 1"
  "c_verified (comparison_step r c) = c_verified c + of_bool (manipulation_verified r)"
  "c_success (comparison_step r c) = c_success c + of_bool (handshake_result (metrics r) = ''success'')"
  "c_failure (comparison_step r c) = c_failure c + of_bool (handshake_result (metrics r) \<noteq> ''success'')"
  "c_downgrade (comparison_step r c) = c_downgrade c + of_bool (downgrade_visible (metrics r))"
  "c_groups (comparison_step r c) = c_groups c \<union> {g. g \<noteq> [] \<and> negotiated_group (metrics r) = Some g}"
  by (simp_all add: comparison_step_def Let_def split: option.split) auto

lemma comparison_fold:
  "c_n (fold comparison_step rs c) = c_n c + length rs"
  "c_verified (fold comparison_step rs c) = c_verified c + count_if manipulation_verified rs"
  "c_success (fold comparison_step rs c) = c_success c + count_if (\<lambda>r. handshake_result (metrics r) = ''success'') rs"
  "c_failure (fold comparison_step rs c) = c_failure c + count_if (\<lambda>r. handshake_result (metrics r) \<noteq> ''success'') rs"
  "c_downgrade (fold comparison_step rs c) = c_downgrade c + count_if (\<lambda>r. downgrade_visible (metrics r)) rs"
  "c_groups (fold comparison_step rs c) = c_groups c \<union> {g. g \<noteq> [] \<and> (\<exists>r \<in> set rs. negotiated_group (metrics r) = Some g)}"
proof -
  show "c_n (fold comparison_step rs c) = c_n c + length rs"
    by (induction rs arbitrary: c) (simp_all add: comparison_step_sel)
  show "c_verified (fold comparison_step rs c) = c_verified c + count_if manipulation_verified rs"
    by (induction rs arbitrary: c) (simp_all add: comparison_step_sel)
  show "c_success (fold comparison_step rs c) = c_success c + count_if (\<lambda>r. handshake_result (metrics r) = ''success'') rs"
    by (induction rs arbitrary: c) (simp_all add: comparison_step_sel)
  show "c_failure (fold comparison_step rs c) = c_failure c + count_if (\<lambda>r. handshake_result (metrics r) \<noteq> ''success'') rs"
    by (induction rs arbitrary: c) (simp_all add: comparison_step_sel)
  show "c_downgrade (fold comparison_step rs c) = c_downgrade c + count_if (\<lambda>r. downgrade_visible (metrics r)) rs"
    by (induction rs arbitrary: c) (simp_all add: comparison_step_sel)
  show "c_groups (fold comparison_step rs c) = c_groups c \<union> {g. g \<noteq> [] \<and> (\<exists>r \<in> set rs. negotiated_group (metrics r) = Some g)}"
  proof (induction rs arbitrary: c)
    case (Cons r rs)
    show ?case unfolding fold_simps Cons comparison_step_sel by auto
  qed simp
qed

section \<open>Theorems\<close>

text \<open>
  C25. \<open>aggregate\<close> and \<open>aggregate_v11\<close> count: they fail only if a document cannot be read, with the error
  of that document. Otherwise \<open>aggregate\<close> has exactly one row for each combination of implementation and
  fault that occurs in the records, with the number of records of the combination, of the verified, the
  successful and the downgraded ones among them; \<open>aggregate_v11\<close> has one row for each combination of
  implementation and condition, with the same four numbers, the number of records in which a
  HelloRetryRequest was seen, and the number of those that an audit of the offer would flag.
\<close>

theorem aggregate_counts:
  "case load_records dir of
     Inl e \<Rightarrow> aggregate dir = Inl e \<and> aggregate_v11 dir = Inl e
   | Inr rs \<Rightarrow> (\<exists>counts counts11. aggregate dir = Inr counts \<and> aggregate_v11 dir = Inr counts11 \<and>
       distinct (map fst counts) \<and> distinct (map fst counts11) \<and>
       (\<forall>impl fault c. ((impl, fault), c) \<in> set counts \<longleftrightarrow>
         (let cell = filter (\<lambda>r. implementation r = impl \<and> fault_type r = fault) rs in
          cell \<noteq> [] \<and> c = \<lparr>total = length cell, verified = count_if manipulation_verified cell,
            success = count_if (\<lambda>r. handshake_result (metrics r) = ''success'') cell,
            downgrade = count_if (\<lambda>r. downgrade_visible (metrics r)) cell\<rparr>)) \<and>
       (\<forall>impl condition c. ((impl, condition), c) \<in> set counts11 \<longleftrightarrow>
         (let cell = filter (\<lambda>r. implementation r = impl \<and> rec_condition r = condition) rs in
          cell \<noteq> [] \<and> c = \<lparr>total = length cell, verified = count_if manipulation_verified cell,
            success = count_if (\<lambda>r. handshake_result (metrics r) = ''success'') cell,
            downgrade = count_if (\<lambda>r. downgrade_visible (metrics r)) cell,
            hrr = count_if (\<lambda>r. hrr_present (metrics r) = Some True) cell,
            flagged = count_if (\<lambda>r. downgrade_flagged (metrics r) = Some True) cell\<rparr>)))"
proof (cases "load_records dir")
  case (Inr rs)
  have "(impl, fault) \<in> fault_key ` set rs \<longleftrightarrow> filter (\<lambda>r. implementation r = impl \<and> fault_type r = fault) rs \<noteq> []" for impl fault
    by (auto simp: fault_key_def filter_empty_conv image_iff)
  moreover have "(impl, condition) \<in> condition_key ` set rs \<longleftrightarrow>
      filter (\<lambda>r. implementation r = impl \<and> rec_condition r = condition) rs \<noteq> []" for impl condition
    by (auto simp: condition_key_def filter_empty_conv image_iff)
  ultimately show ?thesis
    using Inr agg.summary_distinct agg11.summary_distinct
    by (simp add: aggregate_def aggregate_v11_def agg.summary_rows agg11.summary_rows aggregate_fold aggregate_v11_fold
        fault_key_def condition_key_def Let_def)
qed (simp add: aggregate_def aggregate_v11_def)

lemma batch_cell:
  assumes "distinct (map (\<lambda>r. (repetition r, implementation r, fault_type r, rec_condition r)) rs)"
    and "set (map (\<lambda>r. (repetition r, implementation r, fault_type r, rec_condition r)) rs) = set (List.product [1..<N + 1] batch_combos)"
    and "(impl, fault, ''default'') \<in> set batch_combos"
  shows "length (filter (\<lambda>r. fault_key r = (impl, fault)) rs) = N"
proof -
  let ?f = "\<lambda>r. (repetition r, implementation r, fault_type r, rec_condition r)"
  let ?cell = "filter (\<lambda>r. fault_key r = (impl, fault)) rs"
  have d: "c = ''default''" if "(i, f, c) \<in> set batch_combos" for i f c using that by (auto simp: batch_combos_def)
  have "set (map ?f ?cell) = (\<lambda>k. (k, impl, fault, ''default'')) ` {1..N}"
  proof (intro equalityI subsetI)
    fix x assume "x \<in> set (map ?f ?cell)"
    then obtain r where r: "r \<in> set rs" "fault_key r = (impl, fault)" "x = ?f r" by auto
    then have "x \<in> set (List.product [1..<N + 1] batch_combos)" using assms(2) by auto
    then show "x \<in> (\<lambda>k. (k, impl, fault, ''default'')) ` {1..N}" using r d by (auto simp: fault_key_def)
  next
    fix x assume "x \<in> (\<lambda>k. (k, impl, fault, ''default'')) ` {1..N}"
    then obtain k where k: "k \<in> {1..N}" "x = (k, impl, fault, ''default'')" by blast
    then have "x \<in> set (map ?f rs)" using assms(2,3) by auto
    then obtain r where "r \<in> set rs" "x = ?f r" by auto
    then show "x \<in> set (map ?f ?cell)" using k by (auto simp: fault_key_def)
  qed
  moreover have "card ((\<lambda>k. (k, impl, fault, ''default'')) ` {1..N}) = N" by (subst card_image) (auto simp: inj_on_def)
  moreover have "distinct (map ?f ?cell)" using assms(1) by (rule distinct_map_filter)
  ultimately show ?thesis using distinct_card [of "map ?f ?cell"] by simp
qed

text \<open>
  C26. The batch of phase 4 meets its own sample size: if the records of a run directory are, in any
  order, those of the scenarios of \<open>batch_specs\<close> for \<open>N\<close> repetitions and all are verified, the check
  with minimum \<open>m\<close> succeeds exactly if \<open>m \<le> N\<close> (and there is at least one repetition).
\<close>

theorem batch_meets_minimum:
  assumes "distinct (map (\<lambda>r. (repetition r, implementation r, fault_type r, rec_condition r)) rs)"
    and "set (map (\<lambda>r. (repetition r, implementation r, fault_type r, rec_condition r)) rs) = set (List.product [1..<N + 1] batch_combos)"
    and "\<forall>r \<in> set rs. manipulation_verified r"
  shows "meets_minimum (aggregate_records rs) m \<longleftrightarrow> 1 \<le> N \<and> m \<le> N"
proof -
  let ?K = "(\<lambda>(i, f, c). (i, f)) ` set batch_combos"
  have d: "c = ''default''" if "(i, f, c) \<in> set batch_combos" for i f c using that by (auto simp: batch_combos_def)
  have cell: "length (filter (\<lambda>r. fault_key r = k) rs) = N" if "k \<in> ?K" for k
    using that batch_cell [OF assms(1,2)] d by fastforce
  have keys: "fault_key ` set rs = (if N = 0 then {} else ?K)"
  proof (intro equalityI subsetI)
    fix k assume "k \<in> fault_key ` set rs"
    then obtain r where r: "r \<in> set rs" "k = fault_key r" by blast
    then have "(repetition r, implementation r, fault_type r, rec_condition r) \<in> set (List.product [1..<N + 1] batch_combos)"
      using assms(2) by auto
    then show "k \<in> (if N = 0 then {} else ?K)" using r(2) by (force simp: fault_key_def)
  next
    fix k assume k: "k \<in> (if N = 0 then {} else ?K)"
    then have "filter (\<lambda>r. fault_key r = k) rs \<noteq> []" using cell [of k] by (auto split: if_splits)
    then show "k \<in> fault_key ` set rs" by (auto simp: filter_empty_conv)
  qed
  have six: "card ?K = 6" by (simp add: batch_combos_def)
  have "verified c = N" if "(k, c) \<in> set (aggregate_records rs)" for k c
  proof -
    have kc: "k \<in> fault_key ` set rs" "c = fold aggregate_step (filter (\<lambda>r. fault_key r = k) rs) \<lparr>total = 0, verified = 0, success = 0, downgrade = 0\<rparr>"
      using that by (auto simp: agg.summary_rows)
    have "count_if manipulation_verified (filter (\<lambda>r. fault_key r = k) rs) = length (filter (\<lambda>r. fault_key r = k) rs)"
      using assms(3) by (simp add: count_if_all)
    then show ?thesis using kc keys cell [of k] by (auto simp: aggregate_fold split: if_splits)
  qed
  moreover have "length (aggregate_records rs) = (if N = 0 then 0 else 6)"
    using agg.summary_length [of rs] keys six by simp
  ultimately show ?thesis
  proof (cases "N = 0")
    case False
    assume v: "\<And>k c. (k, c) \<in> set (aggregate_records rs) \<Longrightarrow> verified c = N"
      and l: "length (aggregate_records rs) = (if N = 0 then 0 else 6)"
    obtain k c rest where "aggregate_records rs = (k, c) # rest" using l False by (cases "aggregate_records rs") auto
    then have "(k, c) \<in> set (aggregate_records rs)" by simp
    with v have "(\<forall>(k, c) \<in> set (aggregate_records rs). m \<le> verified c) \<longleftrightarrow> m \<le> N" by fastforce
    then show ?thesis using l False by (simp add: meets_minimum_def list_all_iff)
  qed (simp add: meets_minimum_def)
qed

definition demo_batch :: "nat \<times> string \<times> string \<times> string \<Rightarrow> RunRecord" where
  "demo_batch = (\<lambda>(k, i, f, c). \<lparr>rec_run_id = run_id i f k c, implementation = i, fault_type = f, repetition = k,
     rec_condition = c, metrics = new_metrics None False False ''failure'', manipulation_verified = True, artifacts = [],
     provenance = [], audit = []\<rparr>)"

theorem batch_meets_minimum_witness:
  "meets_minimum (aggregate_records (map demo_batch (List.product [1..<10 + 1] batch_combos))) 10"
proof -
  have m: "map (\<lambda>r. (repetition r, implementation r, fault_type r, rec_condition r)) (map demo_batch xs) = xs" for xs
    by (induction xs) (auto simp: demo_batch_def)
  have v: "\<forall>r \<in> set (map demo_batch xs). manipulation_verified r" for xs
    by (auto simp: demo_batch_def)
  have d: "distinct (List.product [1..<10 + 1] batch_combos)"
    by (rule distinct_product) (simp_all add: batch_combos_def)
  have "meets_minimum (aggregate_records (map demo_batch (List.product [1..<10 + 1] batch_combos))) 10 \<longleftrightarrow>
      1 \<le> (10 :: nat) \<and> 10 \<le> (10 :: nat)"
    by (rule batch_meets_minimum [OF _ _ v]) (simp_all only: m d)
  then show ?thesis by simp
qed

theorem aggregate_counts_witness:
  "\<exists>counts counts11. aggregate [(''a.json'', asdict_record (demo_batch (1, ''openssl'', ''binding'', ''default'')))] = Inr counts \<and>
     aggregate_v11 [(''a.json'', asdict_record (demo_batch (1, ''openssl'', ''binding'', ''default'')))] = Inr counts11 \<and>
     ((''openssl'', ''binding''), \<lparr>total = 1, verified = 1, success = 0, downgrade = 0\<rparr>) \<in> set counts \<and>
     ((''openssl'', ''default''), \<lparr>total = 1, verified = 1, success = 0, downgrade = 0, hrr = 0, flagged = 0\<rparr>) \<in> set counts11"
proof -
  have l: "load_records [(''a.json'', asdict_record (demo_batch (1, ''openssl'', ''binding'', ''default'')))] =
      Inr [demo_batch (1, ''openssl'', ''binding'', ''default'')]"
    by (simp add: load_records_def)
  show ?thesis
    using aggregate_counts [of "[(''a.json'', asdict_record (demo_batch (1, ''openssl'', ''binding'', ''default'')))]"]
    unfolding l sum.case by (elim exE conjE) (intro exI conjI, assumption, assumption, simp_all add: demo_batch_def new_metrics_def)
qed

end
