(* ===== verification/Audit_Paths.thy ===== *)
theory Audit_Paths
  imports Aggregate
begin

text \<open>
  Model of \<open>tools/faultinject/audit.py\<close>: what the preserved outputs of a run (client log, server log,
  one-line summary of the capture) tell about a downgrade. \<open>fs\<close> is the text of the files of the run
  directory; \<open>runner\<close> gives the exit code and the standard output of a command, or the exception of
  starting it. The dictionaries are those that the record stores as JSON.

  The theorems say when a run counts as warned (a word of the warning list stands in one of the three
  outputs), that missing outputs are unknown and not negative, and that the table of counts loses no run.
\<close>

section \<open>Definitions\<close>

text \<open>The alternatives of \<open>WARNING_RE\<close> and the condition behind them; the search requires the start of a word.\<close>

definition WARNING_RE :: rx where
  "WARNING_RE = Seq (Grp (Alt (Seq (ilit ''downgrad'') (Rep True 0 is_word))
     (Alt (ilit ''insecure'') (Alt (ilit ''security warning'') (ilit ''policy''))))) (Ahead word_ends)"

definition not_newline :: "char \<Rightarrow> bool" where "not_newline c \<longleftrightarrow> c \<noteq> CHR 0x0A"

definition ADVERTISED_RE :: rx where
  "ADVERTISED_RE = Grp (Seq (Alt (Seq (ilit ''supported'') (Seq (Chr (\<lambda>c. c = CHR ''_'' \<or> c = CHR '' '')) (ilit ''groups'')))
       (ilit ''kex algorithms''))
     (Seq spaces (Seq (Chr (\<lambda>c. c = CHR '':'' \<or> c = CHR ''='' \<or> c = CHR ''('')) (Seq (Rep True 0 not_newline)
       (Alt (ilit ''x25519mlkem768'') (Alt (ilit ''x25519kyber768draft00'') (ilit ''sntrup761x25519'')))))))"

definition NEGOTIATED_RE :: rx where
  "NEGOTIATED_RE = Grp (Seq (Alt (lit ''Negotiated TLS1.3 group:'') (Alt (lit ''ECDHE group:'')
     (Alt (lit ''Peer Temp Key:'') (lit ''kex: algorithm:'')))) (Seq spaces non_spaces))"

definition NOT_COLLECTED :: "(string \<times> string) list" where
  "NOT_COLLECTED = [
     (''s_client -brief'', ''the client ran with -state -msg; no -brief output was captured''),
     (''keylog'', ''no key log was written; NSS key log lines hold labels, client randoms and secrets, not group names'')]"

record path_audit =
  path_warning :: "bool option"
  path_mismatch :: json
  evidence :: json

text \<open>\<open>m.group(0) if m else None\<close> for the outermost group of a search.\<close>

definition group0 :: "string list option \<Rightarrow> json" where
  "group0 m = (case m of Some (g # _) \<Rightarrow> JStr g | _ \<Rightarrow> JNull)"

definition audit_text :: "string option \<Rightarrow> path_audit" where
  "audit_text text = (case text of
     None \<Rightarrow> \<lparr>path_warning = None, path_mismatch = JNull, evidence = JStr ''output missing''\<rparr>
   | Some t \<Rightarrow>
     let warning = search_at word_starts WARNING_RE None t;
         advertised = search ADVERTISED_RE t;
         negotiated = search NEGOTIATED_RE t in
     \<lparr>path_warning = Some (warning \<noteq> None),
      path_mismatch = (if advertised \<noteq> None \<and> negotiated \<noteq> None then JBool True else JStr ''unsupported''),
      evidence = JObj [(''warning'', group0 warning), (''advertised'', group0 advertised), (''negotiated'', group0 negotiated)]\<rparr>)"

fun is_FileNotFoundError :: "py_error \<Rightarrow> bool" where
  "is_FileNotFoundError (OSError m) = starts_with ''No such file or directory'' m"
| "is_FileNotFoundError _ = False"

type_synonym runner = "string list \<Rightarrow> (int \<times> string) result"

definition tshark_summary :: "runner \<Rightarrow> string \<Rightarrow> string option result" where
  "tshark_summary runner pcap = (case runner [''tshark'', ''-r'', pcap] of
     Inl e \<Rightarrow> if is_FileNotFoundError e then Inr None else Inl e
   | Inr (returncode, stdout) \<Rightarrow> Inr (if returncode = 0 then Some stdout else None))"

type_synonym path_table = "(string \<times> path_audit) list"

definition overall_warning :: "path_table \<Rightarrow> bool option" where
  "overall_warning paths =
     (let warnings = map (\<lambda>p. path_warning (snd p)) paths in
      if List.member warnings (Some True) then Some True else if List.member warnings (Some False) then Some False else None)"

definition overall_mismatch :: "path_table \<Rightarrow> json" where
  "overall_mismatch paths =
     (let mismatches = map (\<lambda>p. path_mismatch (snd p)) paths in
      if List.member mismatches (JBool True) then JBool True
      else if List.member mismatches (JStr ''unsupported'') then JStr ''unsupported'' else JNull)"

definition basis :: "path_table \<Rightarrow> string list" where
  "basis paths = sort (map fst (filter (\<lambda>p. path_warning (snd p) = Some True \<or> path_mismatch (snd p) = JBool True) paths))"

definition summarize_paths :: "path_table \<Rightarrow> dict" where
  "summarize_paths paths =
     [(''explicit_warning'', jopt JBool (overall_warning paths)), (''mismatch_in_single_output'', overall_mismatch paths),
      (''basis'', JList (map JStr (basis paths)))]"

definition path_json :: "path_audit \<Rightarrow> json" where
  "path_json p = JObj [(''explicit_warning'', jopt JBool (path_warning p)), (''mismatch_in_single_output'', path_mismatch p),
     (''evidence'', evidence p)]"

text \<open>\<open>record.artifacts.get(key)\<close>, followed by the conversion that \<open>run_dir / name\<close> makes of a true value.\<close>

definition artifact_name :: "RunRecord \<Rightarrow> string \<Rightarrow> string option result" where
  "artifact_name r key = (case map_of (artifacts r) key of
     None \<Rightarrow> Inr None
   | Some j \<Rightarrow> if jtruthy (Some j) then rbind (as_str j) (\<lambda>s. Inr (Some s)) else Inr None)"

text \<open>The inner function \<open>read\<close>.\<close>

definition read_output :: "files \<Rightarrow> string \<Rightarrow> RunRecord \<Rightarrow> string \<Rightarrow> string option result" where
  "read_output fs run_dir r key =
     rbind (artifact_name r key) (\<lambda>n. Inr (case n of None \<Rightarrow> None | Some name \<Rightarrow> fs (path_join run_dir name)))"

text \<open>The three outputs of a run, and the table of all paths.\<close>

definition run_outputs :: "runner \<Rightarrow> files \<Rightarrow> string \<Rightarrow> RunRecord \<Rightarrow> (string \<times> string option) list result" where
  "run_outputs runner fs run_dir r =
     rbind (artifact_name r ''pcap'') (\<lambda>pcap.
     rbind (read_output fs run_dir r ''client_log'') (\<lambda>client.
     rbind (read_output fs run_dir r ''server_log'') (\<lambda>server.
     rbind (case pcap of None \<Rightarrow> Inr None | Some name \<Rightarrow> tshark_summary runner (path_join run_dir name)) (\<lambda>summary.
       Inr [(''client_log'', client), (''server_log'', server), (''tshark_summary'', summary)]))))"

definition path_table_of :: "(string \<times> string option) list \<Rightarrow> path_table" where
  "path_table_of outputs = map (\<lambda>(name, text). (name, audit_text text)) outputs @
     map (\<lambda>(name, reason). (name, \<lparr>path_warning = None, path_mismatch = JStr ''not_collected'', evidence = JStr reason\<rparr>))
       NOT_COLLECTED"

definition audit_record :: "runner \<Rightarrow> files \<Rightarrow> string \<Rightarrow> RunRecord \<Rightarrow> dict result" where
  "audit_record runner fs run_dir r =
     rbind (run_outputs runner fs run_dir r) (\<lambda>outputs.
     let paths = path_table_of outputs in
     Inr ((''paths'', JObj (map (\<lambda>(name, p). (name, path_json p)) paths)) # summarize_paths paths))"

text \<open>A row of \<open>recompute\<close>: run identifier, implementation, condition and audit.\<close>

record audit_row =
  row_run_id :: string
  row_implementation :: string
  row_condition :: string
  row_audit :: dict

definition recompute :: "runner \<Rightarrow> files \<Rightarrow> string \<Rightarrow> run_dir \<Rightarrow> audit_row list result" where
  "recompute runner fs dir files =
     rmap (\<lambda>f. rbind (from_json (snd f)) (\<lambda>r. rbind (audit_record runner fs dir r) (\<lambda>a.
       Inr \<lparr>row_run_id = rec_run_id r, row_implementation = implementation r, row_condition = rec_condition r, row_audit = a\<rparr>)))
       (sort_key fst files)"

text \<open>\<open>str(value)\<close> of the values that occur in the two columns.\<close>

fun py_str :: "json option \<Rightarrow> string" where
  "py_str (Some (JBool b)) = (if b then ''True'' else ''False'')"
| "py_str (Some (JStr s)) = s"
| "py_str _ = ''None''"

type_synonym counter = "(string \<times> nat) list"

definition bump :: "string \<Rightarrow> counter \<Rightarrow> counter" where "bump k c = dict_update k 0 Suc c"
definition count_of :: "counter \<Rightarrow> string \<Rightarrow> nat" where "count_of c k = (case map_of c k of Some n \<Rightarrow> n | None \<Rightarrow> 0)"

definition audit_row_step :: "audit_row \<Rightarrow> counter \<Rightarrow> counter" where
  "audit_row_step row c =
     bump (''mismatch='' @ py_str (map_of (row_audit row) ''mismatch_in_single_output''))
       (bump (''warning='' @ py_str (map_of (row_audit row) ''explicit_warning'')) (bump ''n'' c))"

definition audit_row_key :: "audit_row \<Rightarrow> string \<times> string" where
  "audit_row_key row = (row_implementation row, row_condition row)"

definition audit_counts :: "audit_row list \<Rightarrow> ((string \<times> string) \<times> counter) list" where
  "audit_counts rows = fold (\<lambda>row. dict_update (audit_row_key row) [] (audit_row_step row)) rows []"

definition render_audit_markdown :: "audit_row list \<Rightarrow> string" where
  "render_audit_markdown rows =
     join nl ([''| implementation | condition | n | warning true/false/unknown | single-output true/unsupported/unknown |'',
       ''|---|---|---:|---|---|''] @
      map (\<lambda>((impl, condition), c).
        ''| '' @ impl @ '' | '' @ condition @ '' | '' @ dec (count_of c ''n'') @ '' | '' @
        dec (count_of c ''warning=True'') @ ''/'' @ dec (count_of c ''warning=False'') @ ''/'' @ dec (count_of c ''warning=None'') @ '' | '' @
        dec (count_of c ''mismatch=True'') @ ''/'' @ dec (count_of c ''mismatch=unsupported'') @ ''/'' @
        dec (count_of c ''mismatch=None'') @ '' |'') (sort_key fst (audit_counts rows)))"


section \<open>Warnings\<close>

text \<open>The words that count as a warning, and the texts that contain one as a whole word.\<close>

definition warning_word :: "string \<Rightarrow> bool" where
  "warning_word w \<longleftrightarrow> (let v = map lower_char w in
     v = ''insecure'' \<or> v = ''security warning'' \<or> v = ''policy'' \<or>
     (starts_with ''downgrad'' v \<and> list_all is_word (drop 8 w)))"

definition warns :: "string \<Rightarrow> bool" where
  "warns t \<longleftrightarrow> (\<exists>a w b. t = a @ w @ b \<and> warning_word w \<and> (a = [] \<or> \<not> is_word (last a)) \<and> word_ends b)"

lemma take_word_rest: "k \<le> length (takeWhile is_word t) \<Longrightarrow> list_all is_word (take k t)"
proof -
  assume k: "k \<le> length (takeWhile is_word t)"
  have "take k (takeWhile is_word t) = take k t" by (subst takeWhile_eq_take) (use k in \<open>simp add: min_absorb1\<close>)
  then show ?thesis by (metis list_all_iff set_takeWhileD in_set_takeD)
qed

lemma take_while_append: "list_all P v \<Longrightarrow> length v \<le> length (takeWhile P (v @ b))"
  by (simp add: list_all_iff)

lemma downgrade_rests:
  "(\<exists>t \<in> rests (ilit ''downgrad'') s. \<exists>b \<in> rests (Rep True 0 is_word) t. word_ends b) \<longleftrightarrow>
   (\<exists>w b. s = w @ b \<and> starts_with ''downgrad'' (map lower_char w) \<and> list_all is_word (drop 8 w) \<and> word_ends b)"
proof safe
  fix t b assume "t \<in> rests (ilit ''downgrad'') s" "b \<in> rests (Rep True 0 is_word) t" "word_ends b"
  then obtain v k where v: "s = v @ t" "map lower_char v = ''downgrad''" and k: "b = drop k t" "k \<le> length (takeWhile is_word t)"
    by (auto simp: rests_ilit)
  have len: "length v = 8" using arg_cong [OF v(2), of length] by simp
  have "s = (v @ take k t) @ b" using v k by simp
  moreover have "starts_with ''downgrad'' (map lower_char (v @ take k t))"
    unfolding map_append v(2) by (auto simp: starts_with_iff)
  moreover have "list_all is_word (drop 8 (v @ take k t))" using take_word_rest [OF k(2)] len by simp
  ultimately show "\<exists>w b. s = w @ b \<and> starts_with ''downgrad'' (map lower_char w) \<and> list_all is_word (drop 8 w) \<and> word_ends b"
    using \<open>word_ends b\<close> by blast
next
  fix w b assume w: "starts_with ''downgrad'' (map lower_char w)" "list_all is_word (drop 8 w)" "word_ends b" "s = w @ b"
  have t8: "take 8 (map lower_char w) = ''downgrad''" using w(1) by (simp add: starts_with_take eval_nat_numeral)
  have "w @ b = take 8 w @ (drop 8 w @ b)" by (simp only: append_assoc [symmetric] append_take_drop_id)
  then have "drop 8 w @ b \<in> rests (ilit ''downgrad'') (w @ b)"
    unfolding rests_ilit mem_Collect_eq using t8 [unfolded take_map] by (intro exI [of _ "take 8 w"] conjI)
  moreover have "b \<in> rests (Rep True 0 is_word) (drop 8 w @ b)"
    unfolding rests_Rep using take_while_append [OF w(2)] by (intro image_eqI [of _ _ "length (drop 8 w)"]) auto
  ultimately show "\<exists>t\<in>rests (ilit ''downgrad'') (w @ b). \<exists>b\<in>rests (Rep True 0 is_word) t. word_ends b" using w(3) by blast
qed

lemma warning_rests: "rests WARNING_RE s \<noteq> {} \<longleftrightarrow> (\<exists>w b. s = w @ b \<and> warning_word w \<and> word_ends b)"
proof -
  have plain: "(\<exists>b \<in> rests (ilit v) s. word_ends b) \<longleftrightarrow> (\<exists>w b. s = w @ b \<and> map lower_char w = v \<and> word_ends b)" for v
    by (auto simp: rests_ilit)
  have "rests WARNING_RE s \<noteq> {} \<longleftrightarrow>
      (\<exists>t \<in> rests (ilit ''downgrad'') s. \<exists>b \<in> rests (Rep True 0 is_word) t. word_ends b) \<or>
      (\<exists>b \<in> rests (ilit ''insecure'') s. word_ends b) \<or> (\<exists>b \<in> rests (ilit ''security warning'') s. word_ends b) \<or>
      (\<exists>b \<in> rests (ilit ''policy'') s. word_ends b)"
    unfolding WARNING_RE_def rests_simps by (auto split: if_splits)
  moreover have "(\<exists>w b. s = w @ b \<and> (A w \<or> B w \<or> C w \<or> D w \<and> D' w) \<and> word_ends b) \<longleftrightarrow>
      (\<exists>w b. s = w @ b \<and> D w \<and> D' w \<and> word_ends b) \<or> (\<exists>w b. s = w @ b \<and> A w \<and> word_ends b) \<or>
      (\<exists>w b. s = w @ b \<and> B w \<and> word_ends b) \<or> (\<exists>w b. s = w @ b \<and> C w \<and> word_ends b)" for A B C D D'
    by blast
  ultimately show ?thesis unfolding downgrade_rests plain warning_word_def Let_def by (simp only:)
qed

lemma search_warning: "search_at word_starts WARNING_RE None t \<noteq> None \<longleftrightarrow> warns t"
proof -
  have "word_starts (if a = [] then None else Some (last a)) \<longleftrightarrow> a = [] \<or> \<not> is_word (last a)" for a
    by (simp add: word_starts_def)
  then show ?thesis unfolding search_at_Some_iff warning_rests warns_def by blast
qed

lemma audit_text_warning: "path_warning (audit_text x) = map_option warns x"
  by (cases x) (simp_all only: audit_text_def Let_def search_warning option.case option.map path_audit.select_convs)

section \<open>The overall result\<close>

lemma table_warnings:
  "map (\<lambda>p. path_warning (snd p)) (path_table_of outputs) = map (\<lambda>o1. map_option warns (snd o1)) outputs @ [None, None]"
  by (simp add: path_table_of_def audit_text_warning NOT_COLLECTED_def split_def comp_def)

lemma overall_warning_table:
  "overall_warning (path_table_of outputs) =
     (if list_all (\<lambda>x. snd x = None) outputs then None else Some (list_ex (\<lambda>x. case snd x of None \<Rightarrow> False | Some t \<Rightarrow> warns t) outputs))"
proof -
  have t: "Some True \<in> set (map (\<lambda>x. map_option warns (snd x)) outputs @ [None, None]) \<longleftrightarrow>
      list_ex (\<lambda>x. case snd x of None \<Rightarrow> False | Some t \<Rightarrow> warns t) outputs"
    by (induction outputs) (auto split: option.splits)
  have f: "Some False \<in> set (map (\<lambda>x. map_option warns (snd x)) outputs @ [None, None]) \<longleftrightarrow>
      list_ex (\<lambda>x. case snd x of None \<Rightarrow> False | Some t \<Rightarrow> \<not> warns t) outputs"
    by (induction outputs) (auto split: option.splits)
  have "list_all (\<lambda>x. snd x = None) outputs \<longleftrightarrow>
      \<not> list_ex (\<lambda>x. case snd x of None \<Rightarrow> False | Some t \<Rightarrow> warns t) outputs \<and>
      \<not> list_ex (\<lambda>x. case snd x of None \<Rightarrow> False | Some t \<Rightarrow> \<not> warns t) outputs"
    by (induction outputs) (auto split: option.splits)
  then show ?thesis unfolding overall_warning_def table_warnings Let_def List.member_iff t f by simp
qed

lemma run_outputs_names: "run_outputs runner fs dir r = Inr outputs \<Longrightarrow> map fst outputs = [''client_log'', ''server_log'', ''tshark_summary'']"
  by (auto simp: run_outputs_def res_simps)

lemma audit_record_lookup:
  assumes "audit_record runner fs dir r = Inr d"
  obtains outputs where "run_outputs runner fs dir r = Inr outputs"
    "map_of d ''explicit_warning'' = Some (jopt JBool (overall_warning (path_table_of outputs)))"
    "map_of d ''mismatch_in_single_output'' = Some (overall_mismatch (path_table_of outputs))"
  using assms by (auto simp: audit_record_def res_simps Let_def summarize_paths_def)

text \<open>
  C30. When a run counts as warned. Let \<open>outputs\<close> be the client log, the server log and the summary of the
  capture, each missing or a text. The audit of the run then has a value for \<open>explicit_warning\<close> that is
  unknown (null) exactly if all three are missing, and otherwise true exactly if one of them contains a
  word of the warning list as a whole word, in any case. The field \<open>basis\<close> is a sorted list of distinct
  names of these three outputs; it names every output with a warning and none of the paths that were
  not collected.
\<close>

theorem audit_record_warning:
  assumes "run_outputs runner fs dir r = Inr outputs"
  shows "\<exists>d bs. audit_record runner fs dir r = Inr d \<and>
    map_of d ''explicit_warning'' = Some (if list_all (\<lambda>x. snd x = None) outputs then JNull
      else JBool (list_ex (\<lambda>x. case snd x of None \<Rightarrow> False | Some t \<Rightarrow> warns t) outputs)) \<and>
    map_of d ''basis'' = Some (JList (map JStr bs)) \<and> sorted bs \<and> distinct bs \<and>
    set bs \<subseteq> {''client_log'', ''server_log'', ''tshark_summary''} \<and>
    (\<forall>name t. (name, Some t) \<in> set outputs \<and> warns t \<longrightarrow> name \<in> set bs)"
proof -
  let ?T = "path_table_of outputs"
  have sel: "filter (\<lambda>p. path_warning (snd p) = Some True \<or> path_mismatch (snd p) = JBool True) ?T =
      filter (\<lambda>p. path_warning (snd p) = Some True \<or> path_mismatch (snd p) = JBool True) (map (\<lambda>(name, x). (name, audit_text x)) outputs)"
    by (simp add: path_table_of_def NOT_COLLECTED_def)
  have fst: "map fst (map (\<lambda>(name, x). (name, audit_text x)) outputs) = [''client_log'', ''server_log'', ''tshark_summary'']"
    using run_outputs_names [OF assms] by (simp add: split_def comp_def)
  have "set (basis ?T) \<subseteq> set (map fst (map (\<lambda>(name, x). (name, audit_text x)) outputs))"
    unfolding basis_def set_sort sel set_map [of fst] by (intro image_mono) simp
  then have sub: "set (basis ?T) \<subseteq> {''client_log'', ''server_log'', ''tshark_summary''}" unfolding fst by simp
  have dist: "distinct (basis ?T)"
    unfolding basis_def distinct_sort sel by (rule distinct_map_filter) (simp add: fst del: map_map)
  have "name \<in> set (basis ?T)" if "(name, Some t) \<in> set outputs" "warns t" for name t
    unfolding basis_def set_sort sel set_map set_filter
    using that audit_text_warning [of "Some t"] by (intro image_eqI [of _ _ "(name, audit_text (Some t))"]) force+
  then have mem: "\<forall>name t. (name, Some t) \<in> set outputs \<and> warns t \<longrightarrow> name \<in> set (basis ?T)" by blast
  define d where "d = (''paths'', JObj (map (\<lambda>(name, p). (name, path_json p)) ?T)) # summarize_paths ?T"
  have "audit_record runner fs dir r = Inr d" by (simp add: audit_record_def assms d_def Let_def)
  have "map_of d ''explicit_warning'' = Some (if list_all (\<lambda>x. snd x = None) outputs then JNull
      else JBool (list_ex (\<lambda>x. case snd x of None \<Rightarrow> False | Some t \<Rightarrow> warns t) outputs))"
    by (simp add: d_def summarize_paths_def overall_warning_table)
  have "map_of d ''basis'' = Some (JList (map JStr (basis ?T)))" by (simp add: d_def summarize_paths_def)
  have "sorted (basis ?T)" by (simp add: basis_def)
  show ?thesis by (rule exI [of _ d], rule exI [of _ "basis ?T"], intro conjI) fact+
qed

definition demo_audited :: RunRecord where
  "demo_audited = \<lparr>rec_run_id = ''r'', implementation = ''openssl'', fault_type = ''condition'', repetition = 1,
     rec_condition = ''base'', metrics = new_metrics None False False ''success'', manipulation_verified = True,
     artifacts = [(''client_log'', JStr ''a.log''), (''pcap'', JStr ''a.pcapng'')], provenance = [], audit = []\<rparr>"

theorem audit_record_warning_witness:
  "\<exists>d bs. audit_record (\<lambda>_. Inr (0, ''no policy'')) [''d/a.log'' \<mapsto> ''ok''] ''d'' demo_audited = Inr d \<and>
     map_of d ''basis'' = Some (JList (map JStr bs)) \<and> ''tshark_summary'' \<in> set bs"
proof -
  have out: "run_outputs (\<lambda>_. Inr (0, ''no policy'')) [''d/a.log'' \<mapsto> ''ok''] ''d'' demo_audited =
      Inr [(''client_log'', Some ''ok''), (''server_log'', None), (''tshark_summary'', Some ''no policy'')]"
    by (simp add: run_outputs_def read_output_def artifact_name_def demo_audited_def tshark_summary_def path_join_def)
  have w: "warns ''no policy''"
    unfolding warns_def by (rule exI [of _ "''no ''"], rule exI [of _ "''policy''"], rule exI [of _ "[]"])
      (simp add: warning_word_def word_ends_def is_word_def lower_char_def Let_def)
  obtain d bs where d: "audit_record (\<lambda>_. Inr (0, ''no policy'')) [''d/a.log'' \<mapsto> ''ok''] ''d'' demo_audited = Inr d"
    "map_of d ''basis'' = Some (JList (map JStr bs))"
    and m: "\<And>name t. (name, Some t) \<in> set [(''client_log'', Some ''ok''), (''server_log'', None), (''tshark_summary'', Some ''no policy'')]
      \<Longrightarrow> warns t \<Longrightarrow> name \<in> set bs"
    using audit_record_warning [OF out] by blast
  have "''tshark_summary'' \<in> set bs" by (rule m [OF _ w]) simp
  with d show ?thesis by blast
qed

section \<open>The table of counts\<close>

interpretation audited: tally audit_counts audit_row_key "[]" audit_row_step
  by unfold_locales (simp add: audit_counts_def)

lemma count_of_bump [simp]: "count_of (bump k c) k' = count_of c k' + of_bool (k = k')"
  by (auto simp: count_of_def bump_def map_of_dict_update split: option.splits)

definition row_counters :: "audit_row \<Rightarrow> string list" where
  "row_counters row = [''n'', ''warning='' @ py_str (map_of (row_audit row) ''explicit_warning''),
     ''mismatch='' @ py_str (map_of (row_audit row) ''mismatch_in_single_output'')]"

lemma row_counters_distinct: "distinct (row_counters row)"
  by (simp add: row_counters_def)

lemma count_of_fold: "count_of (fold audit_row_step rows c) k = count_of c k + count_if (\<lambda>row. k \<in> set (row_counters row)) rows"
proof (induction rows arbitrary: c)
  case (Cons row rows)
  have "count_of (audit_row_step row c) k = count_of c k + of_bool (k \<in> set (row_counters row))"
    using row_counters_distinct [of row] by (auto simp: audit_row_step_def row_counters_def)
  then show ?case by (simp add: Cons)
qed simp

lemma recompute_row:
  assumes "recompute runner fs dir files = Inr rows" "row \<in> set rows"
  obtains r where "audit_record runner fs dir r = Inr (row_audit row)"
proof -
  obtain f :: "string \<times> dict" where "rbind (from_json (snd f)) (\<lambda>r. rbind (audit_record runner fs dir r) (\<lambda>a.
      Inr \<lparr>row_run_id = rec_run_id r, row_implementation = implementation r, row_condition = rec_condition r, row_audit = a\<rparr>)) = Inr row"
    using rmap_Inr_in [OF assms(1) [unfolded recompute_def] assms(2)] by blast
  then show thesis using that by (auto simp: res_simps)
qed

lemma recompute_columns:
  assumes "recompute runner fs dir files = Inr rows" "row \<in> set rows"
  shows "py_str (map_of (row_audit row) ''explicit_warning'') \<in> {''True'', ''False'', ''None''}"
    "py_str (map_of (row_audit row) ''mismatch_in_single_output'') \<in> {''True'', ''unsupported'', ''None''}"
proof -
  obtain r where "audit_record runner fs dir r = Inr (row_audit row)" using recompute_row [OF assms] .
  then obtain outputs where d: "map_of (row_audit row) ''explicit_warning'' = Some (jopt JBool (overall_warning (path_table_of outputs)))"
    "map_of (row_audit row) ''mismatch_in_single_output'' = Some (overall_mismatch (path_table_of outputs))"
    by (rule audit_record_lookup)
  show "py_str (map_of (row_audit row) ''explicit_warning'') \<in> {''True'', ''False'', ''None''}"
    unfolding d by (cases "overall_warning (path_table_of outputs)") simp_all
  show "py_str (map_of (row_audit row) ''mismatch_in_single_output'') \<in> {''True'', ''unsupported'', ''None''}"
    unfolding d by (simp add: overall_mismatch_def Let_def)
qed

lemma count_if_partition:
  assumes "\<And>r. r \<in> set rs \<Longrightarrow> f r \<in> {a, b, c}" "distinct [a, b, c]"
  shows "count_if (\<lambda>r. f r = a) rs + count_if (\<lambda>r. f r = b) rs + count_if (\<lambda>r. f r = c) rs = length rs"
  using assms(1)
proof (induction rs)
  case (Cons r rs)
  from Cons.prems [of r] assms(2) Cons show ?case by auto
qed simp

text \<open>
  The table loses no run. In the counts over recomputed records, the row of an implementation and a
  condition has as many runs as there are records with that key; the runs with, without and with an
  unknown warning add up to that number, and so do the three counts of the other column. Every
  implementation and condition that occurs has exactly one row.
\<close>

theorem audit_counts_partition:
  assumes "recompute runner fs dir files = Inr rows" "(k, c) \<in> set (audit_counts rows)"
  shows "count_of c ''n'' = count_if (\<lambda>row. audit_row_key row = k) rows \<and>
    count_of c ''warning=True'' + count_of c ''warning=False'' + count_of c ''warning=None'' = count_of c ''n'' \<and>
    count_of c ''mismatch=True'' + count_of c ''mismatch=unsupported'' + count_of c ''mismatch=None'' = count_of c ''n'' \<and>
    distinct (map fst (audit_counts rows)) \<and> fst ` set (audit_counts rows) = audit_row_key ` set rows"
proof -
  let ?R = "filter (\<lambda>row. audit_row_key row = k) rows"
  let ?w = "\<lambda>row. py_str (map_of (row_audit row) ''explicit_warning'')"
  let ?m = "\<lambda>row. py_str (map_of (row_audit row) ''mismatch_in_single_output'')"
  have c: "c = fold audit_row_step ?R []" using assms(2) unfolding audited.summary_rows by simp
  have cnt: "count_of c x = count_if (\<lambda>row. x \<in> set (row_counters row)) ?R" for x
    unfolding c count_of_fold by (simp add: count_of_def)
  have n: "count_of c ''n'' = length ?R" unfolding cnt by (simp add: row_counters_def)
  have w: "count_of c (''warning='' @ x) = count_if (\<lambda>row. ?w row = x) ?R" for x
    unfolding cnt by (rule arg_cong [where f = "\<lambda>P. count_if P ?R"]) (auto simp: row_counters_def)
  have m: "count_of c (''mismatch='' @ x) = count_if (\<lambda>row. ?m row = x) ?R" for x
    unfolding cnt by (rule arg_cong [where f = "\<lambda>P. count_if P ?R"]) (auto simp: row_counters_def)
  have "count_if (\<lambda>row. ?w row = ''True'') ?R + count_if (\<lambda>row. ?w row = ''False'') ?R + count_if (\<lambda>row. ?w row = ''None'') ?R = length ?R"
    by (rule count_if_partition) (use recompute_columns(1) [OF assms(1)] in auto)
  moreover have "count_if (\<lambda>row. ?m row = ''True'') ?R + count_if (\<lambda>row. ?m row = ''unsupported'') ?R + count_if (\<lambda>row. ?m row = ''None'') ?R = length ?R"
    by (rule count_if_partition) (use recompute_columns(2) [OF assms(1)] in auto)
  ultimately show ?thesis
    using n w [of "''True''"] w [of "''False''"] w [of "''None''"] m [of "''True''"] m [of "''unsupported''"] m [of "''None''"]
      audited.summary_distinct [of rows] audited.summary_keys [of rows]
    by (simp add: count_if_def [symmetric] del: count_if_simps)
qed

theorem audit_counts_partition_witness:
  "\<exists>rows c. recompute (\<lambda>_. Inr (1, [])) Map.empty ''d'' [(''r.json'', asdict_record demo_audited)] = Inr rows \<and>
     ((''openssl'', ''base''), c) \<in> set (audit_counts rows) \<and> count_of c ''n'' = 1 \<and> count_of c ''warning=None'' = 1"
proof -
  define a where "a = (''paths'', JObj (map (\<lambda>(name, p). (name, path_json p))
    (path_table_of [(''client_log'', None), (''server_log'', None), (''tshark_summary'', None)]))) #
    summarize_paths (path_table_of [(''client_log'', None), (''server_log'', None), (''tshark_summary'', None)])"
  define row where "row = \<lparr>row_run_id = ''r'', row_implementation = ''openssl'', row_condition = ''base'', row_audit = a\<rparr>"
  have "audit_record (\<lambda>_. Inr (1, [])) Map.empty ''d'' demo_audited = Inr a"
    by (simp add: a_def audit_record_def run_outputs_def read_output_def artifact_name_def demo_audited_def tshark_summary_def
      path_join_def Let_def)
  then have rows: "recompute (\<lambda>_. Inr (1, [])) Map.empty ''d'' [(''r.json'', asdict_record demo_audited)] = Inr [row]"
    by (simp add: recompute_def from_json_asdict row_def) (simp add: demo_audited_def)
  define c where "c = audit_row_step row []"
  have mem: "((''openssl'', ''base''), c) \<in> set (audit_counts [row])"
    by (simp add: audit_counts_def audit_row_key_def c_def row_def)
  have w: "map_of a ''explicit_warning'' = Some JNull"
    by (simp add: a_def summarize_paths_def overall_warning_table)
  have "count_of c ''n'' = 1" using audit_counts_partition [OF rows mem] by (simp add: audit_row_key_def row_def)
  moreover have "count_of c ''warning=None'' = 1"
    by (simp add: c_def audit_row_step_def row_def w) (simp add: count_of_def)
  ultimately show ?thesis using rows mem by blast
qed

end
