(* ===== verification/Analyze_V12.thy ===== *)
theory Analyze_V12
  imports Aggregate
begin

text \<open>
  The analysis of the server-setting experiments (v1.2, v1.3, v1.7) in
  \<open>tools/faultinject/analyze.py\<close>: the expected matrix, the counts per server and setting, the verdict
  and its rendering. \<open>fsize\<close> gives the size of a regular file, \<open>None\<close> for anything else; the
  dash in front of the reasons is written in ASCII.
\<close>

section \<open>Definitions\<close>

definition REQUIRED_ARTIFACTS_V12 :: "string list" where
  "REQUIRED_ARTIFACTS_V12 = [''pcap'', ''client_log'', ''server_log'', ''capture_log'']"

type_synonym cell = "string \<times> string"
type_synonym expectation = "bool \<times> string"

fun expected_loop :: "string list \<Rightarrow> string list \<Rightarrow> (cell \<times> expectation) list \<Rightarrow> (cell \<times> expectation) list" where
  "expected_loop vulnerable [] out = out"
| "expected_loop vulnerable (server # servers) out =
     expected_loop vulnerable servers
       (dict_set (server, ''S3'') (if server \<in> set vulnerable then (False, ''X25519'') else (True, ''X25519MLKEM768''))
         (dict_set (server, ''S2'') (True, ''X25519MLKEM768'')
           (dict_set (server, ''S1'') (False, ''X25519'') out)))"

definition expected_matrix :: "string list \<Rightarrow> string list \<Rightarrow> (cell \<times> expectation) list" where
  "expected_matrix vulnerable fixed = expected_loop vulnerable (vulnerable @ fixed) []"

definition EXPECTED_V12 :: "(cell \<times> expectation) list" where "EXPECTED_V12 = expected_matrix [''3.5.5''] [''3.5.6'']"
definition EXPECTED_V13 :: "(cell \<times> expectation) list" where
  "EXPECTED_V13 = expected_matrix [''3.5.6-revert'', ''3.6.1''] [''3.5.5-cherrypick'', ''3.6.2'']"
definition EXPECTED_V17 :: "(cell \<times> expectation) list" where
  "EXPECTED_V17 = expected_matrix [''3.6.2-revert''] [''3.6.1-cherrypick'']"

record v12_row =
  v12_n :: nat
  repetitions :: "nat set"
  precondition :: nat
  v12_success :: nat
  v12_failure :: nat
  hrr_pcap :: nat
  hrr_log :: nat
  hybrid :: nat
  classical :: nat
  unknown :: nat
  explicit_warning :: nat
  mismatch_in_single_output :: nat
  artifacts_complete :: nat
  provenance_complete :: nat
  hrr_agree :: nat
  single_server_hello :: nat

definition v12_zero :: v12_row where
  "v12_zero = \<lparr>v12_n = 0, repetitions = {}, precondition = 0, v12_success = 0, v12_failure = 0, hrr_pcap = 0, hrr_log = 0,
     hybrid = 0, classical = 0, unknown = 0, explicit_warning = 0, mismatch_in_single_output = 0, artifacts_complete = 0,
     provenance_complete = 0, hrr_agree = 0, single_server_hello = 0\<rparr>"

text \<open>\<open>all(...)\<close> over the required artifacts, which stops at the first that is missing or empty.\<close>

fun all_artifacts :: "(string \<Rightarrow> nat option) \<Rightarrow> string \<Rightarrow> RunRecord \<Rightarrow> string list \<Rightarrow> bool result" where
  "all_artifacts fsize dir r [] = Inr True"
| "all_artifacts fsize dir r (name # names) =
     (let j = map_of (artifacts r) name in
      if \<not> jtruthy j then Inr False else
      case j of
        Some (JStr s) \<Rightarrow> (case fsize (path_join dir s) of Some k \<Rightarrow> if 0 < k then all_artifacts fsize dir r names else Inr False
                          | None \<Rightarrow> Inr False)
      | _ \<Rightarrow> Inl (TypeError ''unsupported operand type(s) for /''))"

definition server_key :: "RunRecord \<Rightarrow> cell result" where
  "server_key r =
     rbind (look (map_of (provenance r)) ''server_version'') (\<lambda>v. rbind (as_str v) (\<lambda>version.
     rbind (look (map_of (provenance r)) ''server_setting'') (\<lambda>s. rbind (as_str s) (\<lambda>setting.
       Inr (version, setting)))))"

definition v12_step :: "bool \<times> RunRecord \<Rightarrow> v12_row \<Rightarrow> v12_row" where
  "v12_step item c = (case item of (complete, r) \<Rightarrow>
     let m = metrics r; final = final_negotiated_group m;
         c = c\<lparr>v12_n := v12_n c + 1, repetitions := insert (repetition r) (repetitions c),
           precondition := precondition c + of_bool (client_precondition_verified m = Some True),
           v12_success := v12_success c + of_bool (handshake_result m = ''success''),
           v12_failure := v12_failure c + of_bool (handshake_result m \<noteq> ''success''),
           hrr_pcap := hrr_pcap c + of_bool (hrr_pcap_present m = Some True),
           hrr_log := hrr_log c + of_bool (hrr_log_present m = Some True)\<rparr>;
         c = (if final = Some ''X25519MLKEM768'' then c\<lparr>hybrid := hybrid c + 1\<rparr>
              else if final = Some ''X25519'' then c\<lparr>classical := classical c + 1\<rparr>
              else c\<lparr>unknown := unknown c + 1\<rparr>) in
     c\<lparr>explicit_warning := explicit_warning c + of_bool (map_of (audit r) ''explicit_warning'' = Some (JBool True)),
       mismatch_in_single_output := mismatch_in_single_output c +
         of_bool (map_of (audit r) ''mismatch_in_single_output'' = Some (JBool True)),
       artifacts_complete := artifacts_complete c + of_bool complete,
       provenance_complete := provenance_complete c +
         of_bool (jtruthy (map_of (provenance r) ''server_bin_sha256'') \<and> jtruthy (map_of (provenance r) ''client_bin_sha256'')),
       hrr_agree := hrr_agree c + of_bool (hrr_log_present m = hrr_pcap_present m),
       single_server_hello := single_server_hello c + of_bool (Metrics.server_hello_count m = Some 1)\<rparr>)"

type_synonym v12_item = "cell \<times> bool \<times> RunRecord"

text \<open>One iteration of the loop: nothing for a record of another experiment.\<close>

definition v12_item_of :: "(string \<Rightarrow> nat option) \<Rightarrow> string \<Rightarrow> dict \<Rightarrow> v12_item option result" where
  "v12_item_of fsize dir doc =
     rbind (from_json doc) (\<lambda>r.
     if fault_type r \<noteq> ''server-setting'' then Inr None else
     rbind (server_key r) (\<lambda>k.
     rbind (all_artifacts fsize dir r REQUIRED_ARTIFACTS_V12) (\<lambda>complete.
       Inr (Some (k, complete, r)))))"

definition v12_summary :: "v12_item list \<Rightarrow> (cell \<times> v12_row) list" where
  "v12_summary items = fold (\<lambda>i. dict_update (fst i) v12_zero (v12_step (snd i))) items []"

definition v12_items :: "(string \<Rightarrow> nat option) \<Rightarrow> string \<Rightarrow> run_dir \<Rightarrow> v12_item list result" where
  "v12_items fsize dir files =
     rbind (rmap (\<lambda>f. v12_item_of fsize dir (snd f)) (sort_key fst files)) (\<lambda>xs. Inr (List.map_filter id xs))"

definition comparison_v12 :: "(string \<Rightarrow> nat option) \<Rightarrow> string \<Rightarrow> run_dir \<Rightarrow> (cell \<times> v12_row) list result" where
  "comparison_v12 fsize dir files = rbind (v12_items fsize dir files) (\<lambda>items. Inr (v12_summary items))"

definition FIELD_LABELS :: "((v12_row \<Rightarrow> nat) \<times> string) list" where
  "FIELD_LABELS = [(precondition, ''precondition''), (artifacts_complete, ''artifacts''), (provenance_complete, ''provenance''),
     (v12_success, ''success''), (hrr_agree, ''hrr agree''), (single_server_hello, ''single server_hello'')]"

definition list_text :: "nat list \<Rightarrow> string" where "list_text xs = ''['' @ join '', '' (map dec xs) @ '']''"

text \<open>The failures that one cell of the matrix adds.\<close>

definition cell_failures :: "(cell \<times> v12_row) list \<Rightarrow> nat \<Rightarrow> cell \<times> expectation \<Rightarrow> string list" where
  "cell_failures counts reps e = (case e of ((version, setting), (hrr_expected, final_expected)) \<Rightarrow>
     let label = version @ '' '' @ setting in
     case map_of counts (version, setting) of None \<Rightarrow> [label @ '': no records'']
     | Some c \<Rightarrow>
       let m = v12_n c;
           final_count = (if final_expected = ''X25519MLKEM768'' then hybrid c else classical c) in
       (if m \<noteq> reps \<or> repetitions c \<noteq> {1..<reps + 1}
        then [label @ '': repetitions '' @ list_text (sorted_list_of_set (repetitions c)) @ '' (n='' @ dec m @ '')''] else []) @
       concat (map (\<lambda>(fld, prefix). if fld c \<noteq> m then [label @ '': '' @ prefix @ '' '' @ dec (fld c) @ ''/'' @ dec m] else []) FIELD_LABELS) @
       (if hrr_pcap c \<noteq> (if hrr_expected then m else 0)
        then [label @ '': PCAP HRR '' @ dec (hrr_pcap c) @ ''/'' @ dec m @ '', expected '' @ (if hrr_expected then ''all'' else ''none'')]
        else []) @
       (if final_count \<noteq> m then [label @ '': final '' @ final_expected @ '' '' @ dec final_count @ ''/'' @ dec m] else []))"

definition cve_verdict :: "(cell \<times> v12_row) list \<Rightarrow> nat \<Rightarrow> (cell \<times> expectation) list \<Rightarrow> bool \<times> string list" where
  "cve_verdict counts reps expected =
     (let failures = concat (map (cell_failures counts reps) expected) in (failures = [], failures))"

definition render_v12_markdown ::
    "(string \<Rightarrow> nat option) \<Rightarrow> string \<Rightarrow> run_dir \<Rightarrow> (cell \<times> expectation) list \<Rightarrow> string \<Rightarrow> string \<times> string \<Rightarrow> string result" where
  "render_v12_markdown fsize dir files expected verdict_label words =
     rbind (comparison_v12 fsize dir files) (\<lambda>counts.
     let rows = map (\<lambda>((version, setting), c).
           ''| '' @ version @ '' | '' @ setting @ '' | '' @ dec (precondition c) @ ''/'' @ dec (v12_n c) @ '' | '' @ dec (v12_success c) @
           '' | '' @ dec (v12_failure c) @ '' | '' @ dec (hrr_pcap c) @ '' | '' @ dec (hrr_log c) @ '' | '' @ dec (hybrid c) @ '' | '' @
           dec (classical c) @ '' | '' @ dec (unknown c) @ '' | '' @ dec (explicit_warning c) @ '' | '' @
           dec (mismatch_in_single_output c) @ '' |'') (sort_key fst counts);
         (ok, reasons) = cve_verdict counts 10 expected in
     Inr (join nl
       ([''| server | setting | precondition/n | success | failure | HRR (PCAP) | HRR (log) | hybrid | classical | unknown | explicit warning | single-output mismatch |'',
         ''|---|---|---|---:|---:|---:|---:|---:|---:|---:|---:|---:|''] @ rows @
        [[], verdict_label @ '': '' @ (if ok then fst words else snd words @ '' '' @ em_dash @ '' '' @ join ''; '' reasons)])))"

section \<open>The verdict in terms of the records\<close>

interpretation v12: tally v12_summary fst v12_zero "\<lambda>i. v12_step (snd i)"
  by unfold_locales (simp add: v12_summary_def)

text \<open>The conditions on one record of a cell, and on the cell.\<close>

definition record_ok :: "expectation \<Rightarrow> bool \<times> RunRecord \<Rightarrow> bool" where
  "record_ok e item \<longleftrightarrow> (case (e, item) of ((hrr_expected, final_expected), (complete, r)) \<Rightarrow>
     client_precondition_verified (metrics r) = Some True \<and> complete \<and>
     jtruthy (map_of (provenance r) ''server_bin_sha256'') \<and> jtruthy (map_of (provenance r) ''client_bin_sha256'') \<and>
     handshake_result (metrics r) = ''success'' \<and> hrr_log_present (metrics r) = hrr_pcap_present (metrics r) \<and>
     Metrics.server_hello_count (metrics r) = Some 1 \<and>
     (hrr_pcap_present (metrics r) = Some True \<longleftrightarrow> hrr_expected) \<and>
     final_negotiated_group (metrics r) = Some (if final_expected = ''X25519MLKEM768'' then ''X25519MLKEM768'' else ''X25519''))"

definition cell_ok :: "nat \<Rightarrow> expectation \<Rightarrow> (bool \<times> RunRecord) list \<Rightarrow> bool" where
  "cell_ok reps e items \<longleftrightarrow> items \<noteq> [] \<and> length items = reps \<and> (\<lambda>i. repetition (snd i)) ` set items = {1..reps} \<and>
     (\<forall>i \<in> set items. record_ok e i)"

lemma v12_step_sel:
  "v12_n (v12_step (b, r) c) = v12_n c + 1"
  "repetitions (v12_step (b, r) c) = insert (repetition r) (repetitions c)"
  "precondition (v12_step (b, r) c) = precondition c + of_bool (client_precondition_verified (metrics r) = Some True)"
  "v12_success (v12_step (b, r) c) = v12_success c + of_bool (handshake_result (metrics r) = ''success'')"
  "hrr_pcap (v12_step (b, r) c) = hrr_pcap c + of_bool (hrr_pcap_present (metrics r) = Some True)"
  "hybrid (v12_step (b, r) c) = hybrid c + of_bool (final_negotiated_group (metrics r) = Some ''X25519MLKEM768'')"
  "classical (v12_step (b, r) c) = classical c + of_bool (final_negotiated_group (metrics r) = Some ''X25519'')"
  "artifacts_complete (v12_step (b, r) c) = artifacts_complete c + of_bool b"
  "provenance_complete (v12_step (b, r) c) = provenance_complete c +
     of_bool (jtruthy (map_of (provenance r) ''server_bin_sha256'') \<and> jtruthy (map_of (provenance r) ''client_bin_sha256''))"
  "hrr_agree (v12_step (b, r) c) = hrr_agree c + of_bool (hrr_log_present (metrics r) = hrr_pcap_present (metrics r))"
  "single_server_hello (v12_step (b, r) c) = single_server_hello c + of_bool (Metrics.server_hello_count (metrics r) = Some 1)"
  by (simp_all add: v12_step_def Let_def)

lemma v12_fold_count:
  assumes "\<And>b r c. sel (v12_step (b, r) c) = sel c + (of_bool (P b r) :: nat)"
  shows "sel (fold v12_step items c) = sel c + count_if (\<lambda>(b, r). P b r) items"
proof (induction items arbitrary: c)
  case (Cons i items)
  then show ?case by (cases i) (simp add: assms)
qed simp

lemma v12_fold_n: "v12_n (fold v12_step items c) = v12_n c + length items"
proof (induction items arbitrary: c)
  case (Cons i items)
  then show ?case by (cases i) (simp add: v12_step_sel)
qed simp

lemma v12_fold_repetitions: "repetitions (fold v12_step items c) = repetitions c \<union> (\<lambda>i. repetition (snd i)) ` set items"
proof (induction items arbitrary: c)
  case (Cons i items)
  then show ?case by (cases i) (simp add: v12_step_sel)
qed simp

lemmas v12_fold_sel = v12_fold_n v12_fold_repetitions v12_fold_count [OF v12_step_sel(3)] v12_fold_count [OF v12_step_sel(4)]
  v12_fold_count [OF v12_step_sel(5)] v12_fold_count [OF v12_step_sel(6)] v12_fold_count [OF v12_step_sel(7)]
  v12_fold_count [OF v12_step_sel(8)] v12_fold_count [OF v12_step_sel(9)] v12_fold_count [OF v12_step_sel(10)]
  v12_fold_count [OF v12_step_sel(11)]

lemma v12_lookup:
  "map_of (v12_summary items) k =
     (let rows = map snd (filter (\<lambda>i. fst i = k) items) in if rows = [] then None else Some (fold v12_step rows v12_zero))"
proof -
  have "k \<in> fst ` set items \<longleftrightarrow> filter (\<lambda>i. fst i = k) items \<noteq> []" by (auto simp: filter_empty_conv)
  moreover have "fold (\<lambda>i. v12_step (snd i)) xs c = fold v12_step (map snd xs) c" for xs :: "v12_item list" and c
    by (induction xs arbitrary: c) simp_all
  ultimately show ?thesis by (simp add: v12.summary_lookup Let_def)
qed

lemma if_list_Nil: "(if P then [x] else []) = [] \<longleftrightarrow> \<not> P"
  by simp

lemma cell_failures_iff:
  "cell_failures (v12_summary items) reps (k, e) = [] \<longleftrightarrow> cell_ok reps e (map snd (filter (\<lambda>i. fst i = k) items))"
proof -
  obtain v s h g where ke: "k = (v, s)" "e = (h, g)" by (cases k, cases e)
  define rows where "rows = map snd (filter (\<lambda>i. fst i = k) items)"
  have lk: "map_of (v12_summary items) (v, s) = (if rows = [] then None else Some (fold v12_step rows v12_zero))"
    using v12_lookup [of items "(v, s)"] by (simp add: rows_def ke Let_def)
  have rng: "{1..<reps + 1} = {1..reps}" by auto
  show ?thesis
  proof (cases "rows = []")
    case True
    then show ?thesis using lk by (simp add: cell_failures_def ke rows_def [symmetric, unfolded ke] cell_ok_def)
  next
    case False
    define c where "c = fold v12_step rows v12_zero"
    have "map_of (v12_summary items) (v, s) = Some c" using lk False by (simp add: c_def)
    then have cf: "cell_failures (v12_summary items) reps (k, e) = [] \<longleftrightarrow>
        v12_n c = reps \<and> repetitions c = {1..<reps + 1} \<and> precondition c = v12_n c \<and> artifacts_complete c = v12_n c \<and>
        provenance_complete c = v12_n c \<and> v12_success c = v12_n c \<and> hrr_agree c = v12_n c \<and> single_server_hello c = v12_n c \<and>
        hrr_pcap c = (if h then v12_n c else 0) \<and> (if g = ''X25519MLKEM768'' then hybrid c else classical c) = v12_n c"
      by (simp add: cell_failures_def ke FIELD_LABELS_def Let_def if_list_Nil del: not_all)
    have z: "v12_n c = length rows" "repetitions c = (\<lambda>i. repetition (snd i)) ` set rows"
      by (simp_all add: c_def v12_fold_sel v12_zero_def)
    have hrr: "hrr_pcap c = (if h then length rows else 0) \<longleftrightarrow>
        (\<forall>(b, r) \<in> set rows. hrr_pcap_present (metrics r) = Some True \<longleftrightarrow> h)"
      by (cases h) (simp_all add: c_def v12_fold_sel v12_zero_def count_if_all count_if_none split_def)
    have fin: "(if g = ''X25519MLKEM768'' then hybrid c else classical c) = length rows \<longleftrightarrow>
        (\<forall>(b, r) \<in> set rows. final_negotiated_group (metrics r) =
           Some (if g = ''X25519MLKEM768'' then ''X25519MLKEM768'' else ''X25519''))"
      by (simp add: c_def v12_fold_sel v12_zero_def count_if_all split_def)
    have cnt: "precondition c = length rows \<longleftrightarrow> (\<forall>(b, r) \<in> set rows. client_precondition_verified (metrics r) = Some True)"
      "artifacts_complete c = length rows \<longleftrightarrow> (\<forall>(b, r) \<in> set rows. b)"
      "provenance_complete c = length rows \<longleftrightarrow> (\<forall>(b, r) \<in> set rows. jtruthy (map_of (provenance r) ''server_bin_sha256'') \<and>
         jtruthy (map_of (provenance r) ''client_bin_sha256''))"
      "v12_success c = length rows \<longleftrightarrow> (\<forall>(b, r) \<in> set rows. handshake_result (metrics r) = ''success'')"
      "hrr_agree c = length rows \<longleftrightarrow> (\<forall>(b, r) \<in> set rows. hrr_log_present (metrics r) = hrr_pcap_present (metrics r))"
      "single_server_hello c = length rows \<longleftrightarrow> (\<forall>(b, r) \<in> set rows. Metrics.server_hello_count (metrics r) = Some 1)"
      by (simp_all add: c_def v12_fold_sel v12_zero_def count_if_all split_def)
    have "cell_ok reps e rows \<longleftrightarrow> length rows = reps \<and> (\<lambda>i. repetition (snd i)) ` set rows = {1..<reps + 1} \<and>
        precondition c = length rows \<and> artifacts_complete c = length rows \<and> provenance_complete c = length rows \<and>
        v12_success c = length rows \<and> hrr_agree c = length rows \<and> single_server_hello c = length rows \<and>
        hrr_pcap c = (if h then length rows else 0) \<and>
        (if g = ''X25519MLKEM768'' then hybrid c else classical c) = length rows"
      unfolding hrr fin cnt cell_ok_def rng ke(2) using False by (simp add: record_ok_def split_def ball_conj_distrib)
    then show ?thesis unfolding rows_def [symmetric] cf z by blast
  qed
qed

text \<open>
  C31. The verdict means what it says: on the counts of any list of records, \<open>cve_verdict\<close> is
  positive exactly if every cell of the expected matrix has the required number of records, with the
  repetition numbers from one up, each once, and each of these records has the verified client
  precondition, complete artifacts and provenance, a successful handshake with a single ServerHello,
  agreement of log and capture on the HelloRetryRequest, a HelloRetryRequest exactly where it is
  expected, and the expected final group. Otherwise it lists at least one reason.
\<close>

theorem cve_verdict_correct:
  "(fst (cve_verdict (v12_summary items) reps expected) \<longleftrightarrow>
     list_all (\<lambda>(k, e). cell_ok reps e (map snd (filter (\<lambda>i. fst i = k) items))) expected) \<and>
   (fst (cve_verdict (v12_summary items) reps expected) \<longleftrightarrow> snd (cve_verdict (v12_summary items) reps expected) = [])"
proof -
  have "(\<forall>x \<in> set expected. cell_failures (v12_summary items) reps x = []) \<longleftrightarrow>
      list_all (\<lambda>(k, e). cell_ok reps e (map snd (filter (\<lambda>i. fst i = k) items))) expected"
    by (auto simp: cell_failures_iff split_def list_all_iff)
  then show ?thesis by (simp add: cve_verdict_def Let_def)
qed

end
