(* ===== verification/Experiments.thy ===== *)
theory Experiments
  imports Audit_Paths Analyze_V12 "HOL-Library.Multiset"
begin

text \<open>
  What the drivers \<open>run.py\<close>, \<open>v12.py\<close>, \<open>v15.py\<close>, \<open>v16.py\<close>, \<open>v17.py\<close> and \<open>v18.py\<close> have in common: a list of
  scenarios is run one after the other, each record is evaluated and written again under its
  identifier. The locale \<open>driver\<close> is the contract of one such step: it writes the document of its own
  scenario and no other. It shows that a run that returns has stored exactly the records it returns,
  and that a run that stops with an exception has touched no other document.

  \<open>scenario_record\<close> describes the record that \<open>run_scenario\<close> hands to the evaluation.
\<close>

section \<open>Dictionaries\<close>

lemma map_of_dict_set [simp]: "map_of (dict_set k v d) = (map_of d)(k \<mapsto> v)"
  by (induction d) auto

lemma map_of_fold_dict_set: "map_of (fold (\<lambda>(k, v). dict_set k v) kvs d) = map_of d ++ map_of (rev kvs)"
  by (induction kvs arbitrary: d) (auto simp: map_add_upd_left split: prod.splits)

lemma dict_set_keys: "fst ` set (dict_set k v d) = insert k (fst ` set d)"
proof (induction d)
  case (Cons x d)
  then show ?case by (cases x) (simp add: insert_commute)
qed simp

lemma dict_set_distinct: "distinct (map fst d) \<Longrightarrow> distinct (map fst (dict_set k v d))"
proof (induction d)
  case (Cons x d)
  then show ?case using dict_set_keys [of k v d] by (cases x) auto
qed simp

lemma fold_dict_set_distinct: "distinct (map fst d) \<Longrightarrow> distinct (map fst (fold (\<lambda>(k, v). dict_set k v) kvs d))"
  by (induction kvs arbitrary: d) (auto intro: dict_set_distinct)

section \<open>The record of a scenario\<close>

lemma seqp_lift [simp]:
  "seqp (lift_result (Inl e)) f w = Some (Inl e, w)" "seqp (lift_result (Inr x)) f w = f x w" "seqp (ret x) f w = f x w"
  by (simp_all add: seqp_def lift_result_def ret_def)

abbreviation doc_path :: "string \<Rightarrow> string \<Rightarrow> string" where
  "doc_path dir i \<equiv> path_join dir (i @ ''.json'')"

lemma doc_path_inj [simp]: "doc_path dir i = doc_path dir j \<longleftrightarrow> i = j"
  by (simp add: path_join_def)

definition scenario_record :: "ScenarioSpec \<Rightarrow> RunRecord \<Rightarrow> bool" where
  "scenario_record sp r \<longleftrightarrow> rec_run_id r = identifier_of sp \<and> implementation r = sp_impl sp \<and> fault_type r = sp_fault_type sp \<and>
     repetition r = sp_repetition sp \<and> rec_condition r = sp_condition sp \<and>
     (\<exists>cap. artifacts r = scenario_artifacts sp cap) \<and> provenance r = [] \<and> audit r = []"

lemma finish_record:
  assumes "finish env sp client w = Some (Inr r, w')"
  shows "scenario_record sp r \<and> docs w' = (docs w)(doc_path (sp_out_dir sp) (identifier_of sp) \<mapsto> asdict_record r)"
proof -
  obtain out err code where c: "client = (out, err, code)" by (cases client) auto
  obtain w1 ms where "write_record env sp ms w1 = Some (Inr r, w')" "docs w1 = docs w"
    using assms unfolding c finish_def Let_def
    by (auto simp: check_proxy_def seqp_Inr act_def modify_def lift_result_def ret_def raise_def split: if_splits sum.splits)
  then show ?thesis
    by (auto simp: write_record_def Let_def scenario_record_def seqp_Inr act_def modify_def ret_def split: sum.splits)
qed

lemma run_scenario_Inr:
  assumes "run_scenario env sp w = Some (Inr r, w')"
  shows "server_starts env sp"
  using assms unfolding run_scenario_def server_starts_def by (auto split: sum.splits)

lemma run_scenario_result:
  assumes "run_scenario env sp w = Some (x, w')"
  shows "case x of Inl e \<Rightarrow> docs w' = docs w
    | Inr r \<Rightarrow> scenario_record sp r \<and> docs w' = (docs w)(doc_path (sp_out_dir sp) (identifier_of sp) \<mapsto> asdict_record r)"
proof (cases "server_starts env sp")
  case True
  obtain q w1 c w2 where ph: "run_body env sp (setup_world sp w) = Some (q, w1)" "cleanup env sp w1 = Some (c, w2)"
    "(\<exists>e. (c = Inl e \<or> c = Inr () \<and> q = Inl e) \<and> x = Inl e \<and> w' = w2) \<or>
     (\<exists>client. c = Inr () \<and> q = Inr client \<and> finish env sp client w2 = Some (x, w'))"
    by (rule run_scenario_phases [OF assms True])
  have d: "docs w2 = docs w"
    using preservesD [OF body_docs ph(1)] preservesD [OF cleanup_docs ph(2)] by (simp add: setup_world_def)
  show ?thesis
  proof (cases x)
    case (Inl e)
    then have "docs w' = docs w2" using ph(3) finish_docs_error by blast
    then show ?thesis using Inl d by simp
  next
    case (Inr r)
    then obtain client where "finish env sp client w2 = Some (Inr r, w')" using ph(3) by auto
    then show ?thesis using Inr d finish_record by fastforce
  qed
next
  case False
  then have "\<exists>e. x = Inl e" using assms run_scenario_Inr by (cases x) auto
  moreover have "docs w' = docs w"
    using assms False unfolding run_scenario_def server_starts_def by (auto split: sum.splits)
  ultimately show ?thesis by auto
qed

section \<open>Experiments\<close>

lemma for_each_Cons_Inr:
  "for_each step i (x # xs) w = Some (Inr zs, w') \<longleftrightarrow>
     (\<exists>y ys w1. step i x w = Some (Inr y, w1) \<and> for_each step (Suc i) xs w1 = Some (Inr ys, w') \<and> zs = y # ys)"
  by (auto simp: seqp_Inr ret_def)

locale item_driver =
  fixes step :: "nat \<Rightarrow> 'x \<Rightarrow> RunRecord prog"
    and key :: "'x \<Rightarrow> string"
    and ok :: "'x \<Rightarrow> bool"
    and out_dir :: string
  assumes step_stores: "step i x w = Some (Inr r, w') \<Longrightarrow> ok x \<Longrightarrow>
      rec_run_id r = key x \<and> docs w' = (docs w)(doc_path out_dir (key x) \<mapsto> asdict_record r)"
    and step_error: "step i x w = Some (Inl e, w') \<Longrightarrow> ok x \<Longrightarrow> p \<noteq> doc_path out_dir (key x) \<Longrightarrow> docs w' p = docs w p"
begin

lemma other_docs:
  "for_each step i xs w = Some (y, w') \<Longrightarrow> \<forall>x \<in> set xs. ok x \<Longrightarrow> p \<notin> (\<lambda>x. doc_path out_dir (key x)) ` set xs \<Longrightarrow>
   docs w' p = docs w p"
proof (induction xs arbitrary: i w y)
  case (Cons x xs)
  have p: "p \<noteq> doc_path out_dir (key x)" and x: "ok x" using Cons.prems by auto
  from Cons.prems(1) consider (err) e where "step i x w = Some (Inl e, w')"
    | (run) r w1 z where "step i x w = Some (Inr r, w1)" "for_each step (Suc i) xs w1 = Some (z, w')"
    by (auto simp: seqp_Some ret_def)
  then show ?case
  proof cases
    case err
    then show ?thesis using step_error x p by blast
  next
    case run
    have "docs w' p = docs w1 p" using Cons.IH [OF run(2)] Cons.prems by simp
    moreover have "docs w1 p = docs w p" using step_stores [OF run(1) x] p by simp
    ultimately show ?thesis by simp
  qed
qed (simp add: ret_def)

lemma records_stored:
  assumes "for_each step i xs w = Some (Inr rs, w')" "\<forall>x \<in> set xs. ok x" "distinct (map key xs)"
  shows "map rec_run_id rs = map key xs \<and> (\<forall>r \<in> set rs. docs w' (doc_path out_dir (rec_run_id r)) = Some (asdict_record r))"
  using assms
proof (induction xs arbitrary: i w rs)
  case Nil
  then show ?case by (simp add: ret_def)
next
  case (Cons x xs)
  from Cons.prems(1) obtain r ys w1 where r: "step i x w = Some (Inr r, w1)" "for_each step (Suc i) xs w1 = Some (Inr ys, w')" "rs = r # ys"
    unfolding for_each_Cons_Inr by blast
  have ok: "ok x" "\<forall>y \<in> set xs. ok y" and d: "distinct (map key xs)" using Cons.prems by auto
  have id: "rec_run_id r = key x" and w1: "docs w1 = (docs w)(doc_path out_dir (key x) \<mapsto> asdict_record r)"
    using step_stores [OF r(1) ok(1)] by auto
  have "doc_path out_dir (key x) \<notin> (\<lambda>y. doc_path out_dir (key y)) ` set xs"
    using Cons.prems(3) by (auto simp: path_join_def)
  then have "docs w' (doc_path out_dir (rec_run_id r)) = Some (asdict_record r)"
    using other_docs [OF r(2) ok(2)] w1 id by simp
  then show ?case using Cons.IH [OF r(2) ok(2) d] r(3) id by auto
qed

end

text \<open>The drivers whose items are the scenarios themselves, all of one output directory.\<close>

locale driver = item_driver step "\<lambda>sp. identifier_of sp" "\<lambda>sp. sp_out_dir sp = out_dir" out_dir
  for step :: "nat \<Rightarrow> ScenarioSpec \<Rightarrow> RunRecord prog" and out_dir :: string

text \<open>The steps behind the records of a run.\<close>

lemma for_each_list_all2:
  assumes "for_each step i sps w = Some (Inr rs, w')"
    and "\<And>i sp w r w'. step i sp w = Some (Inr r, w') \<Longrightarrow> P sp r"
  shows "list_all2 P sps rs"
  using assms(1)
proof (induction sps arbitrary: i w rs)
  case (Cons sp sps)
  then show ?case unfolding for_each_Cons_Inr using assms(2) by (metis list_all2_Cons)
qed (simp add: ret_def)

text \<open>Nested comprehensions that return: the results stand in the order of the product of the ranges.\<close>

lemma rconcat_map_product:
  assumes "rconcat_map F xs = Inr zs" "\<And>x us. F x = Inr us \<Longrightarrow> list_all2 (P x) ys us"
  shows "list_all2 (\<lambda>(x, y) z. P x y z) (List.product xs ys) zs"
proof -
  obtain zss where z: "rmap F xs = Inr zss" "zs = concat zss" using assms(1) by (auto simp: rconcat_map_def res_simps)
  have "list_all2 (\<lambda>x us. F x = Inr us) xs zss" using z(1) unfolding rmap_Inr_iff .
  then have "list_all2 (\<lambda>(x, y) z. P x y z) (List.product xs ys) (concat zss)"
  proof (induction xs zss rule: list_all2_induct)
    case (Cons x xs us uss)
    have "list_all2 (\<lambda>(x, y) z. P x y z) (map (Pair x) ys) us"
      using assms(2) [OF Cons(1)] by (simp add: list_all2_map1)
    then show ?case using Cons by (simp add: list_all2_appendI)
  qed simp
  then show ?thesis using z(2) by simp
qed

lemma rmap_returns: "(\<And>x. x \<in> set xs \<Longrightarrow> \<exists>y. f x = Inr y) \<Longrightarrow> \<exists>ys. rmap f xs = Inr ys"
proof (induction xs)
  case (Cons x xs)
  obtain y ys where "f x = Inr y" "rmap f xs = Inr ys" using Cons by fastforce
  then show ?case by simp
qed simp

lemma rconcat_map_returns: "(\<And>x. x \<in> set xs \<Longrightarrow> \<exists>y. f x = Inr y) \<Longrightarrow> \<exists>ys. rconcat_map f xs = Inr ys"
  using rmap_returns [of xs f] by (auto simp: rconcat_map_def)

lemma list_all2_map_eq: "list_all2 R xs ys \<Longrightarrow> (\<And>x y. R x y \<Longrightarrow> g y = h x) \<Longrightarrow> map g ys = map h xs"
  by (induction xs ys rule: list_all2_induct) auto

lemma list_all2_in2: "list_all2 R xs ys \<Longrightarrow> y \<in> set ys \<Longrightarrow> \<exists>x \<in> set xs. R x y"
  by (induction xs ys rule: list_all2_induct) auto

lemma list_all2_in1: "list_all2 R xs ys \<Longrightarrow> x \<in> set xs \<Longrightarrow> \<exists>y \<in> set ys. R x y"
  by (induction xs ys rule: list_all2_induct) auto

lemma filter_product:
  "distinct ks \<Longrightarrow> k \<in> set ks \<Longrightarrow> filter (\<lambda>t. snd t = k) (List.product xs ks) = map (\<lambda>x. (x, k)) xs"
proof (induction xs)
  case (Cons x xs)
  have "filter (\<lambda>y. y = k) ks = [k]" using Cons.prems by (induction ks) (auto simp: filter_empty_conv)
  then have "filter (\<lambda>t. snd t = k) (map (Pair x) ks) = [(x, k)]" by (simp add: filter_map comp_def)
  then show ?case using Cons by simp
qed simp

section \<open>The scenarios and the files of a run\<close>

text \<open>Identifiers of a matrix of cells, each repeated: they are distinct when the conditions of the cells are.\<close>

lemma product_keys_distinct:
  assumes "distinct cells" "inj_on cond (set cells)" "CHR ''_'' \<notin> set impl" "CHR ''_'' \<notin> set fault"
  shows "distinct (map (\<lambda>t. run_id impl fault (fst t) (cond (snd t))) (List.product [1..<n + 1] cells))"
proof -
  let ?P = "List.product [1..<n + 1] cells" and ?id = "\<lambda>t. run_id impl fault (fst t) (cond (snd t))"
  have "inj_on ?id (set ?P)"
  proof (rule inj_onI)
    fix x y assume xy: "x \<in> set ?P" "y \<in> set ?P" "?id x = ?id y"
    then have e: "fst x = fst y" "cond (snd x) = cond (snd y)" unfolding run_id_inj_lemma [OF assms(3,3,4,4)] by blast+
    moreover have "snd x \<in> set cells" "snd y \<in> set cells" using xy(1,2) by auto
    ultimately show "x = y" using inj_onD [OF assms(2)] by (metis prod.expand)
  qed
  moreover have "distinct ?P" using assms(1) by (simp add: distinct_product)
  ultimately show ?thesis by (simp add: distinct_map)
qed

lemma product_identifiers_distinct:
  assumes "list_all2 (\<lambda>t sp. identifier_of sp = run_id impl fault (fst t) (cond (snd t))) (List.product [1..<n + 1] cells) sps"
    and "distinct cells" "inj_on cond (set cells)" "CHR ''_'' \<notin> set impl" "CHR ''_'' \<notin> set fault"
  shows "distinct (map identifier_of sps)"
proof -
  have "map identifier_of sps = map (\<lambda>t. run_id impl fault (fst t) (cond (snd t))) (List.product [1..<n + 1] cells)"
    by (rule list_all2_map_eq [OF assms(1)])
  then show ?thesis using product_keys_distinct [OF assms(2-5), of n] by (simp only:)
qed

text \<open>The file of a record, and reading back the files of a run in whatever order they are listed.\<close>

definition stored :: "RunRecord \<Rightarrow> string \<times> dict" where "stored r = (rec_run_id r @ ''.json'', asdict_record r)"

lemma map_filter_Some: "List.map_filter id (map (\<lambda>x. Some (g x)) xs) = map g xs"
proof (induction xs)
  case (Cons x xs)
  then show ?case unfolding List.map_filter_def by simp
qed (simp add: List.map_filter_def)

lemma items_stored:
  assumes "mset files = mset (map stored rs)" "\<And>r. r \<in> set rs \<Longrightarrow> item (asdict_record r) = Inr (Some (g r))"
  shows "\<exists>items. rmap (\<lambda>f. item (snd f)) (sort_key fst files) = Inr (map Some items) \<and> mset items = mset (map g rs)"
proof -
  let ?g = "\<lambda>f :: string \<times> dict. case from_json (snd f) of Inr r \<Rightarrow> g r | Inl e \<Rightarrow> undefined"
  have set: "set files = stored ` set rs" using mset_eq_setD [OF assms(1)] by simp
  have "rmap (\<lambda>f. item (snd f)) (sort_key fst files) = Inr (map (\<lambda>f. Some (?g f)) (sort_key fst files))"
  proof (rule rmap_Inr_map)
    fix f assume "f \<in> set (sort_key fst files)"
    then obtain r where "r \<in> set rs" "f = stored r" using set by auto
    then show "item (snd f) = Inr (Some (?g f))" using assms(2) by (simp add: stored_def)
  qed
  moreover have "mset (map ?g (sort_key fst files)) = mset (map g rs)"
  proof -
    have "mset (map ?g (sort_key fst files)) = image_mset ?g (mset (map stored rs))" by (simp add: assms(1))
    also have "\<dots> = mset (map g rs)" by (simp add: image_mset.compositionality comp_def stored_def)
    finally show ?thesis .
  qed
  ultimately show ?thesis by (intro exI [of _ "map ?g (sort_key fst files)"] conjI) (simp_all only: map_map comp_def)
qed

lemma filter_cells:
  assumes "map (\<lambda>r. (repetition r, cell r)) rs = List.product [1..<n + 1] cells" "distinct cells" "k \<in> set cells"
  shows "map repetition (filter (\<lambda>r. cell r = k) rs) = [1..<n + 1]"
proof -
  let ?R = "filter (\<lambda>r. cell r = k) rs"
  have "map (\<lambda>r. (repetition r, cell r)) ?R = filter (\<lambda>t. snd t = k) (map (\<lambda>r. (repetition r, cell r)) rs)"
    by (simp add: filter_map comp_def)
  also have "\<dots> = map (\<lambda>x. (x, k)) [1..<n + 1]" unfolding assms(1) by (rule filter_product [OF assms(2,3)])
  finally have "map fst (map (\<lambda>r. (repetition r, cell r)) ?R) = map fst (map (\<lambda>x. (x, k)) [1..<n + 1])" by (simp only:)
  then show ?thesis by (simp add: comp_def)
qed

text \<open>A step that first computes something from its scenario and may raise there.\<close>

lemma driver_after:
  assumes "\<And>x. driver (step x) dir" "\<And>i sp. step' i sp = seqp (lift_result (pre sp)) (\<lambda>x. step x i sp)"
  shows "driver step' dir"
proof
  fix i sp w r w' assume s: "step' i sp w = Some (Inr r, w')" and dir: "sp_out_dir sp = dir"
  then obtain x where "step x i sp w = Some (Inr r, w')" unfolding assms(2) by (cases "pre sp") auto
  from item_driver.step_stores [OF assms(1) [unfolded driver_def] this dir]
  show "rec_run_id r = identifier_of sp \<and> docs w' = (docs w)(doc_path dir (identifier_of sp) \<mapsto> asdict_record r)" .
next
  fix i sp w e w' p assume s: "step' i sp w = Some (Inl e, w')" and dir: "sp_out_dir sp = dir" and p: "p \<noteq> doc_path dir (identifier_of sp)"
  show "docs w' p = docs w p"
  proof (cases "pre sp")
    case (Inl e')
    then show ?thesis using s by (simp add: assms(2))
  next
    case (Inr x)
    then have "step x i sp w = Some (Inl e, w')" using s by (simp add: assms(2))
    then show ?thesis using item_driver.step_error [OF assms(1) [unfolded driver_def] _ dir p] by blast
  qed
qed

section \<open>The drivers of the first phases\<close>

lemma verify_record_result:
  assumes "verify_record tshark repo dir r w = Some (x, w')"
  shows "case x of Inl e \<Rightarrow> docs w' = docs w
    | Inr r' \<Rightarrow> rec_run_id r' = rec_run_id r \<and> docs w' = (docs w)(doc_path dir (rec_run_id r) \<mapsto> asdict_record r')"
  using assms
  by (cases "record_verified tshark (texts w) repo r dir") (auto simp: verify_record_def mark_def Let_def modify_def seqp_def ret_def lift_result_def)

text \<open>A step that builds its scenario, runs it and then evaluates its record.\<close>

lemma building_driver:
  assumes mk: "\<And>x sp. ok x \<Longrightarrow> mk x = Inr sp \<Longrightarrow> identifier_of sp = key x \<and> sp_out_dir sp = dir"
    and eval: "\<And>i x sp r w y w'. evaluate i x sp r w = Some (y, w') \<Longrightarrow> scenario_record sp r \<Longrightarrow>
      case y of Inl e \<Rightarrow> \<forall>p. p \<noteq> doc_path dir (rec_run_id r) \<longrightarrow> docs w' p = docs w p
      | Inr r' \<Rightarrow> rec_run_id r' = rec_run_id r \<and> (docs w')(doc_path dir (rec_run_id r) := None) = (docs w)(doc_path dir (rec_run_id r) := None)
          \<and> docs w' (doc_path dir (rec_run_id r)) = Some (asdict_record r')"
  shows "item_driver (\<lambda>i x. seqp (lift_result (mk x)) (\<lambda>sp. seqp (run_scenario (envs i) sp) (evaluate i x sp))) key ok dir"
proof
  fix i x w r w' assume s: "seqp (lift_result (mk x)) (\<lambda>sp. seqp (run_scenario (envs i) sp) (evaluate i x sp)) w = Some (Inr r, w')" and ok: "ok x"
  then obtain sp where sp: "mk x = Inr sp" "seqp (run_scenario (envs i) sp) (evaluate i x sp) w = Some (Inr r, w')"
    by (cases "mk x") auto
  note m = mk [OF ok sp(1)]
  obtain r0 w1 where r0: "run_scenario (envs i) sp w = Some (Inr r0, w1)" "evaluate i x sp r0 w1 = Some (Inr r, w')"
    using sp(2) unfolding seqp_Inr by blast
  have sc: "scenario_record sp r0" "docs w1 = (docs w)(doc_path dir (key x) \<mapsto> asdict_record r0)"
    using run_scenario_result [OF r0(1)] m by auto
  then have id: "rec_run_id r0 = key x" using m by (simp add: scenario_record_def)
  have e: "rec_run_id r = key x" "(docs w')(doc_path dir (key x) := None) = (docs w1)(doc_path dir (key x) := None)"
    "docs w' (doc_path dir (key x)) = Some (asdict_record r)"
    using eval [OF r0(2) sc(1)] id by auto
  have "docs w' = (docs w)(doc_path dir (key x) \<mapsto> asdict_record r)"
  proof
    fix p show "docs w' p = ((docs w)(doc_path dir (key x) \<mapsto> asdict_record r)) p"
      using fun_cong [OF e(2), of p] e(3) sc(2) by (auto split: if_splits)
  qed
  with e(1) show "rec_run_id r = key x \<and> docs w' = (docs w)(doc_path dir (key x) \<mapsto> asdict_record r)" by simp
next
  fix i x w e w' p assume s: "seqp (lift_result (mk x)) (\<lambda>sp. seqp (run_scenario (envs i) sp) (evaluate i x sp)) w = Some (Inl e, w')"
    and ok: "ok x" and p: "p \<noteq> doc_path dir (key x)"
  show "docs w' p = docs w p"
  proof (cases "mk x")
    case (Inl e')
    then show ?thesis using s by simp
  next
    case (Inr sp)
    note m = mk [OF ok Inr]
    from s Inr consider (fails) "run_scenario (envs i) sp w = Some (Inl e, w')"
      | (evaluated) r0 w1 where "run_scenario (envs i) sp w = Some (Inr r0, w1)" "evaluate i x sp r0 w1 = Some (Inl e, w')"
      by (auto simp: seqp_Some)
    then show ?thesis
    proof cases
      case fails
      then show ?thesis using run_scenario_result [OF fails] by simp
    next
      case evaluated
      have sc: "scenario_record sp r0" "docs w1 = (docs w)(doc_path dir (key x) \<mapsto> asdict_record r0)"
        using run_scenario_result [OF evaluated(1)] m by auto
      then have "rec_run_id r0 = key x" using m by (simp add: scenario_record_def)
      then show ?thesis using eval [OF evaluated(2) sc(1)] sc(2) p by simp
    qed
  qed
qed

lemma evaluating_driver:
  assumes "\<And>i sp r w x w'. evaluate i sp r w = Some (x, w') \<Longrightarrow> case x of Inl e \<Rightarrow> docs w' = docs w
    | Inr r' \<Rightarrow> rec_run_id r' = rec_run_id r \<and> docs w' = (docs w)(doc_path dir (rec_run_id r) \<mapsto> asdict_record r')"
  shows "driver (\<lambda>i sp. seqp (run_scenario (envs i) sp) (evaluate i sp)) dir"
proof -
  have "item_driver (\<lambda>i sp. seqp (lift_result (Inr sp)) (\<lambda>sp'. seqp (run_scenario (envs i) sp') (evaluate i sp')))
      (\<lambda>sp. identifier_of sp) (\<lambda>sp. sp_out_dir sp = dir) dir"
  proof (rule building_driver)
    fix i sp r w x w' assume "evaluate i sp r w = Some (x, w')"
    then show "case x of Inl e \<Rightarrow> \<forall>p. p \<noteq> doc_path dir (rec_run_id r) \<longrightarrow> docs w' p = docs w p
        | Inr r' \<Rightarrow> rec_run_id r' = rec_run_id r \<and> (docs w')(doc_path dir (rec_run_id r) := None) = (docs w)(doc_path dir (rec_run_id r) := None)
            \<and> docs w' (doc_path dir (rec_run_id r)) = Some (asdict_record r')"
      using assms by (cases x) fastforce+
  qed simp
  moreover have "(\<lambda>i sp. seqp (lift_result (Inr sp)) (\<lambda>sp'. seqp (run_scenario (envs i) sp') (evaluate i sp'))) =
      (\<lambda>i sp. seqp (run_scenario (envs i) sp) (evaluate i sp))"
    by (intro ext) simp
  ultimately show ?thesis by (simp add: driver_def)
qed

interpretation phases: driver "run_and_verify envs tshark repo out_dir" out_dir for envs tshark repo out_dir
  unfolding run_and_verify_def by (rule evaluating_driver) (rule verify_record_result)

section \<open>A bench on which everything works\<close>

definition good_bench :: "run_env \<Rightarrow> ScenarioSpec \<Rightarrow> bool" where
  "good_bench env sp \<longleftrightarrow> (\<forall>a. outcome env a = Inr ()) \<and>
     (sp_capture_traffic sp \<longrightarrow> wait_for_capture (capture_started env + 5000) (capture_obs env) = Some (Inr ()) \<and> \<not> capture_exited env) \<and>
     wait_for_listener ''127.0.0.1'' (server_port_of sp) (listener_started env) 5000 (listener_obs env) = Some (Inr ()) \<and>
     (sp_proxy_upstream_port sp = None \<or> sp_proxy_mutate sp = None) \<and>
     (case client_run env of Inl e \<Rightarrow> False | Inr client \<Rightarrow> True)"

lemma good_body:
  assumes "good_bench env sp" "client_run env = Inr client" "\<not> has_capture w"
  shows "\<exists>w'. run_body env sp w = Some (Inr client, w') \<and> has_capture w' = sp_capture_traffic sp \<and>
    has_proxy w' = has_proxy w \<and> proxy_errors w' = proxy_errors w"
proof -
  have o: "outcome env a = Inr ()" for a using assms(1) by (simp add: good_bench_def)
  have p: "start_proxy env sp v = ret () v" for v
    using assms(1) by (auto simp: good_bench_def start_proxy_def split: option.splits)
  show ?thesis
    using assms unfolding good_bench_def run_body_def start_capture_def
    by (cases "sp_capture_traffic sp")
      (simp_all add: seqp_def whenp_def act_def o modify_def lift_poll_def check_capture_def p ret_def run_client_def lift_result_def)
qed

lemma good_cleanup:
  assumes "good_bench env sp" "\<not> has_proxy w"
  shows "\<exists>w'. cleanup env sp w = Some (Inr (), w') \<and> has_capture w' = has_capture w \<and> proxy_errors w' = proxy_errors w"
proof -
  have o: "outcome env a = Inr ()" for a using assms(1) by (simp add: good_bench_def)
  show ?thesis using assms(2)
    by (cases "has_capture w") (simp_all add: cleanup_def seqp_def whenp_def act_def o except_expired_def ret_def)
qed

lemma good_finish:
  assumes "good_bench env sp" "proxy_errors w = []" "GROUP_RE (sp_impl sp) \<noteq> None"
  shows "\<exists>r w'. finish env sp client w = Some (Inr r, w') \<and> artifacts r = scenario_artifacts sp (has_capture w)"
proof -
  have o: "outcome env a = Inr ()" for a using assms(1) by (simp add: good_bench_def)
  obtain out err code where c: "client = (out, err, code)" by (cases client) auto
  obtain m where "collect sp (out @ err) code = Inr m" using collect_returns [OF assms(3)] by blast
  then show ?thesis
    by (simp add: c finish_def check_proxy_def assms(2) seqp_def ret_def Let_def act_def o modify_def lift_result_def write_record_def)
qed

text \<open>Without a proxy, a scenario on such a bench returns a record, and its artifacts are those of the captured run.\<close>

lemma run_scenario_returns:
  assumes "good_bench env sp" "GROUP_RE (sp_impl sp) \<noteq> None"
  shows "\<exists>r w'. run_scenario env sp w = Some (Inr r, w') \<and> scenario_record sp r \<and>
    artifacts r = scenario_artifacts sp (sp_capture_traffic sp)"
proof -
  have st: "server_starts env sp" using assms(1) by (simp add: good_bench_def server_starts_def)
  obtain client where cl: "client_run env = Inr client" using assms(1) by (auto simp: good_bench_def split: sum.splits)
  let ?w = "setup_world sp w"
  obtain w1 where b: "run_body env sp ?w = Some (Inr client, w1)" "has_capture w1 = sp_capture_traffic sp" "\<not> has_proxy w1" "proxy_errors w1 = []"
    using good_body [OF assms(1) cl, of ?w] by (auto simp: setup_world_def)
  obtain w2 where c: "cleanup env sp w1 = Some (Inr (), w2)" "has_capture w2 = sp_capture_traffic sp" "proxy_errors w2 = []"
    using good_cleanup [OF assms(1) b(3)] b(2,4) by auto
  obtain r w' where f: "finish env sp client w2 = Some (Inr r, w')" "artifacts r = scenario_artifacts sp (sp_capture_traffic sp)"
    using good_finish [OF assms(1) c(3) assms(2), of client] unfolding c(2) by blast
  have "run_scenario env sp w = Some (Inr r, w')"
    unfolding run_scenario_started [OF st] by (simp add: seqp_def finally_do_def b(1) c(1) f(1))
  then show ?thesis using f(2) finish_record [OF f(1)] by blast
qed

text \<open>The part of it that does not depend on the scenario, for a port of the server.\<close>

definition bench_works :: "run_env \<Rightarrow> nat \<Rightarrow> bool" where
  "bench_works env port \<longleftrightarrow> (\<forall>a. outcome env a = Inr ()) \<and>
     wait_for_capture (capture_started env + 5000) (capture_obs env) = Some (Inr ()) \<and> \<not> capture_exited env \<and>
     wait_for_listener ''127.0.0.1'' port (listener_started env) 5000 (listener_obs env) = Some (Inr ()) \<and>
     (case client_run env of Inl e \<Rightarrow> False | Inr client \<Rightarrow> True)"

lemma good_benchI: "bench_works env (server_port_of sp) \<Longrightarrow> sp_proxy_mutate sp = None \<Longrightarrow> good_bench env sp"
  by (simp add: bench_works_def good_bench_def)

definition working_env :: "string \<times> string \<times> int \<Rightarrow> run_env" where
  "working_env client = \<lparr>outcome = (\<lambda>a. Inr ()), capture_started = 0, capture_obs = [(False, False, 10), (True, False, 60)],
     listener_started = 100, listener_obs = [(Inl (OSError ''refused''), 110), (Inr (), 160)], capture_exited = False,
     proxy_listening = Inr (), proxy_connected = Inr (), proxy_first = (Inr [], None), proxy_rounds = [[]],
     proxy_in_time = True, client_run = Inr client\<rparr>"

lemma working_env_works [simp]: "bench_works (working_env client) port"
  by (simp add: bench_works_def working_env_def is_OSError_def)

lemma for_each_returns:
  assumes "\<And>i sp w. sp \<in> set sps \<Longrightarrow> \<exists>r w'. step i sp w = Some (Inr r, w')"
  shows "\<exists>rs w'. for_each step i sps w = Some (Inr rs, w') \<and> length rs = length sps"
  using assms
proof (induction sps arbitrary: i w)
  case (Cons sp sps)
  obtain r w1 where r: "step i sp w = Some (Inr r, w1)" using Cons.prems by fastforce
  obtain rs w' where "for_each step (Suc i) sps w1 = Some (Inr rs, w')" "length rs = length sps"
    using Cons.IH [of "Suc i" w1] Cons.prems by auto
  then show ?case using r by (simp add: seqp_def ret_def)
qed (simp add: ret_def)

end
