(* ===== verification/Server_Settings.thy ===== *)
theory Server_Settings
  imports Experiments "HOL-Library.Multiset"
begin

text \<open>
  Model of \<open>tools/faultinject/v12.py\<close>: the matrix of OpenSSL servers and group settings (v1.2, v1.3, v1.4
  and the OpenSSL 3.6 part of v1.7). \<open>environ\<close> is \<open>os.environ\<close>, \<open>repo\<close> the root of the repository, \<open>sha256\<close> the
  hexadecimal digest of a byte string. A value of type \<open>disk\<close> holds the files that other processes have
  written: the capture as bytes, the server log as text; the harness's own texts are in the world.

  The theorems: the provenance of a record names the server and setting of its scenario; the preflight
  accepts exactly the benches on which every binary is the native release it should be, every port is
  free and no process is left over; a run never touches the documents of other runs; and the verdict
  over the records of a whole run depends on what each run showed and on nothing else.
\<close>

section \<open>Definitions\<close>

definition V12_PORT :: nat where "V12_PORT = 8545"
definition HYGIENE_PORTS :: "nat list" where "HYGIENE_PORTS = [8543, 8544, 2323, 9543, 9544, 9555, V12_PORT]"
definition CLIENT_GROUPS_V12 :: string where "CLIENT_GROUPS_V12 = ''X25519:X25519MLKEM768''"
definition HYBRID_FIRST_CLIENT_GROUPS :: string where "HYBRID_FIRST_CLIENT_GROUPS = ''X25519MLKEM768:*X25519''"
definition SERVER_VERSIONS :: "string list" where "SERVER_VERSIONS = [''3.5.5'', ''3.5.6'']"

definition SERVER_SETTINGS :: "string \<rightharpoonup> string option" where
  "SERVER_SETTINGS = [''S1'' \<mapsto> Some ''X25519MLKEM768:X25519'', ''S2'' \<mapsto> Some ''X25519MLKEM768/X25519'',
     ''S3'' \<mapsto> Some ''DEFAULT'', ''S4'' \<mapsto> None]"

definition REQUIRED_SETTINGS :: "string list" where "REQUIRED_SETTINGS = [''S1'', ''S2'', ''S3'']"
definition VARIANT_SERVERS :: "string list" where
  "VARIANT_SERVERS = [''3.5.5-cherrypick'', ''3.5.6-revert'', ''3.6.1'', ''3.6.2'']"
definition V36_VARIANT_SERVERS :: "string list" where "V36_VARIANT_SERVERS = [''3.6.1-cherrypick'', ''3.6.2-revert'']"

definition PREFIX :: "string \<rightharpoonup> string" where
  "PREFIX = map_of ([(''3.5.5'', PHASE2_ROOT @ ''/install/openssl''), (''3.5.6'', PHASE2_ROOT @ ''/install/openssl-3.5.6'')] @
     map (\<lambda>variant. (variant, PHASE2_ROOT @ ''/install/openssl-'' @ variant)) (VARIANT_SERVERS @ V36_VARIANT_SERVERS))"

definition REPORTED_VERSION :: "string \<rightharpoonup> string" where
  "REPORTED_VERSION = [''3.5.5-cherrypick'' \<mapsto> ''3.5.5'', ''3.5.6-revert'' \<mapsto> ''3.5.6'',
     ''3.6.1-cherrypick'' \<mapsto> ''3.6.1'', ''3.6.2-revert'' \<mapsto> ''3.6.2'']"

definition RESIDUAL_PATTERN :: string where
  "RESIDUAL_PATTERN = ''openssl s_server|openssl s_client|bssl (server|client)|sshd -D|tshark -i lo''"

definition v12_output_dir :: "string \<Rightarrow> string" where
  "v12_output_dir repo = repo @ ''/docs/research/baselines/raw/v1.2''"

definition reported_version :: "string \<Rightarrow> string" where
  "reported_version version = (case REPORTED_VERSION version of Some v \<Rightarrow> v | None \<Rightarrow> version)"

type_synonym path_dict = "(string \<times> string) list"

definition v12_paths :: "string list \<Rightarrow> path_dict result" where
  "v12_paths versions =
     rbind (look PREFIX ''3.5.5'') (\<lambda>client.
     rbind (rmap (\<lambda>version. rbind (look PREFIX version) (\<lambda>prefix.
       Inr (''server_bin_'' @ version, prefix @ ''/bin/openssl''))) versions) (\<lambda>servers.
       Inr (fold (\<lambda>(k, v). dict_set k v) servers [(''client_bin'', client @ ''/bin/openssl'')] @
         [(''cert'', PHASE2_ROOT @ ''/openssl/apps/server.pem'')])))"

definition native_environment :: "environ \<Rightarrow> string \<Rightarrow> environ result" where
  "native_environment environ version =
     (let environment = filter (\<lambda>kv. fst kv \<noteq> ''OPENSSL_MODULES'') environ in
      rbind (look PREFIX version) (\<lambda>prefix.
        Inr (dict_set ''OPENSSL_CONF'' ''/dev/null'' (dict_set ''LD_LIBRARY_PATH'' (prefix @ ''/lib64'') environment))))"

definition v12_spec :: "environ \<Rightarrow> string \<Rightarrow> string \<Rightarrow> nat \<Rightarrow> string \<Rightarrow> path_dict \<Rightarrow> string \<Rightarrow> ScenarioSpec result" where
  "v12_spec environ version setting rep out_dir paths client_groups =
     rbind (look SERVER_SETTINGS setting) (\<lambda>groups.
     rbind (look (map_of paths) (''server_bin_'' @ version)) (\<lambda>server_bin.
     rbind (look (map_of paths) ''cert'') (\<lambda>cert.
     rbind (look (map_of paths) ''client_bin'') (\<lambda>client_bin.
     rbind (native_environment environ ''3.5.5'') (\<lambda>client_env.
     rbind (native_environment environ version) (\<lambda>server_env.
     let server_cmd = [server_bin, ''s_server'', ''-tls1_3'', ''-www'', ''-provider'', ''default'', ''-accept'', dec V12_PORT,
           ''-cert'', cert] @ (case groups of Some g \<Rightarrow> if g \<noteq> [] then [''-groups'', g] else [] | None \<Rightarrow> []);
         client_cmd = [client_bin, ''s_client'', ''-tls1_3'', ''-state'', ''-msg'', ''-provider'', ''default'', ''-connect'',
           ''127.0.0.1:'' @ dec V12_PORT, ''-groups'', client_groups] in
     Inr ((new_spec ''openssl'' ''server-setting'' rep (version @ ''-'' @ setting) server_cmd client_cmd V12_PORT client_env out_dir)
       \<lparr>sp_capture_traffic := True, sp_advertised_hybrid := Some True, sp_server_env := Some server_env\<rparr>)))))))"

definition v12_specs :: "environ \<Rightarrow> nat \<Rightarrow> string \<Rightarrow> string list \<Rightarrow> path_dict \<Rightarrow> string list \<Rightarrow> string \<Rightarrow> ScenarioSpec list result" where
  "v12_specs environ reps out_dir settings paths versions client_groups =
     rconcat_map (\<lambda>rep. rconcat_map (\<lambda>version.
       rmap (\<lambda>setting. v12_spec environ version setting rep out_dir paths client_groups) settings) versions)
       [1..<reps + 1]"

subsection \<open>Preflight\<close>

text \<open>The output of a command run with an environment (\<open>None\<close>: the inherited one).\<close>

type_synonym command_output = "string list \<Rightarrow> environ option \<Rightarrow> string"

fun missing_path :: "(string \<Rightarrow> bool) \<Rightarrow> path_dict \<Rightarrow> string option" where
  "missing_path exists [] = None"
| "missing_path exists ((key, p) # paths) =
     (if \<not> exists p then Some (''missing: '' @ key @ '' -> '' @ p) else missing_path exists paths)"

definition binary_table :: "path_dict \<Rightarrow> (string \<times> string \<times> string) list result" where
  "binary_table paths =
     rbind (look (map_of paths) ''client_bin'') (\<lambda>client_bin.
       Inr ((''client (3.5.5)'', client_bin, ''3.5.5'') #
         map (\<lambda>(key, v). (''server '' @ drop 11 key, v, drop 11 key)) (filter (\<lambda>(key, v). starts_with ''server_bin_'' key) paths)))"

definition check_binary :: "environ \<Rightarrow> command_output \<Rightarrow> string \<times> string \<times> string \<Rightarrow> string option result" where
  "check_binary environ runner entry = (case entry of (label, binary, version) \<Rightarrow>
     rbind (native_environment environ version) (\<lambda>environment.
     let run = (\<lambda>args. runner (binary # args) (Some environment));
         reported = run [''version''];
         release = reported_version version;
         providers = run [''list'', ''-providers'', ''-provider'', ''default''] in
     Inr (if \<not> starts_with (''OpenSSL '' @ release @ '' '') reported \<or> \<not> contains (''(Library: OpenSSL '' @ release @ '' '') reported
       then Some (label @ '' reports '' @ py_repr (strip reported) @ '', expected OpenSSL '' @ release)
       else if \<not> contains ''default'' providers \<or> contains ''oqsprovider'' providers
       then Some (label @ '' is not native-only: '' @ py_repr (strip providers))
       else if \<not> contains ''X25519MLKEM768'' (run [''list'', ''-tls-groups'', ''-tls1_3''])
       then Some (label @ '' does not list X25519MLKEM768 natively'')
       else None)))"

fun check_binaries :: "environ \<Rightarrow> command_output \<Rightarrow> (string \<times> string \<times> string) list \<Rightarrow> string option result" where
  "check_binaries environ runner [] = Inr None"
| "check_binaries environ runner (entry # entries) =
     rbind (check_binary environ runner entry) (\<lambda>reason.
     case reason of Some m \<Rightarrow> Inr (Some m) | None \<Rightarrow> check_binaries environ runner entries)"

definition preflight_v12 ::
    "environ \<Rightarrow> (string \<Rightarrow> bool) \<Rightarrow> command_output \<Rightarrow> (nat \<Rightarrow> bool) \<Rightarrow> path_dict \<Rightarrow> (bool \<times> string) result" where
  "preflight_v12 environ exists runner port_free paths =
     (case missing_path exists paths of Some reason \<Rightarrow> Inr (False, reason)
      | None \<Rightarrow>
        rbind (binary_table paths) (\<lambda>binaries.
        rbind (check_binaries environ runner binaries) (\<lambda>reason.
        case reason of Some m \<Rightarrow> Inr (False, m)
        | None \<Rightarrow>
          let busy = filter (\<lambda>port. \<not> port_free port) HYGIENE_PORTS;
              residual = strip (runner [''pgrep'', ''-a'', ''-f'', RESIDUAL_PATTERN] None) in
          Inr (if busy \<noteq> [] then (False, ''ports in use: '' @ list_text busy)
            else if residual \<noteq> [] then (False, ''residual processes: '' @ residual)
            else (True, ''ok'')))))"

subsection \<open>Evaluation\<close>

record disk =
  disk_bytes :: "string \<Rightarrow> bytes option"
  disk_texts :: files

definition sha256_file :: "(bytes \<Rightarrow> string) \<Rightarrow> disk \<Rightarrow> string \<Rightarrow> string option" where
  "sha256_file sha256 d p = map_option sha256 (disk_bytes d p)"

definition jstrs :: "string list \<Rightarrow> json" where "jstrs xs = JList (map JStr xs)"

definition kept_env :: "environ \<Rightarrow> json" where
  "kept_env env = JObj (map (\<lambda>key. (key, jopt JStr (map_of env key))) [''LD_LIBRARY_PATH'', ''OPENSSL_CONF'', ''OPENSSL_MODULES''])"

definition split_condition :: "string \<Rightarrow> (string \<times> string) result" where
  "split_condition c = (case rsplit_once CHR ''-'' c of
     None \<Rightarrow> Inl (ValueError ''not enough values to unpack'') | Some vs \<Rightarrow> Inr vs)"

definition provenance_for :: "ScenarioSpec \<Rightarrow> path_dict \<Rightarrow> (string \<times> string option) list \<Rightarrow> dict result" where
  "provenance_for sp paths hashes =
     rbind (split_condition (sp_condition sp)) (\<lambda>(version, setting).
     rbind (look SERVER_SETTINGS setting) (\<lambda>groups.
     rbind (look (map_of paths) (''server_bin_'' @ version)) (\<lambda>server_bin.
     rbind (look (map_of paths) ''client_bin'') (\<lambda>client_bin.
     if sp_client_cmd sp = [] then Inl IndexError else
     case sp_server_env sp of None \<Rightarrow> Inl (AttributeError ''get'') | Some server_env \<Rightarrow>
     let hash = (\<lambda>key. jopt JStr (case map_of hashes key of Some h \<Rightarrow> h | None \<Rightarrow> None)) in
     Inr [(''server_version'', JStr version), (''server_setting'', JStr setting),
       (''server_groups_arg'', JStr (case groups of Some g \<Rightarrow> if g \<noteq> [] then g else ''(omitted)'' | None \<Rightarrow> ''(omitted)'')),
       (''server_bin'', JStr server_bin), (''server_bin_sha256'', hash (''server_bin_'' @ version)),
       (''server_libssl_sha256'', hash (''server_lib_'' @ version)), (''client_bin'', JStr client_bin),
       (''client_bin_sha256'', hash ''client_bin''), (''client_groups_arg'', JStr (last (sp_client_cmd sp))),
       (''server_preference'', JStr ''OpenSSL default (client preference; -serverpref not set)''),
       (''server_env'', kept_env server_env), (''client_env'', kept_env (sp_env sp)),
       (''server_cmd'', jstrs (sp_server_cmd sp)), (''client_cmd'', jstrs (sp_client_cmd sp))]))))"

text \<open>The four fields that a capture gives, for a check of the client's hello.\<close>

definition capture_metrics :: "(HelloSummary \<Rightarrow> bool) \<Rightarrow> HelloSummary \<Rightarrow> Metrics \<Rightarrow> Metrics" where
  "capture_metrics pre summary m =
     m\<lparr>hrr_pcap_present := Some (hrr_count summary > 0),
       Metrics.server_hello_count := Some (PCAP_Hello.server_hello_count summary),
       final_negotiated_group := group_name (final_group summary),
       client_precondition_verified := Some (pre summary)\<rparr>"

definition visible_texts :: "disk \<Rightarrow> world \<Rightarrow> files" where "visible_texts d w = disk_texts d ++ texts w"

text \<open>The contents of a capture that exists and is not empty.\<close>

definition usable_capture :: "disk \<Rightarrow> string option \<Rightarrow> bytes option" where
  "usable_capture d pcap = (case pcap of None \<Rightarrow> None | Some p \<Rightarrow>
     (case disk_bytes d p of Some capture \<Rightarrow> if capture \<noteq> [] then Some capture else None | None \<Rightarrow> None))"

definition v12_metrics :: "disk \<Rightarrow> files \<Rightarrow> string option \<Rightarrow> string \<Rightarrow> Metrics \<Rightarrow> Metrics result" where
  "v12_metrics d fs pcap client_log m =
     rbind (case usable_capture d pcap of
         Some capture \<Rightarrow> rbind (summarize_hellos capture) (\<lambda>summary. Inr (capture_metrics client_precondition summary m))
       | None \<Rightarrow> Inr (m\<lparr>hrr_pcap_present := None, Metrics.server_hello_count := None, final_negotiated_group := None,
           client_precondition_verified := Some False\<rparr>)) (\<lambda>m.
       Inr (m\<lparr>hrr_log_present := map_option detect_hrr (fs client_log), downgrade_flagged := None\<rparr>))"

definition evaluated_v12 :: "runner \<Rightarrow> disk \<Rightarrow> files \<Rightarrow> string \<Rightarrow> dict \<Rightarrow> RunRecord \<Rightarrow> RunRecord result" where
  "evaluated_v12 runner d fs run_dir prov r =
     rbind (artifact_name r ''pcap'') (\<lambda>pcap_name.
     rbind (artifact_path r run_dir ''client_log'') (\<lambda>client_log.
     rbind (v12_metrics d fs (map_option (path_join run_dir) pcap_name) client_log (metrics r)) (\<lambda>m.
     rbind (audit_record runner fs run_dir r) (\<lambda>a.
       Inr (r\<lparr>metrics := m, manipulation_verified := (client_precondition_verified m = Some True), provenance := prov, audit := a\<rparr>)))))"

text \<open>\<open>record.to_json_path(run_dir)\<close>, then the record.\<close>

definition store_record :: "string \<Rightarrow> RunRecord \<Rightarrow> RunRecord prog" where
  "store_record run_dir r = seqp (modify (\<lambda>w. w\<lparr>docs := (docs w)(doc_path run_dir (rec_run_id r) \<mapsto> asdict_record r)\<rparr>)) (\<lambda>_. ret r)"

definition evaluate_v12 :: "runner \<Rightarrow> disk \<Rightarrow> string \<Rightarrow> dict \<Rightarrow> RunRecord \<Rightarrow> RunRecord prog" where
  "evaluate_v12 runner d run_dir prov r w =
     seqp (lift_result (evaluated_v12 runner d (visible_texts d w) run_dir prov r)) (store_record run_dir) w"

subsection \<open>The run\<close>

text \<open>\<open>Path(p).parents[1]\<close>.\<close>

definition grandparent :: "string \<Rightarrow> string result" where
  "grandparent p = (let parts = split_char CHR ''/'' p in
     if length parts < 3 then Inl IndexError else Inr (join ''/'' (butlast (butlast parts))))"

definition v12_hashes :: "(bytes \<Rightarrow> string) \<Rightarrow> disk \<Rightarrow> path_dict \<Rightarrow> string list \<Rightarrow> (string \<times> string option) list result" where
  "v12_hashes sha256 d paths versions =
     rbind (rmap (\<lambda>version. rbind (look (map_of paths) (''server_bin_'' @ version)) (\<lambda>bin.
       rbind (grandparent bin) (\<lambda>prefix.
         Inr (''server_lib_'' @ version, sha256_file sha256 d (path_join prefix ''lib64/libssl.so.3''))))) versions) (\<lambda>libs.
       Inr (fold (\<lambda>(k, v). dict_set k v) libs
         (map (\<lambda>(key, v). (key, sha256_file sha256 d v)) (filter (\<lambda>(key, v). key \<noteq> ''cert'') paths))))"

text \<open>
  One element of the list of \<open>run_v12\<close>. \<open>envs i\<close>, \<open>disks i\<close> and \<open>runners i\<close> are what the \<open>i\<close>-th run meets:
  the processes, the files they leave and the output of \<open>tshark\<close>.
\<close>

definition v12_step_run :: "(nat \<Rightarrow> run_env) \<Rightarrow> (nat \<Rightarrow> disk) \<Rightarrow> (nat \<Rightarrow> runner) \<Rightarrow> string \<Rightarrow> path_dict \<Rightarrow>
    (string \<times> string option) list \<Rightarrow> nat \<Rightarrow> ScenarioSpec \<Rightarrow> RunRecord prog" where
  "v12_step_run envs disks runners out_dir paths hashes i sp =
     seqp (run_scenario (envs i) sp) (\<lambda>r.
     seqp (lift_result (provenance_for sp paths hashes)) (\<lambda>prov.
       evaluate_v12 (runners i) (disks i) out_dir prov r))"

text \<open>\<open>any(out_dir.glob("*.json"))\<close> for the names of the files of the output directory.\<close>

definition has_json :: "string list \<Rightarrow> bool" where "has_json listing = list_ex (ends_with ''.json'') listing"

text \<open>\<open>out_dir\<close> is the directory of line 226, \<open>listing\<close> the names of its files at the start.\<close>

definition run_v12 :: "(nat \<Rightarrow> run_env) \<Rightarrow> (nat \<Rightarrow> disk) \<Rightarrow> (nat \<Rightarrow> runner) \<Rightarrow> (bytes \<Rightarrow> string) \<Rightarrow> environ \<Rightarrow> string list \<Rightarrow> nat \<Rightarrow>
    string \<Rightarrow> string list \<Rightarrow> string list \<Rightarrow> string \<Rightarrow> RunRecord list prog" where
  "run_v12 envs disks runners sha256 environ listing reps out_dir settings versions client_groups =
     (if has_json listing then raise (RuntimeError (out_dir @ '' is not empty; choose a fresh --output-dir'')) else
      seqp (lift_result (v12_paths versions)) (\<lambda>paths.
      seqp (lift_result (v12_hashes sha256 (disks 0) paths versions)) (\<lambda>hashes.
      seqp (lift_result (v12_specs environ reps out_dir settings paths versions client_groups)) (\<lambda>specs.
        for_each (v12_step_run envs disks runners out_dir paths hashes) 0 specs))))"

section \<open>Scenarios and their provenance\<close>

lemma setting_no_dash: "look SERVER_SETTINGS setting = Inr g \<Longrightarrow> CHR ''-'' \<notin> set setting"
  by (auto simp: look_def SERVER_SETTINGS_def split: option.splits if_splits)

lemma split_condition_append: "CHR ''-'' \<notin> set setting \<Longrightarrow> split_condition (version @ ''-'' @ setting) = Inr (version, setting)"
  using rsplit_once_append [of "CHR ''-''" setting version] by (simp add: split_condition_def)

lemma condition_inj:
  assumes "\<forall>c \<in> set cells. CHR ''-'' \<notin> set (snd c)"
  shows "inj_on (\<lambda>(v, s). v @ ''-'' @ s) (set cells)"
proof (rule inj_onI)
  fix x y assume m: "x \<in> set cells" "y \<in> set cells" and e: "(case x of (v, s) \<Rightarrow> v @ ''-'' @ s) = (case y of (v, s) \<Rightarrow> v @ ''-'' @ s)"
  obtain v s v' s' where xy: "x = (v, s)" "y = (v', s')" by (cases x, cases y)
  have "split_condition (v @ ''-'' @ s) = Inr x" "split_condition (v' @ ''-'' @ s') = Inr y"
    using assms m split_condition_append by (simp_all only: xy) (metis snd_conv)+
  with e show "x = y" by (simp only: xy prod.case sum.inject)
qed

lemma v12_spec_fields:
  assumes "v12_spec environ version setting rep out_dir paths cg = Inr sp"
  shows "sp_impl sp = ''openssl''" "sp_fault_type sp = ''server-setting''" "sp_repetition sp = rep"
    "sp_condition sp = version @ ''-'' @ setting" "sp_out_dir sp = out_dir" "sp_capture_traffic sp" "sp_proxy_log sp = None"
    "CHR ''-'' \<notin> set setting" "sp_proxy_mutate sp = None" "server_port_of sp = V12_PORT" "\<exists>p. provenance_for sp paths hashes = Inr p \<and> map_of p ''server_version'' = Some (JStr version) \<and>
      map_of p ''server_setting'' = Some (JStr setting) \<and> map_of p ''client_groups_arg'' = Some (JStr cg) \<and>
      map_of p ''server_cmd'' = Some (jstrs (sp_server_cmd sp)) \<and> map_of p ''client_cmd'' = Some (jstrs (sp_client_cmd sp))"
proof -
  obtain groups sb cert cb ce se where l: "look SERVER_SETTINGS setting = Inr groups" "look (map_of paths) (''server_bin_'' @ version) = Inr sb"
    "look (map_of paths) ''client_bin'' = Inr cb" and sp: "sp = (new_spec ''openssl'' ''server-setting'' rep (version @ ''-'' @ setting)
       ([sb, ''s_server'', ''-tls1_3'', ''-www'', ''-provider'', ''default'', ''-accept'', dec V12_PORT,
           ''-cert'', cert] @ (case groups of Some g \<Rightarrow> if g \<noteq> [] then [''-groups'', g] else [] | None \<Rightarrow> []))
       [cb, ''s_client'', ''-tls1_3'', ''-state'', ''-msg'', ''-provider'', ''default'', ''-connect'',
           ''127.0.0.1:'' @ dec V12_PORT, ''-groups'', cg] V12_PORT ce out_dir)
       \<lparr>sp_capture_traffic := True, sp_advertised_hybrid := Some True, sp_server_env := Some se\<rparr>"
    using assms unfolding v12_spec_def by (auto simp: res_simps Let_def)
  show "sp_impl sp = ''openssl''" "sp_fault_type sp = ''server-setting''" "sp_repetition sp = rep"
    and c: "sp_condition sp = version @ ''-'' @ setting" and "sp_out_dir sp = out_dir" "sp_capture_traffic sp" "sp_proxy_log sp = None"
      "sp_proxy_mutate sp = None" "server_port_of sp = V12_PORT"
    by (simp_all add: sp new_spec_def or_default_def)
  show nd: "CHR ''-'' \<notin> set setting" by (rule setting_no_dash [OF l(1)])
  have cc: "sp_client_cmd sp \<noteq> []" "last (sp_client_cmd sp) = cg" "sp_server_env sp = Some se" by (simp_all add: sp new_spec_def)
  show "\<exists>p. provenance_for sp paths hashes = Inr p \<and> map_of p ''server_version'' = Some (JStr version) \<and>
      map_of p ''server_setting'' = Some (JStr setting) \<and> map_of p ''client_groups_arg'' = Some (JStr cg) \<and>
      map_of p ''server_cmd'' = Some (jstrs (sp_server_cmd sp)) \<and> map_of p ''client_cmd'' = Some (jstrs (sp_client_cmd sp))"
    by (simp add: provenance_for_def c split_condition_append [OF nd, simplified] l [simplified] cc Let_def)
qed

lemma v12_specs_list:
  assumes "v12_specs environ n out_dir settings paths versions cg = Inr specs"
  shows "list_all2 (\<lambda>(rep, v, s) sp. v12_spec environ v s rep out_dir paths cg = Inr sp)
    (List.product [1..<n + 1] (List.product versions settings)) specs"
  by (rule rconcat_map_product [OF assms [unfolded v12_specs_def]],
      rule rconcat_map_product [where P = "\<lambda>v s sp. v12_spec environ v s _ out_dir paths cg = Inr sp"], assumption)
    (simp add: rmap_Inr_iff)

lemma v12_specs_mem:
  assumes "v12_specs environ n out_dir settings paths versions cg = Inr specs" "sp \<in> set specs"
  obtains v s where "1 \<le> sp_repetition sp" "sp_repetition sp \<le> n" "v \<in> set versions" "s \<in> set settings"
    "v12_spec environ v s (sp_repetition sp) out_dir paths cg = Inr sp"
proof -
  from list_all2_in2 [OF v12_specs_list [OF assms(1)] assms(2)] obtain rep v s where
    m: "(rep, v, s) \<in> set (List.product [1..<n + 1] (List.product versions settings))" "v12_spec environ v s rep out_dir paths cg = Inr sp"
    by auto
  moreover have "sp_repetition sp = rep" by (rule v12_spec_fields(3) [OF m(2)])
  ultimately show thesis using that by auto
qed

lemma v12_specs_distinct:
  assumes "v12_specs environ n out_dir settings paths versions cg = Inr specs" "distinct versions" "distinct settings"
  shows "distinct (map identifier_of specs)"
proof -
  have l: "list_all2 (\<lambda>(rep, v, s) sp. identifier_of sp = run_id ''openssl'' ''server-setting'' rep (v @ ''-'' @ s) \<and> CHR ''-'' \<notin> set s)
      (List.product [1..<n + 1] (List.product versions settings)) specs"
    by (rule list_all2_mono [OF v12_specs_list [OF assms(1)]]) (auto simp: v12_spec_fields)
  show ?thesis
  proof (cases "n = 0")
    case True
    then show ?thesis using l by simp
  next
    case False
    have nd: "CHR ''-'' \<notin> set s" if "v \<in> set versions" "s \<in> set settings" for v s
    proof -
      have "(1, v, s) \<in> set (List.product [1..<n + 1] (List.product versions settings))" using that False by auto
      then show ?thesis using list_all2_in1 [OF l] by fastforce
    qed
    show ?thesis
    proof (rule product_identifiers_distinct [where cond = "\<lambda>(v, s). v @ ''-'' @ s"])
      show "list_all2 (\<lambda>t sp. identifier_of sp = run_id ''openssl'' ''server-setting'' (fst t) (case snd t of (v, s) \<Rightarrow> v @ ''-'' @ s))
          (List.product [1..<n + 1] (List.product versions settings)) specs"
        by (rule list_all2_mono [OF l]) auto
      show "distinct (List.product versions settings)" using assms(2,3) by (simp add: distinct_product)
      show "inj_on (\<lambda>(v, s). v @ ''-'' @ s) (set (List.product versions settings))"
        by (rule condition_inj) (use nd in auto)
    qed simp_all
  qed
qed

section \<open>A run of the matrix\<close>

lemma store_record_result: "store_record dir r w = Some (Inr r, w\<lparr>docs := (docs w)(doc_path dir (rec_run_id r) \<mapsto> asdict_record r)\<rparr>)"
  by (simp add: store_record_def ret_def)

text \<open>An evaluation that fails leaves the documents alone; one that returns stores what it returns.\<close>

lemma evaluation_result:
  assumes "seqp (lift_result x) (store_record dir) w = Some (y, w')" "\<And>r'. x = Inr r' \<Longrightarrow> rec_run_id r' = i"
  shows "case y of Inl e \<Rightarrow> docs w' = docs w | Inr r' \<Rightarrow> x = Inr r' \<and> rec_run_id r' = i \<and> docs w' = (docs w)(doc_path dir i \<mapsto> asdict_record r')"
  using assms by (cases x) (auto simp: store_record_result)

lemma evaluated_v12_fields:
  assumes "evaluated_v12 runner d fs dir prov r = Inr r'"
  shows "rec_run_id r' = rec_run_id r" "fault_type r' = fault_type r" "repetition r' = repetition r" "rec_condition r' = rec_condition r"
    "artifacts r' = artifacts r" "provenance r' = prov" "implementation r' = implementation r"
  using assms unfolding evaluated_v12_def by (auto simp: res_simps)

lemma evaluate_v12_result:
  assumes "evaluate_v12 runner d dir prov r w = Some (y, w')"
  shows "case y of Inl e \<Rightarrow> docs w' = docs w
    | Inr r' \<Rightarrow> evaluated_v12 runner d (visible_texts d w) dir prov r = Inr r' \<and> rec_run_id r' = rec_run_id r \<and>
        docs w' = (docs w)(doc_path dir (rec_run_id r) \<mapsto> asdict_record r')"
  by (rule evaluation_result [OF assms [unfolded evaluate_v12_def]]) (rule evaluated_v12_fields(1))

lemma evaluate_v12_after_provenance:
  assumes "seqp (lift_result (provenance_for sp paths hashes)) (\<lambda>prov. evaluate_v12 runner d dir prov r) w = Some (y, w')"
  shows "case y of Inl e \<Rightarrow> docs w' = docs w
    | Inr r' \<Rightarrow> rec_run_id r' = rec_run_id r \<and> docs w' = (docs w)(doc_path dir (rec_run_id r) \<mapsto> asdict_record r')"
proof (cases "provenance_for sp paths hashes")
  case (Inr prov)
  then have "evaluate_v12 runner d dir prov r w = Some (y, w')" using assms by simp
  from evaluate_v12_result [OF this] show ?thesis by (cases y) auto
qed (use assms in auto)

interpretation v12run: driver "v12_step_run envs disks runners out_dir paths hashes" out_dir
  for envs disks runners out_dir paths hashes
  unfolding v12_step_run_def by (rule evaluating_driver) (rule evaluate_v12_after_provenance)

lemma run_v12_Some:
  assumes "run_v12 envs disks runners sha256 environ listing n out_dir settings versions cg w = Some (x, w')" "\<not> has_json listing"
  shows "(\<exists>e. x = Inl e \<and> w' = w) \<or> (\<exists>paths hashes specs. v12_paths versions = Inr paths \<and>
    v12_specs environ n out_dir settings paths versions cg = Inr specs \<and>
    for_each (v12_step_run envs disks runners out_dir paths hashes) 0 specs w = Some (x, w'))"
proof (cases "v12_paths versions")
  case (Inr paths)
  note p = this
  show ?thesis
  proof (cases "v12_hashes sha256 (disks 0) paths versions")
    case (Inr hashes)
    show ?thesis
      by (cases "v12_specs environ n out_dir settings paths versions cg") (use assms p Inr in \<open>auto simp: run_v12_def\<close>)
  qed (use assms p in \<open>auto simp: run_v12_def\<close>)
qed (use assms in \<open>auto simp: run_v12_def\<close>)

text \<open>The documents that a run of the matrix may write.\<close>

definition v12_doc :: "string \<Rightarrow> string list \<Rightarrow> string list \<Rightarrow> nat \<Rightarrow> string \<Rightarrow> bool" where
  "v12_doc out_dir versions settings n p \<longleftrightarrow> (\<exists>rep v s. 1 \<le> rep \<and> rep \<le> n \<and> v \<in> set versions \<and> s \<in> set settings \<and>
     p = doc_path out_dir (run_id ''openssl'' ''server-setting'' rep (v @ ''-'' @ s)))"

lemma v12_specs_identifier:
  assumes "v12_specs environ n out_dir settings paths versions cg = Inr specs" "sp \<in> set specs"
  shows "v12_doc out_dir versions settings n (doc_path out_dir (identifier_of sp))" "sp_out_dir sp = out_dir"
proof -
  obtain v s where vs: "1 \<le> sp_repetition sp" "sp_repetition sp \<le> n" "v \<in> set versions" "s \<in> set settings"
    "v12_spec environ v s (sp_repetition sp) out_dir paths cg = Inr sp"
    by (rule v12_specs_mem [OF assms])
  then show "v12_doc out_dir versions settings n (doc_path out_dir (identifier_of sp))"
    unfolding v12_doc_def v12_spec_fields(1,2,4) [OF vs(5)] by blast
  show "sp_out_dir sp = out_dir" by (rule v12_spec_fields(5) [OF vs(5)])
qed

text \<open>
  A run of the server matrix keeps the documents of every other run. If the output directory holds
  a JSON file at the start, the run raises and the world is as before: no process was started and no
  file was written. In every other case, whether the run returns or stops with an exception, the only
  documents that can have changed are those named after a repetition, a server and a setting of this
  run; and a run that returns records has stored each of them under its identifier.
\<close>

theorem run_v12_keeps_documents:
  assumes "run_v12 envs disks runners sha256 environ listing n out_dir settings versions cg w = Some (x, w')"
  shows "(has_json listing \<longrightarrow> (\<exists>m. x = Inl (RuntimeError m)) \<and> w' = w) \<and>
    (\<forall>p. \<not> v12_doc out_dir versions settings n p \<longrightarrow> docs w' p = docs w p) \<and>
    (case x of Inl e \<Rightarrow> True | Inr rs \<Rightarrow> distinct versions \<and> distinct settings \<longrightarrow>
       (\<forall>r \<in> set rs. docs w' (doc_path out_dir (rec_run_id r)) = Some (asdict_record r)))"
proof (cases "has_json listing")
  case True
  then show ?thesis using assms by (auto simp: run_v12_def raise_def)
next
  case False
  from run_v12_Some [OF assms False] consider (err) e where "x = Inl e" "w' = w"
    | (run) paths hashes specs where "v12_specs environ n out_dir settings paths versions cg = Inr specs"
        "for_each (v12_step_run envs disks runners out_dir paths hashes) 0 specs w = Some (x, w')" by blast
  then show ?thesis
  proof cases
    case err
    then show ?thesis using False by simp
  next
    case run
    have dir: "\<forall>sp \<in> set specs. sp_out_dir sp = out_dir" using v12_specs_identifier(2) [OF run(1)] by blast
    have "docs w' p = docs w p" if "\<not> v12_doc out_dir versions settings n p" for p
      by (rule v12run.other_docs [OF run(2) dir]) (use that v12_specs_identifier(1) [OF run(1)] in auto)
    moreover have "\<forall>r \<in> set rs. docs w' (doc_path out_dir (rec_run_id r)) = Some (asdict_record r)"
      if "x = Inr rs" "distinct versions" "distinct settings" for rs
      using v12run.records_stored [OF run(2) [unfolded that(1)] dir v12_specs_distinct [OF run(1) that(2,3)]] by blast
    ultimately show ?thesis using False by (cases x) auto
  qed
qed

section \<open>From the run to the verdict\<close>

text \<open>The cell of a record, whether its artifacts are complete, and the condition that the matrix puts on it.\<close>

definition cell_of :: "RunRecord \<Rightarrow> cell" where
  "cell_of r = (case server_key r of Inr k \<Rightarrow> k | Inl e \<Rightarrow> ([], []))"

definition complete_of :: "(string \<Rightarrow> nat option) \<Rightarrow> string \<Rightarrow> RunRecord \<Rightarrow> bool" where
  "complete_of fsize dir r = (case all_artifacts fsize dir r REQUIRED_ARTIFACTS_V12 of Inr b \<Rightarrow> b | Inl e \<Rightarrow> False)"

definition run_ok :: "(string \<Rightarrow> nat option) \<Rightarrow> string \<Rightarrow> (cell \<times> expectation) list \<Rightarrow> RunRecord \<Rightarrow> bool" where
  "run_ok fsize dir expected r = (case map_of expected (cell_of r) of None \<Rightarrow> False | Some e \<Rightarrow> record_ok e (complete_of fsize dir r, r))"

lemma all_artifacts_returns:
  assumes "\<And>k j. map_of (artifacts r) k = Some j \<Longrightarrow> \<exists>s. j = JStr s"
  shows "\<exists>b. all_artifacts fsize dir r names = Inr b"
proof (induction names)
  case (Cons name names)
  then show ?case using assms [of name] by (cases "map_of (artifacts r) name") (auto simp: Let_def split: option.splits)
qed auto

lemma scenario_artifacts_str: "map_of (scenario_artifacts sp cap) k = Some j \<Longrightarrow> \<exists>s. j = JStr s"
  by (drule map_of_SomeD) (auto simp: scenario_artifacts_def split: if_splits option.splits)

lemma v12_step_record:
  assumes "v12_step_run envs disks runners out_dir paths hashes i sp w = Some (Inr r, w')"
    and "v12_spec environ v s rep out_dir paths cg = Inr sp"
  shows "fault_type r = ''server-setting''" "repetition r = rep" "server_key r = Inr (v, s)" "\<exists>b. all_artifacts fsize dir r names = Inr b"
proof -
  obtain p where p: "provenance_for sp paths hashes = Inr p" "map_of p ''server_version'' = Some (JStr v)" "map_of p ''server_setting'' = Some (JStr s)"
    using v12_spec_fields(11) [OF assms(2)] by blast
  obtain r0 w1 where r0: "run_scenario (envs i) sp w = Some (Inr r0, w1)" "evaluate_v12 (runners i) (disks i) out_dir p r0 w1 = Some (Inr r, w')"
    using assms(1) by (auto simp: v12_step_run_def seqp_Inr p(1) lift_result_def)
  have ev: "evaluated_v12 (runners i) (disks i) (visible_texts (disks i) w1) out_dir p r0 = Inr r"
    using evaluate_v12_result [OF r0(2)] by simp
  have sc: "scenario_record sp r0" using run_scenario_result [OF r0(1)] by simp
  note f = evaluated_v12_fields [OF ev]
  show "fault_type r = ''server-setting''" "repetition r = rep"
    using f sc v12_spec_fields(2,3) [OF assms(2)] by (simp_all add: scenario_record_def)
  show "server_key r = Inr (v, s)" by (simp add: server_key_def f(6) look_def p(2,3))
  show "\<exists>b. all_artifacts fsize dir r names = Inr b"
    by (rule all_artifacts_returns) (use f(5) sc scenario_artifacts_str in \<open>auto simp: scenario_record_def\<close>)
qed

lemma v12_item_of_record:
  assumes "fault_type r = ''server-setting''" "server_key r = Inr k" "\<exists>b. all_artifacts fsize dir r REQUIRED_ARTIFACTS_V12 = Inr b"
  shows "v12_item_of fsize dir (asdict_record r) = Inr (Some (cell_of r, complete_of fsize dir r, r))"
  using assms by (auto simp: v12_item_of_def cell_of_def complete_of_def)

lemma cell_ok_mset: "mset xs = mset ys \<Longrightarrow> cell_ok n e xs = cell_ok n e ys"
proof -
  assume m: "mset xs = mset ys"
  have "xs = [] \<longleftrightarrow> ys = []" using mset_eq_length [OF m] by auto
  then show ?thesis unfolding cell_ok_def mset_eq_length [OF m] mset_eq_setD [OF m] by simp
qed

lemma v12_items_stored:
  assumes "mset files = mset (map stored rs)"
    and "\<And>r. r \<in> set rs \<Longrightarrow> v12_item_of fsize dir (asdict_record r) = Inr (Some (cell_of r, complete_of fsize dir r, r))"
  shows "\<exists>items. v12_items fsize dir files = Inr items \<and> mset items = mset (map (\<lambda>r. (cell_of r, complete_of fsize dir r, r)) rs)"
proof -
  obtain items where "rmap (\<lambda>f. v12_item_of fsize dir (snd f)) (sort_key fst files) = Inr (map Some items)"
    "mset items = mset (map (\<lambda>r. (cell_of r, complete_of fsize dir r, r)) rs)"
    using items_stored [where item = "v12_item_of fsize dir", OF assms] by blast
  moreover have "List.map_filter id (map Some items) = items" using map_filter_Some [of id items] by simp
  ultimately show ?thesis by (simp add: v12_items_def)
qed

lemma cell_rows:
  assumes "mset items = mset (map (\<lambda>r. (cell_of r, complete_of fsize dir r, r)) rs)"
  shows "mset (map snd (filter (\<lambda>i. fst i = k) items)) = mset (map (\<lambda>r. (complete_of fsize dir r, r)) (filter (\<lambda>r. cell_of r = k) rs))"
proof -
  have "mset (map snd (filter (\<lambda>i. fst i = k) items)) = image_mset snd (filter_mset (\<lambda>i. fst i = k) (mset items))" by simp
  also have "\<dots> = mset (map snd (filter (\<lambda>i. fst i = k) (map (\<lambda>r. (cell_of r, complete_of fsize dir r, r)) rs)))"
    unfolding assms by simp
  also have "map snd (filter (\<lambda>i. fst i = k) (map (\<lambda>r. (cell_of r, complete_of fsize dir r, r)) rs)) =
      map (\<lambda>r. (complete_of fsize dir r, r)) (filter (\<lambda>r. cell_of r = k) rs)"
    by (simp add: filter_map comp_def)
  finally show ?thesis .
qed

text \<open>A full set of repetitions leaves only the conditions on the single records.\<close>

lemma cell_ok_full:
  assumes "map (\<lambda>r. (repetition r, cell_of r)) rs = List.product [1..<n + 1] cells" "distinct cells" "k \<in> set cells" "0 < n"
  shows "cell_ok n e (map (\<lambda>r. (c r, r)) (filter (\<lambda>r. cell_of r = k) rs)) \<longleftrightarrow> (\<forall>r \<in> set rs. cell_of r = k \<longrightarrow> record_ok e (c r, r))"
proof -
  let ?R = "filter (\<lambda>r. cell_of r = k) rs"
  have reps: "map repetition ?R = [1..<n + 1]" by (rule filter_cells [OF assms(1-3)])
  have len: "length ?R = n" using arg_cong [OF reps, of length] by simp
  have "repetition ` set ?R = {1..n}" using arg_cong [OF reps, of set] by auto
  then have "(\<lambda>i. repetition (snd i)) ` set (map (\<lambda>r. (c r, r)) ?R) = {1..n}" by (simp add: image_image)
  moreover have "?R \<noteq> []" using len assms(4) by auto
  ultimately show ?thesis unfolding cell_ok_def using len by auto
qed

lemma run_v12_records:
  assumes "run_v12 envs disks runners sha256 environ listing n out_dir settings versions cg w = Some (Inr rs, w')"
  shows "map (\<lambda>r. (repetition r, cell_of r)) rs = List.product [1..<n + 1] (List.product versions settings)"
    "r \<in> set rs \<Longrightarrow> v12_item_of fsize dir (asdict_record r) = Inr (Some (cell_of r, complete_of fsize dir r, r))"
proof -
  have "\<not> has_json listing" using assms by (auto simp: run_v12_def raise_def)
  from run_v12_Some [OF assms this] obtain paths hashes specs where sp: "v12_specs environ n out_dir settings paths versions cg = Inr specs"
    "for_each (v12_step_run envs disks runners out_dir paths hashes) 0 specs w = Some (Inr rs, w')" by auto
  let ?Q = "\<lambda>(rep, v, s) r. fault_type r = ''server-setting'' \<and> repetition r = rep \<and> server_key r = Inr (v, s) \<and>
      (\<exists>b. all_artifacts fsize dir r REQUIRED_ARTIFACTS_V12 = Inr b)"
  let ?S = "\<lambda>(rep, v, s) sp. v12_spec environ v s rep out_dir paths cg = Inr sp"
  have step: "list_all2 (\<lambda>sp r. \<forall>t. ?S t sp \<longrightarrow> ?Q t r) specs rs"
  proof (rule for_each_list_all2 [OF sp(2)])
    fix i sp w r w' assume st: "v12_step_run envs disks runners out_dir paths hashes i sp w = Some (Inr r, w')"
    show "\<forall>t. ?S t sp \<longrightarrow> ?Q t r" using v12_step_record [OF st] by (auto split: prod.splits)
  qed
  have "list_all2 ?Q (List.product [1..<n + 1] (List.product versions settings)) rs"
    by (rule list_all2_trans [OF _ v12_specs_list [OF sp(1)] step]) blast
  then have Q: "list_all2 ?Q (List.product [1..<n + 1] (List.product versions settings)) rs" .
  show "map (\<lambda>r. (repetition r, cell_of r)) rs = List.product [1..<n + 1] (List.product versions settings)"
    using list_all2_map_eq [OF Q, of "\<lambda>r. (repetition r, cell_of r)" id] by (auto simp: cell_of_def)
  show "v12_item_of fsize dir (asdict_record r) = Inr (Some (cell_of r, complete_of fsize dir r, r))" if "r \<in> set rs"
    using list_all2_in2 [OF Q that] v12_item_of_record by fast
qed

text \<open>
  From the run to the verdict. Take a run of the server matrix that returns its records, and the
  directory that holds the files of these records, in any order. The analysis of that directory then
  returns counts, and the verdict over them against a matrix of expectations with the same servers and
  settings is positive exactly if every single record shows what its cell expects: the run itself
  provides every cell with all its repetitions, so a negative verdict always has its reason in what
  some record shows.
\<close>

theorem run_v12_verdict:
  assumes "run_v12 envs disks runners sha256 environ listing n out_dir settings versions cg w = Some (Inr rs, w')" "0 < n"
    and "mset files = mset (map stored rs)" "distinct versions" "distinct settings"
    and "distinct (map fst expected)" "fst ` set expected = set versions \<times> set settings"
  shows "\<exists>counts. comparison_v12 fsize out_dir files = Inr counts \<and>
    (fst (cve_verdict counts n expected) \<longleftrightarrow> list_all (run_ok fsize out_dir expected) rs)"
proof -
  let ?c = "complete_of fsize out_dir"
  obtain items where it: "v12_items fsize out_dir files = Inr items" "mset items = mset (map (\<lambda>r. (cell_of r, ?c r, r)) rs)"
    using v12_items_stored [OF assms(3) run_v12_records(2) [OF assms(1)]] by blast
  have cells: "distinct (List.product versions settings)" using assms(4,5) by (simp add: distinct_product)
  have cell: "cell_of r \<in> fst ` set expected" if "r \<in> set rs" for r
  proof -
    have "(repetition r, cell_of r) \<in> set (map (\<lambda>r. (repetition r, cell_of r)) rs)" using that by simp
    then show ?thesis unfolding run_v12_records(1) [OF assms(1)] assms(7) by auto
  qed
  have "cell_failures (v12_summary items) n (k, e) = [] \<longleftrightarrow> (\<forall>r \<in> set rs. cell_of r = k \<longrightarrow> record_ok e (?c r, r))"
    if "(k, e) \<in> set expected" for k e
  proof -
    have "k \<in> fst ` set expected" using that by force
    then have k: "k \<in> set (List.product versions settings)" by (simp add: assms(7))
    show ?thesis
      unfolding cell_failures_iff cell_ok_mset [OF cell_rows [OF it(2)]]
      by (rule cell_ok_full [OF run_v12_records(1) [OF assms(1)] cells k assms(2)])
  qed
  then have "fst (cve_verdict (v12_summary items) n expected) \<longleftrightarrow>
      (\<forall>(k, e) \<in> set expected. \<forall>r \<in> set rs. cell_of r = k \<longrightarrow> record_ok e (?c r, r))"
    by (auto simp: cve_verdict_def Let_def)
  also have "\<dots> \<longleftrightarrow> list_all (run_ok fsize out_dir expected) rs"
  proof
    assume all: "\<forall>(k, e) \<in> set expected. \<forall>r \<in> set rs. cell_of r = k \<longrightarrow> record_ok e (?c r, r)"
    have "run_ok fsize out_dir expected r" if r: "r \<in> set rs" for r
    proof -
      obtain e where e: "(cell_of r, e) \<in> set expected" using cell [OF r] by auto
      then have "map_of expected (cell_of r) = Some e" using assms(6) by simp
      then show ?thesis using all e r by (auto simp: run_ok_def)
    qed
    then show "list_all (run_ok fsize out_dir expected) rs" by (simp add: list_all_iff)
  next
    assume "list_all (run_ok fsize out_dir expected) rs"
    then show "\<forall>(k, e) \<in> set expected. \<forall>r \<in> set rs. cell_of r = k \<longrightarrow> record_ok e (?c r, r)"
      using assms(6) by (fastforce simp: list_all_iff run_ok_def)
  qed
  finally show ?thesis using it(1) by (auto simp: comparison_v12_def)
qed

section \<open>The paths of a run, and the preflight\<close>

definition server_bin :: "string \<Rightarrow> string" where
  "server_bin version = (case PREFIX version of Some prefix \<Rightarrow> prefix @ ''/bin/openssl'' | None \<Rightarrow> [])"

lemma v12_paths_Inr:
  assumes "v12_paths versions = Inr paths"
  shows "\<forall>v \<in> set versions. PREFIX v \<noteq> None" "distinct (map fst paths)"
    "set paths = {(''client_bin'', server_bin ''3.5.5''), (''cert'', PHASE2_ROOT @ ''/openssl/apps/server.pem'')} \<union>
       (\<lambda>v. (''server_bin_'' @ v, server_bin v)) ` set versions"
proof -
  obtain servers where sv: "rmap (\<lambda>v. rbind (look PREFIX v) (\<lambda>p. Inr (''server_bin_'' @ v, p @ ''/bin/openssl''))) versions = Inr servers"
    and paths: "paths = fold (\<lambda>(k, v). dict_set k v) servers [(''client_bin'', server_bin ''3.5.5'')] @
      [(''cert'', PHASE2_ROOT @ ''/openssl/apps/server.pem'')]"
    using assms by (auto simp: v12_paths_def res_simps look_def server_bin_def split: option.splits)
  have "list_all2 (\<lambda>v kv. PREFIX v \<noteq> None \<and> kv = (''server_bin_'' @ v, server_bin v)) versions servers"
    using sv unfolding rmap_Inr_iff by (rule list_all2_mono) (auto simp: res_simps look_def server_bin_def split: option.splits)
  then have s: "servers = map (\<lambda>v. (''server_bin_'' @ v, server_bin v)) versions" and dom: "\<forall>v \<in> set versions. PREFIX v \<noteq> None"
    by (induction versions servers rule: list_all2_induct) auto
  show "\<forall>v \<in> set versions. PREFIX v \<noteq> None" by (rule dom)
  let ?F = "fold (\<lambda>(k, v). dict_set k v) servers [(''client_bin'', server_bin ''3.5.5'')]"
  have d: "distinct (map fst ?F)" by (rule fold_dict_set_distinct) simp
  have look: "map_of ?F k = Some x \<longleftrightarrow> (k = ''client_bin'' \<and> x = server_bin ''3.5.5'') \<or> (\<exists>v \<in> set versions. k = ''server_bin_'' @ v \<and> x = server_bin v)" for k x
  proof -
    have "map_of (rev servers) k = Some x \<longleftrightarrow> (\<exists>v \<in> set versions. k = ''server_bin_'' @ v \<and> x = server_bin v)"
    proof (cases "map_of (rev servers) k")
      case None
      then have "k \<notin> (\<lambda>v. ''server_bin_'' @ v) ` set versions" unfolding map_of_eq_None_iff s set_rev set_map image_image fst_conv .
      then have "\<not> (\<exists>v \<in> set versions. k = ''server_bin_'' @ v \<and> x = server_bin v)" by blast
      then show ?thesis using None by (simp only: option.distinct)
    next
      case (Some y)
      then have "(k, y) \<in> set servers" using map_of_SomeD by fastforce
      then show ?thesis using Some by (auto simp: s)
    qed
    moreover have "map_of (rev servers) ''client_bin'' = None" by (auto simp: map_of_eq_None_iff s)
    ultimately show ?thesis unfolding map_of_fold_dict_set by (auto simp: map_add_Some_iff)
  qed
  have "(k, x) \<in> set ?F \<longleftrightarrow> (k, x) \<in> {(''client_bin'', server_bin ''3.5.5'')} \<union> (\<lambda>v. (''server_bin_'' @ v, server_bin v)) ` set versions" for k x
    unfolding map_of_eq_Some_iff [OF d, symmetric] look by blast
  then have "set ?F = {(''client_bin'', server_bin ''3.5.5'')} \<union> (\<lambda>v. (''server_bin_'' @ v, server_bin v)) ` set versions"
    by (intro set_eqI) (simp only: split_paired_all)
  then show set: "set paths = {(''client_bin'', server_bin ''3.5.5''), (''cert'', PHASE2_ROOT @ ''/openssl/apps/server.pem'')} \<union>
       (\<lambda>v. (''server_bin_'' @ v, server_bin v)) ` set versions"
    unfolding paths by auto
  have "''cert'' \<notin> set (map fst ?F)" using look map_of_eq_Some_iff [OF d] by fastforce
  then show "distinct (map fst paths)" unfolding paths using d by simp
qed

lemma v12_paths_look:
  assumes "v12_paths versions = Inr paths"
  shows "map_of paths ''client_bin'' = Some (server_bin ''3.5.5'')" "map_of paths ''cert'' = Some (PHASE2_ROOT @ ''/openssl/apps/server.pem'')"
    "v \<in> set versions \<Longrightarrow> map_of paths (''server_bin_'' @ v) = Some (server_bin v)"
  using map_of_eq_Some_iff [OF v12_paths_Inr(2) [OF assms]] v12_paths_Inr(3) [OF assms] by auto

text \<open>What the preflight demands of one binary, and of the whole bench.\<close>

definition native_release :: "environ \<Rightarrow> command_output \<Rightarrow> string \<Rightarrow> bool" where
  "native_release environ runner version = (case native_environment environ version of Inl e \<Rightarrow> False | Inr env \<Rightarrow>
     let run = (\<lambda>args. runner (server_bin version # args) (Some env)); release = reported_version version in
     starts_with (''OpenSSL '' @ release @ '' '') (run [''version'']) \<and>
     contains (''(Library: OpenSSL '' @ release @ '' '') (run [''version'']) \<and>
     contains ''default'' (run [''list'', ''-providers'', ''-provider'', ''default'']) \<and>
     \<not> contains ''oqsprovider'' (run [''list'', ''-providers'', ''-provider'', ''default'']) \<and>
     contains ''X25519MLKEM768'' (run [''list'', ''-tls-groups'', ''-tls1_3'']))"

definition bench_ready :: "environ \<Rightarrow> (string \<Rightarrow> bool) \<Rightarrow> command_output \<Rightarrow> (nat \<Rightarrow> bool) \<Rightarrow> string list \<Rightarrow> bool" where
  "bench_ready environ exists runner port_free versions \<longleftrightarrow>
     (\<forall>v \<in> set (''3.5.5'' # versions). exists (server_bin v) \<and> native_release environ runner v) \<and>
     exists (PHASE2_ROOT @ ''/openssl/apps/server.pem'') \<and> list_all port_free HYGIENE_PORTS \<and>
     strip (runner [''pgrep'', ''-a'', ''-f'', RESIDUAL_PATTERN] None) = []"

lemma check_binary_result:
  assumes "PREFIX version \<noteq> None"
  shows "\<exists>reason. check_binary environ runner (label, server_bin version, version) = Inr reason \<and>
    (reason = None \<longleftrightarrow> native_release environ runner version)"
proof -
  obtain env where env: "native_environment environ version = Inr env"
    using assms by (auto simp: native_environment_def look_def Let_def split: option.splits)
  then show ?thesis unfolding check_binary_def native_release_def Let_def prod.case env sum.case rbind_simps by auto
qed

lemma check_binaries_result:
  assumes "\<And>label binary version. (label, binary, version) \<in> set entries \<Longrightarrow> PREFIX version \<noteq> None \<and> binary = server_bin version"
  shows "\<exists>reason. check_binaries environ runner entries = Inr reason \<and>
    (reason = None \<longleftrightarrow> (\<forall>(label, binary, version) \<in> set entries. native_release environ runner version))"
  using assms
proof (induction entries)
  case (Cons entry entries)
  obtain label binary version where e: "entry = (label, binary, version)" by (cases entry) auto
  then have "PREFIX version \<noteq> None" "binary = server_bin version" using Cons.prems by auto
  then obtain reason where "check_binary environ runner entry = Inr reason" "reason = None \<longleftrightarrow> native_release environ runner version"
    using check_binary_result e by metis
  moreover obtain reason' where "check_binaries environ runner entries = Inr reason'"
    "reason' = None \<longleftrightarrow> (\<forall>(label, binary, version) \<in> set entries. native_release environ runner version)"
    using Cons.IH Cons.prems by (meson list.set_intros(2))
  ultimately show ?case by (cases reason) (auto simp: e)
qed auto

lemma missing_path_None: "missing_path exists paths = None \<longleftrightarrow> (\<forall>p \<in> snd ` set paths. exists p)"
  by (induction exists paths rule: missing_path.induct) auto

lemma binary_table_paths:
  assumes "v12_paths versions = Inr paths"
  shows "\<exists>bins. binary_table paths = Inr bins \<and>
    set bins = {(''client (3.5.5)'', server_bin ''3.5.5'', ''3.5.5'')} \<union> (\<lambda>v. (''server '' @ v, server_bin v, v)) ` set versions"
proof -
  let ?T = "(''client (3.5.5)'', server_bin ''3.5.5'', ''3.5.5'') #
    map (\<lambda>(key, v). (''server '' @ drop 11 key, v, drop 11 key)) (filter (\<lambda>(key, v). starts_with ''server_bin_'' key) paths)"
  have tab: "binary_table paths = Inr ?T" by (simp add: binary_table_def look_def v12_paths_look(1) [OF assms])
  have set: "set ?T = {(''client (3.5.5)'', server_bin ''3.5.5'', ''3.5.5'')} \<union> (\<lambda>v. (''server '' @ v, server_bin v, v)) ` set versions"
  proof -
    have "{x \<in> set paths. case x of (key, v) \<Rightarrow> starts_with ''server_bin_'' key} = (\<lambda>v. (''server_bin_'' @ v, server_bin v)) ` set versions"
      unfolding v12_paths_Inr(3) [OF assms] by auto
    moreover have "drop 11 (''server_bin_'' @ v) = v" for v :: string
      unfolding drop_append by simp
    ultimately show ?thesis by (simp only: list.set set_map set_filter image_image prod.case) (simp only: insert_is_Un [symmetric])
  qed
  show ?thesis using tab set by blast
qed

lemma preflight_v12_iff:
  assumes "v12_paths versions = Inr paths"
  shows "\<exists>reason. preflight_v12 environ exists runner port_free paths = Inr (bench_ready environ exists runner port_free versions, reason)"
proof -
  obtain bins where tab: "binary_table paths = Inr bins" and
    set: "set bins = {(''client (3.5.5)'', server_bin ''3.5.5'', ''3.5.5'')} \<union> (\<lambda>v. (''server '' @ v, server_bin v, v)) ` set versions"
    using binary_table_paths [OF assms] by blast
  have "PREFIX version \<noteq> None \<and> binary = server_bin version" if "(label, binary, version) \<in> set bins" for label binary version
    using that v12_paths_Inr(1) [OF assms] unfolding set by (auto simp: PREFIX_def)
  then obtain reason where r: "check_binaries environ runner bins = Inr reason"
    "reason = None \<longleftrightarrow> (\<forall>(label, binary, version) \<in> set bins. native_release environ runner version)"
    using check_binaries_result by blast
  have n: "reason = None \<longleftrightarrow> (\<forall>v \<in> set (''3.5.5'' # versions). native_release environ runner v)"
    unfolding r(2) set by auto
  have m: "missing_path exists paths = None \<longleftrightarrow> (\<forall>v \<in> set (''3.5.5'' # versions). exists (server_bin v)) \<and>
      exists (PHASE2_ROOT @ ''/openssl/apps/server.pem'')"
    unfolding missing_path_None v12_paths_Inr(3) [OF assms] by auto
  have p: "filter (\<lambda>port. \<not> port_free port) HYGIENE_PORTS = [] \<longleftrightarrow> list_all port_free HYGIENE_PORTS"
    by (simp add: filter_empty_conv list_all_iff)
  show ?thesis
    using m n p by (cases "missing_path exists paths"; cases reason)
      (auto simp: preflight_v12_def tab r(1) Let_def bench_ready_def)
qed

text \<open>
  C28. The preflight is exact. For the paths of a list of known servers it always returns a flag and a
  reason, and the flag is true exactly on a bench that is ready: the binaries of the client and of all
  servers and the certificate exist; each binary reports the release of its label, for itself and for
  its library, lists the default provider and not the external one, and offers X25519MLKEM768 natively;
  all ports of the harness are free; and no process of an earlier run is left.
\<close>

theorem preflight_v12_exact:
  assumes "v12_paths versions = Inr paths"
  shows "\<exists>reason. preflight_v12 environ exists runner port_free paths = Inr (bench_ready environ exists runner port_free versions, reason)"
  using assms by (rule preflight_v12_iff)

section \<open>Runs return\<close>

definition tshark_starts :: "(int \<times> string) result \<Rightarrow> bool" where
  "tshark_starts x = (case x of Inl e \<Rightarrow> is_FileNotFoundError e | Inr out \<Rightarrow> True)"

lemma artifact_name_returns: "artifacts r = scenario_artifacts sp cap \<Longrightarrow> \<exists>x. artifact_name r k = Inr x"
  using scenario_artifacts_str [of sp cap k]
  by (cases "map_of (scenario_artifacts sp cap) k") (auto simp: artifact_name_def)

lemma audit_returns:
  assumes "artifacts r = scenario_artifacts sp cap" "\<forall>cmd. tshark_starts (runner cmd)"
  shows "\<exists>a. audit_record runner fs dir r = Inr a"
proof -
  have name: "\<exists>x. artifact_name r k = Inr x" for k by (rule artifact_name_returns [OF assms(1)])
  then have "\<exists>x. read_output fs dir r k = Inr x" for k by (metis read_output_def rbind_simps(2))
  moreover have "\<exists>x. tshark_summary runner p = Inr x" for p
    using spec [OF assms(2), of "[''tshark'', ''-r'', p]"] by (auto simp: tshark_summary_def tshark_starts_def split: sum.splits)
  ultimately have "\<exists>outputs. run_outputs runner fs dir r = Inr outputs"
    using name unfolding run_outputs_def by (metis (no_types, lifting) option.case_eq_if rbind_simps(2))
  then show ?thesis by (auto simp: audit_record_def Let_def)
qed

lemma evaluated_v12_returns:
  assumes "artifacts r = scenario_artifacts sp cap" "\<forall>cmd. tshark_starts (runner cmd)"
  shows "\<exists>r'. evaluated_v12 runner d fs dir prov r = Inr r'"
proof -
  obtain a where a: "audit_record runner fs dir r = Inr a" using audit_returns [OF assms] by blast
  obtain x where x: "artifact_name r ''pcap'' = Inr x" using artifact_name_returns [OF assms(1)] by blast
  have l: "\<exists>p. artifact_path r dir ''client_log'' = Inr p"
    by (simp add: artifact_path_def assms(1) scenario_artifacts_def look_def)
  have "\<exists>m. v12_metrics d fs p l ms = Inr m" for p l ms
    using summarize_hellos_concat by (auto simp: v12_metrics_def split: option.splits)
  then obtain p m where "artifact_path r dir ''client_log'' = Inr p" "v12_metrics d fs (map_option (path_join dir) x) p (metrics r) = Inr m"
    using l by blast
  then show ?thesis by (simp add: evaluated_v12_def x a)
qed

lemma grandparent_bin: "PREFIX v \<noteq> None \<Longrightarrow> \<exists>p. grandparent (server_bin v) = Inr p"
proof -
  assume "PREFIX v \<noteq> None"
  then obtain q where "server_bin v = q @ ''/bin/openssl''" by (auto simp: server_bin_def)
  moreover have "2 < length (split_char CHR ''/'' (q @ ''/bin/openssl''))"
  proof (induction q)
    case (Cons c q)
    then show ?case by (cases "split_char CHR ''/'' (q @ ''/bin/openssl'')") auto
  qed simp
  ultimately show ?thesis by (simp add: grandparent_def Let_def)
qed

lemma run_v12_completes:
  assumes "\<not> has_json listing" "\<forall>v \<in> set versions. PREFIX v \<noteq> None" "\<forall>s \<in> set settings. SERVER_SETTINGS s \<noteq> None"
    and "\<forall>i. bench_works (envs i) V12_PORT" "\<forall>i cmd. tshark_starts (runners i cmd)"
  shows "\<exists>rs w'. run_v12 envs disks runners sha256 environ listing n out_dir settings versions cg w = Some (Inr rs, w')"
proof -
  have p35: "PREFIX ''3.5.5'' \<noteq> None" by (simp add: PREFIX_def)
  have nat: "\<exists>e. native_environment environ v = Inr e" if "PREFIX v \<noteq> None" for v
    using that by (auto simp: native_environment_def look_def Let_def)
  have p: "\<exists>y. rbind (look PREFIX v) (\<lambda>p. Inr (''server_bin_'' @ v, p @ ''/bin/openssl'')) = Inr y" if "v \<in> set versions" for v
    using assms(2) that by (auto simp: look_def)
  have "\<exists>servers. rmap (\<lambda>v. rbind (look PREFIX v) (\<lambda>p. Inr (''server_bin_'' @ v, p @ ''/bin/openssl''))) versions = Inr servers"
    by (rule rmap_returns) (rule p)
  then obtain paths where paths: "v12_paths versions = Inr paths" using p35 by (auto simp: v12_paths_def look_def)
  have h: "\<exists>y. rbind (look (map_of paths) (''server_bin_'' @ v)) (\<lambda>bin. rbind (grandparent bin) (\<lambda>prefix.
      Inr (''server_lib_'' @ v, sha256_file sha256 (disks 0) (path_join prefix ''lib64/libssl.so.3'')))) = Inr y" if "v \<in> set versions" for v
  proof -
    obtain q where "grandparent (server_bin v) = Inr q" using grandparent_bin assms(2) \<open>v \<in> set versions\<close> by blast
    then show ?thesis unfolding look_def v12_paths_look(3) [OF paths that] by simp
  qed
  have "\<exists>libs. rmap (\<lambda>v. rbind (look (map_of paths) (''server_bin_'' @ v)) (\<lambda>bin. rbind (grandparent bin) (\<lambda>prefix.
      Inr (''server_lib_'' @ v, sha256_file sha256 (disks 0) (path_join prefix ''lib64/libssl.so.3''))))) versions = Inr libs"
    by (rule rmap_returns) (rule h)
  then obtain libs where l: "rmap (\<lambda>v. rbind (look (map_of paths) (''server_bin_'' @ v)) (\<lambda>bin. rbind (grandparent bin) (\<lambda>prefix.
      Inr (''server_lib_'' @ v, sha256_file sha256 (disks 0) (path_join prefix ''lib64/libssl.so.3''))))) versions = Inr libs" ..
  have "\<exists>hashes. v12_hashes sha256 (disks 0) paths versions = Inr hashes" unfolding v12_hashes_def l rbind_simps by blast
  then obtain hashes where hashes: "v12_hashes sha256 (disks 0) paths versions = Inr hashes" ..
  have mk: "\<exists>sp. v12_spec environ v s rep out_dir paths cg = Inr sp" if v: "v \<in> set versions" and st: "s \<in> set settings" for v s rep
  proof -
    obtain ce where ce: "native_environment environ ''3.5.5'' = Inr ce" using nat [OF p35] by blast
    obtain se where se: "native_environment environ v = Inr se" using nat assms(2) v by blast
    obtain g where g: "SERVER_SETTINGS s = Some g" using assms(3) st by blast
    show ?thesis
      unfolding v12_spec_def look_def v12_paths_look(1,2) [OF paths] v12_paths_look(3) [OF paths v] ce se g
      by (simp add: Let_def)
  qed
  have "\<exists>specs. v12_specs environ n out_dir settings paths versions cg = Inr specs"
    unfolding v12_specs_def by (intro rconcat_map_returns rmap_returns mk)
  then obtain specs where specs: "v12_specs environ n out_dir settings paths versions cg = Inr specs" ..
  have step: "\<exists>r w'. v12_step_run envs disks runners out_dir paths hashes i sp w = Some (Inr r, w')" if sp: "sp \<in> set specs" for i sp w
  proof -
    obtain v s where vs: "v12_spec environ v s (sp_repetition sp) out_dir paths cg = Inr sp" by (rule v12_specs_mem [OF specs sp])
    have "bench_works (envs i) (server_port_of sp)" unfolding v12_spec_fields(10) [OF vs] using assms(4) by blast
    then have "good_bench (envs i) sp" using v12_spec_fields(9) [OF vs] by (rule good_benchI)
    moreover have "GROUP_RE (sp_impl sp) \<noteq> None" by (simp add: v12_spec_fields(1) [OF vs] GROUP_RE_def)
    ultimately obtain r w1 where r: "run_scenario (envs i) sp w = Some (Inr r, w1)" "artifacts r = scenario_artifacts sp (sp_capture_traffic sp)"
      using run_scenario_returns by blast
    obtain prov where "provenance_for sp paths hashes = Inr prov" using v12_spec_fields(11) [OF vs] by blast
    moreover obtain r' where "evaluated_v12 (runners i) (disks i) (visible_texts (disks i) w1) out_dir prov r = Inr r'"
      using evaluated_v12_returns [OF r(2) spec [OF assms(5)]] by blast
    ultimately show ?thesis
      by (simp add: v12_step_run_def seqp_def [of "run_scenario (envs i) sp"] r(1) evaluate_v12_def store_record_result)
  qed
  have "\<exists>rs w'. for_each (v12_step_run envs disks runners out_dir paths hashes) 0 specs w = Some (Inr rs, w') \<and> length rs = length specs"
    by (rule for_each_returns) (rule step)
  then obtain rs w' where "for_each (v12_step_run envs disks runners out_dir paths hashes) 0 specs w = Some (Inr rs, w')"
    by blast
  then show ?thesis using assms(1) by (simp add: run_v12_def paths hashes specs)
qed

text \<open>
  C29. A run of the matrix completes. For known servers and settings, an output directory without JSON
  files and a bench on which processes start, the server and the capture come up in time, the client
  ends and tshark either runs or is not installed, the run returns; its records are those of every
  repetition of every server with every setting, in this order, and each one is stored.
\<close>

theorem run_v12_returns:
  assumes "\<not> has_json listing" "\<forall>v \<in> set versions. PREFIX v \<noteq> None" "\<forall>s \<in> set settings. SERVER_SETTINGS s \<noteq> None"
    and "\<forall>i. bench_works (envs i) V12_PORT" "\<forall>i cmd. tshark_starts (runners i cmd)" "distinct versions" "distinct settings"
  shows "\<exists>rs w'. run_v12 envs disks runners sha256 environ listing n out_dir settings versions cg w = Some (Inr rs, w') \<and>
    map (\<lambda>r. (repetition r, cell_of r)) rs = List.product [1..<n + 1] (List.product versions settings) \<and>
    (\<forall>r \<in> set rs. docs w' (doc_path out_dir (rec_run_id r)) = Some (asdict_record r))"
proof -
  obtain rs w' where r: "run_v12 envs disks runners sha256 environ listing n out_dir settings versions cg w = Some (Inr rs, w')"
    using run_v12_completes [OF assms(1-5)] by blast
  from run_v12_Some [OF r assms(1)] obtain paths hashes specs where sp: "v12_specs environ n out_dir settings paths versions cg = Inr specs"
    "for_each (v12_step_run envs disks runners out_dir paths hashes) 0 specs w = Some (Inr rs, w')" by auto
  have "\<forall>sp \<in> set specs. sp_out_dir sp = out_dir" using v12_specs_identifier(2) [OF sp(1)] by blast
  from v12run.records_stored [OF sp(2) this v12_specs_distinct [OF sp(1) assms(6,7)]]
  show ?thesis using r run_v12_records(1) [OF r] by blast
qed

lemma demo_v12: "\<exists>rs w'. run_v12 (\<lambda>_. working_env ([], [], 0)) (\<lambda>_. \<lparr>disk_bytes = \<lambda>_. None, disk_texts = Map.empty\<rparr>) (\<lambda>_ _. Inr (1, []))
    (\<lambda>_. []) [] [] 1 ''out'' REQUIRED_SETTINGS SERVER_VERSIONS CLIENT_GROUPS_V12 empty_world = Some (Inr rs, w')"
  by (rule run_v12_completes)
    (auto simp: has_json_def SERVER_VERSIONS_def PREFIX_def REQUIRED_SETTINGS_def SERVER_SETTINGS_def tshark_starts_def)

theorem run_v12_returns_witness:
  "\<exists>rs w'. run_v12 (\<lambda>_. working_env ([], [], 0)) (\<lambda>_. \<lparr>disk_bytes = \<lambda>_. None, disk_texts = Map.empty\<rparr>) (\<lambda>_ _. Inr (1, []))
    (\<lambda>_. []) [] [] 1 ''out'' REQUIRED_SETTINGS SERVER_VERSIONS CLIENT_GROUPS_V12 empty_world = Some (Inr rs, w') \<and> length rs = 6"
proof -
  have "\<not> has_json []" "\<forall>v \<in> set SERVER_VERSIONS. PREFIX v \<noteq> None" "\<forall>s \<in> set REQUIRED_SETTINGS. SERVER_SETTINGS s \<noteq> None"
    "\<forall>i :: nat. bench_works (working_env ([], [], 0)) V12_PORT" "\<forall>(i :: nat) (cmd :: string list). tshark_starts (Inr (1, []))"
    "distinct SERVER_VERSIONS" "distinct REQUIRED_SETTINGS"
    by (simp_all add: has_json_def SERVER_VERSIONS_def PREFIX_def REQUIRED_SETTINGS_def SERVER_SETTINGS_def tshark_starts_def)
  from run_v12_returns [OF this] obtain rs w' where r: "run_v12 (\<lambda>_. working_env ([], [], 0)) (\<lambda>_. \<lparr>disk_bytes = \<lambda>_. None, disk_texts = Map.empty\<rparr>)
      (\<lambda>_ _. Inr (1, [])) (\<lambda>_. []) [] [] 1 ''out'' REQUIRED_SETTINGS SERVER_VERSIONS CLIENT_GROUPS_V12 empty_world = Some (Inr rs, w')"
    "map (\<lambda>r. (repetition r, cell_of r)) rs = List.product [1..<1 + 1] (List.product SERVER_VERSIONS REQUIRED_SETTINGS)"
    by blast
  have "length rs = length (List.product [1..<1 + 1] (List.product SERVER_VERSIONS REQUIRED_SETTINGS))" using arg_cong [OF r(2), of length] by simp
  then show ?thesis using r(1) by (auto simp: SERVER_VERSIONS_def REQUIRED_SETTINGS_def)
qed

theorem run_v12_keeps_documents_witness:
  "\<exists>x w'. run_v12 (\<lambda>_. working_env ([], [], 0)) (\<lambda>_. \<lparr>disk_bytes = \<lambda>_. None, disk_texts = Map.empty\<rparr>) (\<lambda>_ _. Inr (1, []))
    (\<lambda>_. []) [] [] 1 ''out'' REQUIRED_SETTINGS SERVER_VERSIONS CLIENT_GROUPS_V12 empty_world = Some (x, w') \<and>
    docs w' ''elsewhere/a.json'' = None"
proof -
  obtain rs w' where r: "run_v12 (\<lambda>_. working_env ([], [], 0)) (\<lambda>_. \<lparr>disk_bytes = \<lambda>_. None, disk_texts = Map.empty\<rparr>) (\<lambda>_ _. Inr (1, []))
    (\<lambda>_. []) [] [] 1 ''out'' REQUIRED_SETTINGS SERVER_VERSIONS CLIENT_GROUPS_V12 empty_world = Some (Inr rs, w')"
    using demo_v12 by blast
  have "\<not> v12_doc ''out'' SERVER_VERSIONS REQUIRED_SETTINGS 1 ''elsewhere/a.json''"
    by (simp add: v12_doc_def path_join_def)
  then have "docs w' ''elsewhere/a.json'' = docs empty_world ''elsewhere/a.json''" using run_v12_keeps_documents [OF r] by blast
  then show ?thesis using r by (auto simp: empty_world_def)
qed

theorem run_v12_verdict_witness:
  "\<exists>rs w' counts. run_v12 (\<lambda>_. working_env ([], [], 0)) (\<lambda>_. \<lparr>disk_bytes = \<lambda>_. None, disk_texts = Map.empty\<rparr>) (\<lambda>_ _. Inr (1, []))
    (\<lambda>_. []) [] [] 1 ''out'' REQUIRED_SETTINGS SERVER_VERSIONS CLIENT_GROUPS_V12 empty_world = Some (Inr rs, w') \<and>
    comparison_v12 (\<lambda>_. None) ''out'' (map stored rs) = Inr counts \<and>
    (fst (cve_verdict counts 1 EXPECTED_V12) \<longleftrightarrow> list_all (run_ok (\<lambda>_. None) ''out'' EXPECTED_V12) rs)"
proof -
  obtain rs w' where r: "run_v12 (\<lambda>_. working_env ([], [], 0)) (\<lambda>_. \<lparr>disk_bytes = \<lambda>_. None, disk_texts = Map.empty\<rparr>) (\<lambda>_ _. Inr (1, []))
    (\<lambda>_. []) [] [] 1 ''out'' REQUIRED_SETTINGS SERVER_VERSIONS CLIENT_GROUPS_V12 empty_world = Some (Inr rs, w')"
    using demo_v12 by blast
  have e: "distinct (map fst EXPECTED_V12)" "fst ` set EXPECTED_V12 = set SERVER_VERSIONS \<times> set REQUIRED_SETTINGS"
    by (simp_all add: EXPECTED_V12_def expected_matrix_def SERVER_VERSIONS_def REQUIRED_SETTINGS_def insert_Times_insert insert_commute)
  have "distinct SERVER_VERSIONS" "distinct REQUIRED_SETTINGS" by (simp_all add: SERVER_VERSIONS_def REQUIRED_SETTINGS_def)
  from run_v12_verdict [OF r zero_less_one refl this e] r show ?thesis by blast
qed

text \<open>
  The provenance of a record is that of its scenario: for every scenario of the matrix it can be
  computed, and the server and the setting that it names, cut out of the condition at its last hyphen, are
  those the scenario was made for, also where the name of the server contains hyphens; it records the
  group argument of the client and the two commands.
\<close>

theorem provenance_names_scenario:
  assumes "v12_spec environ version setting rep out_dir paths cg = Inr sp"
  shows "\<exists>p. provenance_for sp paths hashes = Inr p \<and> map_of p ''server_version'' = Some (JStr version) \<and>
      map_of p ''server_setting'' = Some (JStr setting) \<and> map_of p ''client_groups_arg'' = Some (JStr cg) \<and>
      map_of p ''server_cmd'' = Some (jstrs (sp_server_cmd sp)) \<and> map_of p ''client_cmd'' = Some (jstrs (sp_client_cmd sp))"
  by (rule v12_spec_fields(11) [OF assms])

theorem provenance_names_scenario_witness:
  "\<exists>paths sp p. v12_paths [''3.5.6-revert''] = Inr paths \<and>
     v12_spec [] ''3.5.6-revert'' ''S2'' 1 ''out'' paths CLIENT_GROUPS_V12 = Inr sp \<and>
     provenance_for sp paths [] = Inr p \<and> map_of p ''server_version'' = Some (JStr ''3.5.6-revert'')"
proof -
  obtain paths where p: "v12_paths [''3.5.6-revert''] = Inr paths"
    by (simp add: v12_paths_def look_def PREFIX_def VARIANT_SERVERS_def)
  obtain sp where "v12_spec [] ''3.5.6-revert'' ''S2'' 1 ''out'' paths CLIENT_GROUPS_V12 = Inr sp"
    using v12_paths_look [OF p] v12_paths_look(3) [OF p, of "''3.5.6-revert''"]
    by (simp add: v12_spec_def look_def SERVER_SETTINGS_def native_environment_def PREFIX_def VARIANT_SERVERS_def Let_def)
  with p provenance_names_scenario [OF this, of "[]"] show ?thesis by blast
qed

theorem preflight_v12_exact_witness:
  "\<exists>paths reason. v12_paths SERVER_VERSIONS = Inr paths \<and>
     preflight_v12 [] (\<lambda>_. True) (\<lambda>_ _. []) (\<lambda>_. True) paths = Inr (False, reason)"
proof -
  obtain paths where p: "v12_paths SERVER_VERSIONS = Inr paths"
    by (simp add: v12_paths_def look_def PREFIX_def SERVER_VERSIONS_def)
  have "\<not> bench_ready [] (\<lambda>_. True) (\<lambda>_ _. []) (\<lambda>_. True) SERVER_VERSIONS"
    by (simp add: bench_ready_def native_release_def Let_def split: sum.splits)
  with p preflight_v12_exact [OF p, of "[]" "\<lambda>_. True" "\<lambda>_ _. []" "\<lambda>_. True"] show ?thesis by auto
qed

end
