(* ===== verification/Negotiation.thy ===== *)
theory Negotiation
  imports Server_Settings
begin

text \<open>
  Model of \<open>tools/faultinject/v15.py\<close>: seven server configurations of five TLS implementations meet three
  client configurations. \<open>environ\<close> is \<open>os.environ\<close>, read when the module is loaded (\<open>BSSL\<close>) and when an
  environment is made. The capture of a run is classified by the first ClientHello and by the final
  ServerHello.

  The theorems: the evaluation sees exactly the hello of the client it was told to run; the table of
  counts has one row per server and client and its three group columns add up; the rendering lists the
  known servers in the order of the configuration.
\<close>

section \<open>Definitions\<close>

definition PORT :: nat where "PORT = V12_PORT"
definition PEM :: string where "PEM = PHASE2_ROOT @ ''/openssl/apps/server.pem''"
definition V15 :: string where "V15 = PHASE2_ROOT @ ''/v15''"
definition OPENSSL_SERVER :: string where "OPENSSL_SERVER = PHASE2_ROOT @ ''/install/openssl-3.5.6/bin/openssl''"
definition CLIENT_BIN :: string where "CLIENT_BIN = PHASE2_ROOT @ ''/install/openssl/bin/openssl''"

definition BSSL :: "environ \<Rightarrow> string" where
  "BSSL environ = (case map_of environ ''FAULTINJECT_V15_BSSL'' of Some b \<Rightarrow> b | None \<Rightarrow> PHASE2_ROOT @ ''/build/boringssl/tool/bssl'')"

text \<open>Client label, argument of \<open>-groups\<close>, expected groups and key shares of the first hello.\<close>

definition CLIENTS :: "(string \<times> string \<times> nat list \<times> nat list) list" where
  "CLIENTS = [(''C1'', ''X25519MLKEM768:X25519'', [0x11EC, 0x001D], [0x11EC]),
     (''C2'', ''X25519MLKEM768:*X25519'', [0x11EC, 0x001D], [0x001D]),
     (''C3'', ''X25519:X25519MLKEM768'', [0x001D, 0x11EC], [0x001D])]"

definition OPENSSL_CMD :: "string list" where
  "OPENSSL_CMD = [OPENSSL_SERVER, ''s_server'', ''-tls1_3'', ''-www'', ''-provider'', ''default'', ''-accept'', dec PORT, ''-cert'', PEM]"

definition SERVERS :: "environ \<Rightarrow> (string \<times> string list) list" where
  "SERVERS environ = [
     (''openssl-S1'', OPENSSL_CMD @ [''-groups'', ''X25519MLKEM768:X25519'']),
     (''openssl-S2'', OPENSSL_CMD @ [''-groups'', ''X25519MLKEM768/X25519'']),
     (''openssl-S1-serverpref'', OPENSSL_CMD @ [''-groups'', ''X25519MLKEM768:X25519'', ''-serverpref'']),
     (''boringssl'', [BSSL environ, ''server'', ''-accept'', dec PORT, ''-key'', PEM, ''-min-version'', ''tls1.3'',
        ''-max-version'', ''tls1.3'', ''-curves'', ''X25519MLKEM768:X25519'', ''-loop'']),
     (''go'', [V15 @ ''/goserver'', ''-addr'', ''127.0.0.1:'' @ dec PORT, ''-pem'', PEM, ''-groups'', ''X25519MLKEM768,X25519'']),
     (''nss'', [''selfserv'', ''-d'', ''sql:'' @ V15 @ ''/nssdb'', ''-n'', ''server'', ''-p'', dec PORT, ''-V'', ''tls1.3:tls1.3'',
        ''-I'', ''x25519mlkem768,x25519'']),
     (''rustls'', [V15 @ ''/rustserver'', dec PORT, PEM, ''X25519MLKEM768,X25519''])]"

definition v15_output_dir :: "string \<Rightarrow> string" where
  "v15_output_dir repo = repo @ ''/docs/research/baselines/raw/v1.5''"

definition server_command :: "environ \<Rightarrow> string \<Rightarrow> string list result" where
  "server_command environ server = look (map_of (SERVERS environ)) server"

definition TLS_VARIABLES :: "string list" where
  "TLS_VARIABLES = [''LD_LIBRARY_PATH'', ''OPENSSL_CONF'', ''OPENSSL_MODULES'']"

definition server_env :: "environ \<Rightarrow> string \<Rightarrow> environ result" where
  "server_env environ server =
     (if starts_with ''openssl'' server then native_environment environ ''3.5.6''
      else Inr (filter (\<lambda>kv. \<not> List.member TLS_VARIABLES (fst kv)) environ))"

definition v15_spec :: "environ \<Rightarrow> string \<Rightarrow> string \<Rightarrow> nat \<Rightarrow> string \<Rightarrow> ScenarioSpec result" where
  "v15_spec environ server client rep out_dir =
     rbind (look (map_of CLIENTS) client) (\<lambda>(groups, _).
     rbind (server_command environ server) (\<lambda>cmd.
     rbind (native_environment environ ''3.5.5'') (\<lambda>client_env.
     rbind (server_env environ server) (\<lambda>senv.
       Inr ((new_spec ''openssl'' ''negotiation-function'' rep (server @ ''-'' @ client) cmd
         [CLIENT_BIN, ''s_client'', ''-tls1_3'', ''-state'', ''-msg'', ''-provider'', ''default'', ''-connect'', ''127.0.0.1:'' @ dec PORT,
          ''-groups'', groups] PORT client_env out_dir)
         \<lparr>sp_capture_traffic := True, sp_advertised_hybrid := Some True, sp_server_env := Some senv\<rparr>)))))"

text \<open>\<open>servers\<close> is the selection of the caller; an absent or empty one means all servers.\<close>

definition v15_specs :: "environ \<Rightarrow> nat \<Rightarrow> string \<Rightarrow> string list option \<Rightarrow> ScenarioSpec list result" where
  "v15_specs environ reps out_dir servers =
     rconcat_map (\<lambda>rep. rconcat_map (\<lambda>server. rmap (\<lambda>client. v15_spec environ server client rep out_dir) (map fst CLIENTS))
       (or_default servers (\<lambda>s. s \<noteq> []) (map fst (SERVERS environ)))) [1..<reps + 1]"

definition client_precondition_v15 :: "string \<Rightarrow> HelloSummary \<Rightarrow> bool result" where
  "client_precondition_v15 client summary =
     (case client_hellos summary of [] \<Rightarrow> Inr False
      | (groups, shares) # _ \<Rightarrow>
        rbind (look (map_of CLIENTS) client) (\<lambda>(_, expected_groups, expected_shares).
          Inr (groups = expected_groups \<and> shares = expected_shares)))"

text \<open>\<open>Path(run_dir) / record.artifacts.get(key, "")\<close>: the directory itself when there is no entry.\<close>

definition artifact_file :: "RunRecord \<Rightarrow> string \<Rightarrow> string \<Rightarrow> string result" where
  "artifact_file r run_dir key = (case map_of (artifacts r) key of
     None \<Rightarrow> Inr run_dir | Some j \<Rightarrow> rbind (as_str j) (\<lambda>name. Inr (if name = [] then run_dir else path_join run_dir name)))"

definition v15_metrics :: "disk \<Rightarrow> files \<Rightarrow> string \<Rightarrow> string \<Rightarrow> string \<Rightarrow> Metrics \<Rightarrow> Metrics result" where
  "v15_metrics d fs client pcap client_log m =
     rbind (case usable_capture d (Some pcap) of
         Some capture \<Rightarrow> rbind (summarize_hellos capture) (\<lambda>summary.
           rbind (client_precondition_v15 client summary) (\<lambda>pre. Inr (capture_metrics (\<lambda>_. pre) summary m)))
       | None \<Rightarrow> Inr (m\<lparr>client_precondition_verified := Some False\<rparr>)) (\<lambda>m.
       Inr (m\<lparr>downgrade_flagged := None,
         detail := (case fs client_log of Some t \<Rightarrow> if contains ''New, TLSv1.3'' t then ''handshake-completed'' else ''handshake-incomplete''
           | None \<Rightarrow> ''handshake-incomplete'')\<rparr>))"

definition evaluated_v15 :: "(bytes \<Rightarrow> string) \<Rightarrow> environ \<Rightarrow> disk \<Rightarrow> files \<Rightarrow> string \<Rightarrow> string \<Rightarrow> string \<Rightarrow> RunRecord \<Rightarrow> RunRecord result" where
  "evaluated_v15 sha256 environ d fs run_dir server client r =
     rbind (artifact_file r run_dir ''pcap'') (\<lambda>pcap.
     rbind (artifact_file r run_dir ''client_log'') (\<lambda>client_log.
     rbind (v15_metrics d fs client pcap client_log (metrics r)) (\<lambda>m.
     rbind (server_command environ server) (\<lambda>cmd.
     rbind (look (map_of CLIENTS) client) (\<lambda>(groups, _).
     if cmd = [] then Inl IndexError else
       Inr (r\<lparr>metrics := m, manipulation_verified := (client_precondition_verified m = Some True),
         provenance := [(''server'', JStr server), (''client'', JStr client), (''server_cmd'', jstrs cmd),
           (''client_groups_arg'', JStr groups), (''server_bin_sha256'', jopt JStr (sha256_file sha256 d (hd cmd)))]\<rparr>))))))"

definition evaluate_v15 :: "(bytes \<Rightarrow> string) \<Rightarrow> environ \<Rightarrow> disk \<Rightarrow> string \<Rightarrow> string \<Rightarrow> string \<Rightarrow> RunRecord \<Rightarrow> RunRecord prog" where
  "evaluate_v15 sha256 environ d run_dir server client r w =
     seqp (lift_result (evaluated_v15 sha256 environ d (visible_texts d w) run_dir server client r)) (store_record run_dir) w"

definition v15_step_run :: "(nat \<Rightarrow> run_env) \<Rightarrow> (nat \<Rightarrow> disk) \<Rightarrow> (bytes \<Rightarrow> string) \<Rightarrow> environ \<Rightarrow> string \<Rightarrow> nat \<Rightarrow> ScenarioSpec \<Rightarrow> RunRecord prog" where
  "v15_step_run envs disks sha256 environ out_dir i sp =
     seqp (lift_result (split_condition (sp_condition sp))) (\<lambda>(server, client).
     seqp (run_scenario (envs i) sp) (\<lambda>r.
       evaluate_v15 sha256 environ (disks i) out_dir server client r))"

definition run_v15 :: "(nat \<Rightarrow> run_env) \<Rightarrow> (nat \<Rightarrow> disk) \<Rightarrow> (bytes \<Rightarrow> string) \<Rightarrow> environ \<Rightarrow> string list \<Rightarrow> nat \<Rightarrow> string \<Rightarrow>
    string list option \<Rightarrow> RunRecord list prog" where
  "run_v15 envs disks sha256 environ listing reps out_dir servers =
     (if has_json listing then raise (RuntimeError (out_dir @ '' is not empty; choose a fresh --output-dir'')) else
      seqp (lift_result (v15_specs environ reps out_dir servers)) (for_each (v15_step_run envs disks sha256 environ out_dir) 0))"

record v15_row =
  v15_n :: nat
  v15_precondition :: nat
  v15_completed :: nat
  v15_success :: nat
  v15_hrr :: nat
  v15_hybrid :: nat
  v15_classical :: nat
  v15_unknown :: nat

definition v15_zero :: v15_row where
  "v15_zero = \<lparr>v15_n = 0, v15_precondition = 0, v15_completed = 0, v15_success = 0, v15_hrr = 0, v15_hybrid = 0, v15_classical = 0,
     v15_unknown = 0\<rparr>"

definition v15_count :: "RunRecord \<Rightarrow> v15_row \<Rightarrow> v15_row" where
  "v15_count r c = (let m = metrics r; final = final_negotiated_group m;
     c = c\<lparr>v15_n := v15_n c + 1,
       v15_precondition := v15_precondition c + of_bool (client_precondition_verified m = Some True),
       v15_completed := v15_completed c + of_bool (detail m = ''handshake-completed''),
       v15_success := v15_success c + of_bool (handshake_result m = ''success''),
       v15_hrr := v15_hrr c + of_bool (hrr_pcap_present m = Some True)\<rparr> in
     if final = Some ''X25519MLKEM768'' then c\<lparr>v15_hybrid := v15_hybrid c + 1\<rparr>
     else if final = Some ''X25519'' then c\<lparr>v15_classical := v15_classical c + 1\<rparr>
     else c\<lparr>v15_unknown := v15_unknown c + 1\<rparr>)"

definition pair_key :: "RunRecord \<Rightarrow> (string \<times> string) result" where
  "pair_key r =
     rbind (look (map_of (provenance r)) ''server'') (\<lambda>s. rbind (as_str s) (\<lambda>server.
     rbind (look (map_of (provenance r)) ''client'') (\<lambda>c. rbind (as_str c) (\<lambda>client. Inr (server, client)))))"

definition v15_item_of :: "dict \<Rightarrow> ((string \<times> string) \<times> RunRecord) option result" where
  "v15_item_of doc = rbind (from_json doc) (\<lambda>r.
     if fault_type r \<noteq> ''negotiation-function'' then Inr None else rbind (pair_key r) (\<lambda>k. Inr (Some (k, r))))"

definition v15_summary :: "((string \<times> string) \<times> RunRecord) list \<Rightarrow> ((string \<times> string) \<times> v15_row) list" where
  "v15_summary items = fold (\<lambda>i. dict_update (fst i) v15_zero (v15_count (snd i))) items []"

definition comparison_v15 :: "run_dir \<Rightarrow> ((string \<times> string) \<times> v15_row) list result" where
  "comparison_v15 files = rbind (rmap (\<lambda>f. v15_item_of (snd f)) (sort_key fst files)) (\<lambda>xs. Inr (v15_summary (List.map_filter id xs)))"

text \<open>The position of a server in the configuration, 99 for an unknown one.\<close>

fun position :: "'a \<Rightarrow> 'a list \<Rightarrow> nat \<Rightarrow> nat option" where
  "position x [] i = None"
| "position x (y # ys) i = (if x = y then Some i else position x ys (Suc i))"

definition server_order :: "environ \<Rightarrow> string \<Rightarrow> nat" where
  "server_order environ server = (case position server (map fst (SERVERS environ)) 0 of Some i \<Rightarrow> i | None \<Rightarrow> 99)"

definition render_v15 :: "environ \<Rightarrow> run_dir \<Rightarrow> string result" where
  "render_v15 environ files =
     rbind (comparison_v15 files) (\<lambda>d.
       Inr (join nl ([''| server | client | precondition/n | handshake completed | clean exit | HRR (PCAP) | hybrid | classical | unknown |'',
         ''|---|---|---|---:|---:|---:|---:|---:|---:|''] @
        map (\<lambda>((server, client), c). ''| '' @ server @ '' | '' @ client @ '' | '' @ dec (v15_precondition c) @ ''/'' @ dec (v15_n c) @ '' | '' @
          dec (v15_completed c) @ '' | '' @ dec (v15_success c) @ '' | '' @ dec (v15_hrr c) @ '' | '' @ dec (v15_hybrid c) @ '' | '' @
          dec (v15_classical c) @ '' | '' @ dec (v15_unknown c) @ '' |'')
          (sort_key (\<lambda>((server, client), c). (server_order environ server, client)) d))))"

fun missing_server :: "(string \<Rightarrow> bool) \<Rightarrow> (string \<times> string list) list \<Rightarrow> string option" where
  "missing_server exists [] = None"
| "missing_server exists ((server, cmd) # servers) =
     (let binary = hd cmd in
      if CHR ''/'' \<in> set binary \<and> \<not> exists binary then Some (''missing server binary for '' @ server @ '': '' @ binary)
      else missing_server exists servers)"

definition preflight_v15 :: "environ \<Rightarrow> (string \<Rightarrow> bool) \<Rightarrow> (nat \<Rightarrow> bool) \<Rightarrow> bool \<times> string" where
  "preflight_v15 environ exists port_free =
     (case missing_server exists (SERVERS environ) of Some reason \<Rightarrow> (False, reason)
      | None \<Rightarrow>
        (case find (\<lambda>p. \<not> exists p) [CLIENT_BIN, PEM, V15 @ ''/nssdb''] of Some p \<Rightarrow> (False, ''missing: '' @ p)
         | None \<Rightarrow> if \<not> port_free PORT then (False, ''port '' @ dec PORT @ '' in use'') else (True, ''ok'')))"

section \<open>The scenarios\<close>

lemma client_no_dash: "look (map_of CLIENTS) client = Inr x \<Longrightarrow> CHR ''-'' \<notin> set client"
  by (auto simp: look_def CLIENTS_def split: option.splits if_splits)

lemma v15_spec_fields:
  assumes "v15_spec environ server client rep out_dir = Inr sp"
  shows "sp_impl sp = ''openssl''" "sp_fault_type sp = ''negotiation-function''" "sp_repetition sp = rep"
    "sp_condition sp = server @ ''-'' @ client" "sp_out_dir sp = out_dir" "sp_capture_traffic sp" "sp_proxy_mutate sp = None"
    "server_port_of sp = PORT" "CHR ''-'' \<notin> set client" "split_condition (sp_condition sp) = Inr (server, client)"
    "server_command environ server = Inr (sp_server_cmd sp)" "\<exists>groups es. look (map_of CLIENTS) client = Inr (groups, es)"
proof -
  obtain groups es cmd ce se where l: "look (map_of CLIENTS) client = Inr (groups, es)" and cmd: "server_command environ server = Inr cmd"
    and sp: "sp = (new_spec ''openssl'' ''negotiation-function'' rep (server @ ''-'' @ client) cmd
         [CLIENT_BIN, ''s_client'', ''-tls1_3'', ''-state'', ''-msg'', ''-provider'', ''default'', ''-connect'', ''127.0.0.1:'' @ dec PORT,
          ''-groups'', groups] PORT ce out_dir)
         \<lparr>sp_capture_traffic := True, sp_advertised_hybrid := Some True, sp_server_env := Some se\<rparr>"
    using assms unfolding v15_spec_def by (auto simp: res_simps)
  show "sp_impl sp = ''openssl''" "sp_fault_type sp = ''negotiation-function''" "sp_repetition sp = rep"
    and c: "sp_condition sp = server @ ''-'' @ client" and "sp_out_dir sp = out_dir" "sp_capture_traffic sp" "sp_proxy_mutate sp = None"
      "server_port_of sp = PORT" "server_command environ server = Inr (sp_server_cmd sp)"
    by (simp_all add: sp new_spec_def cmd or_default_def)
  show nd: "CHR ''-'' \<notin> set client" by (rule client_no_dash [OF l])
  show "split_condition (sp_condition sp) = Inr (server, client)" unfolding c by (rule split_condition_append [OF nd])
  show "\<exists>groups es. look (map_of CLIENTS) client = Inr (groups, es)" using l by blast
qed

abbreviation chosen_servers :: "environ \<Rightarrow> string list option \<Rightarrow> string list" where
  "chosen_servers environ servers \<equiv> or_default servers (\<lambda>s. s \<noteq> []) (map fst (SERVERS environ))"

lemma v15_specs_list:
  assumes "v15_specs environ n out_dir servers = Inr specs"
  shows "list_all2 (\<lambda>(rep, server, client) sp. v15_spec environ server client rep out_dir = Inr sp)
    (List.product [1..<n + 1] (List.product (chosen_servers environ servers) (map fst CLIENTS))) specs"
  by (rule rconcat_map_product [OF assms [unfolded v15_specs_def]],
      rule rconcat_map_product [where P = "\<lambda>s c sp. v15_spec environ s c _ out_dir = Inr sp"], assumption)
    (simp add: rmap_Inr_iff)

lemma clients_no_dash: "\<forall>c \<in> set (List.product ss (map fst CLIENTS)). CHR ''-'' \<notin> set (snd c)"
  by (auto simp: CLIENTS_def)

lemma v15_specs_distinct:
  assumes "v15_specs environ n out_dir servers = Inr specs" "distinct (chosen_servers environ servers)"
  shows "distinct (map identifier_of specs)"
proof (rule product_identifiers_distinct [where cond = "\<lambda>(s, c). s @ ''-'' @ c"])
  show "list_all2 (\<lambda>t sp. identifier_of sp = run_id ''openssl'' ''negotiation-function'' (fst t) (case snd t of (s, c) \<Rightarrow> s @ ''-'' @ c))
      (List.product [1..<n + 1] (List.product (chosen_servers environ servers) (map fst CLIENTS))) specs"
    by (rule list_all2_mono [OF v15_specs_list [OF assms(1)]]) (auto simp: v15_spec_fields)
  show "distinct (List.product (chosen_servers environ servers) (map fst CLIENTS))"
    using assms(2) by (simp add: distinct_product CLIENTS_def)
  show "inj_on (\<lambda>(s, c). s @ ''-'' @ c) (set (List.product (chosen_servers environ servers) (map fst CLIENTS)))"
    by (rule condition_inj [OF clients_no_dash])
qed simp_all

lemma v15_specs_dir:
  assumes "v15_specs environ n out_dir servers = Inr specs" "sp \<in> set specs"
  shows "sp_out_dir sp = out_dir" "\<exists>server client. v15_spec environ server client (sp_repetition sp) out_dir = Inr sp"
  using list_all2_in2 [OF v15_specs_list [OF assms(1)] assms(2)] v15_spec_fields(3,5) by fastforce+

section \<open>A run\<close>

lemma evaluated_v15_fields:
  assumes "evaluated_v15 sha256 environ d fs dir server client r = Inr r'"
  shows "rec_run_id r' = rec_run_id r" "fault_type r' = fault_type r" "repetition r' = repetition r" "pair_key r' = Inr (server, client)"
  using assms unfolding evaluated_v15_def by (auto simp: res_simps pair_key_def look_def split: if_splits)

lemma evaluate_v15_result:
  assumes "evaluate_v15 sha256 environ d dir server client r w = Some (y, w')"
  shows "case y of Inl e \<Rightarrow> docs w' = docs w
    | Inr r' \<Rightarrow> evaluated_v15 sha256 environ d (visible_texts d w) dir server client r = Inr r' \<and> rec_run_id r' = rec_run_id r \<and>
        docs w' = (docs w)(doc_path dir (rec_run_id r) \<mapsto> asdict_record r')"
  by (rule evaluation_result [OF assms [unfolded evaluate_v15_def]]) (rule evaluated_v15_fields(1))

interpretation v15run: driver "v15_step_run envs disks sha256 environ out_dir" out_dir
  for envs disks sha256 environ out_dir
proof (rule driver_after)
  show "v15_step_run envs disks sha256 environ out_dir i sp = seqp (lift_result (split_condition (sp_condition sp)))
      (\<lambda>sc. seqp (run_scenario (envs i) sp) (\<lambda>r. evaluate_v15 sha256 environ (disks i) out_dir (fst sc) (snd sc) r))" for i sp
    unfolding v15_step_run_def case_prod_unfold ..
  show "driver (\<lambda>i sp. seqp (run_scenario (envs i) sp) (\<lambda>r. evaluate_v15 sha256 environ (disks i) out_dir (fst sc) (snd sc) r)) out_dir" for sc
  proof (rule evaluating_driver)
    fix i r w x w' assume "evaluate_v15 sha256 environ (disks i) out_dir (fst sc) (snd sc) r w = Some (x, w')"
    from evaluate_v15_result [OF this] show "case x of Inl e \<Rightarrow> docs w' = docs w
      | Inr r' \<Rightarrow> rec_run_id r' = rec_run_id r \<and> docs w' = (docs w)(doc_path out_dir (rec_run_id r) \<mapsto> asdict_record r')"
      by (cases x) auto
  qed
qed

lemma run_v15_Inr:
  assumes "run_v15 envs disks sha256 environ listing n out_dir servers w = Some (Inr rs, w')"
  obtains specs where "v15_specs environ n out_dir servers = Inr specs"
    "for_each (v15_step_run envs disks sha256 environ out_dir) 0 specs w = Some (Inr rs, w')"
  using assms by (cases "v15_specs environ n out_dir servers") (auto simp: run_v15_def raise_def split: if_splits)

lemma v15_step_record:
  assumes "v15_step_run envs disks sha256 environ out_dir i sp w = Some (Inr r, w')"
    and "v15_spec environ server client rep out_dir = Inr sp"
  shows "fault_type r = ''negotiation-function''" "repetition r = rep" "pair_key r = Inr (server, client)"
proof -
  obtain r0 w1 where r0: "run_scenario (envs i) sp w = Some (Inr r0, w1)"
    "evaluate_v15 sha256 environ (disks i) out_dir server client r0 w1 = Some (Inr r, w')"
    using assms(1) by (auto simp: v15_step_run_def v15_spec_fields(10) [OF assms(2)] seqp_Inr)
  have ev: "evaluated_v15 sha256 environ (disks i) (visible_texts (disks i) w1) out_dir server client r0 = Inr r"
    using evaluate_v15_result [OF r0(2)] by simp
  have sc: "scenario_record sp r0" using run_scenario_result [OF r0(1)] by simp
  note f = evaluated_v15_fields [OF ev]
  show "fault_type r = ''negotiation-function''" "repetition r = rep"
    using f sc v15_spec_fields(2,3) [OF assms(2)] by (simp_all add: scenario_record_def)
  show "pair_key r = Inr (server, client)" by (rule f(4))
qed

text \<open>The server and the client that the provenance of a record names.\<close>

definition pair_of :: "RunRecord \<Rightarrow> string \<times> string" where
  "pair_of r = (case pair_key r of Inr k \<Rightarrow> k | Inl e \<Rightarrow> ([], []))"

lemma run_v15_records:
  assumes "run_v15 envs disks sha256 environ listing n out_dir servers w = Some (Inr rs, w')"
  shows "map (\<lambda>r. (repetition r, pair_of r)) rs = List.product [1..<n + 1] (List.product (chosen_servers environ servers) (map fst CLIENTS))"
    "r \<in> set rs \<Longrightarrow> v15_item_of (asdict_record r) = Inr (Some (pair_of r, r))"
proof -
  obtain specs where sp: "v15_specs environ n out_dir servers = Inr specs"
    "for_each (v15_step_run envs disks sha256 environ out_dir) 0 specs w = Some (Inr rs, w')"
    by (rule run_v15_Inr [OF assms])
  let ?Q = "\<lambda>(rep, s, c) r. fault_type r = ''negotiation-function'' \<and> repetition r = rep \<and> pair_key r = Inr (s, c)"
  let ?S = "\<lambda>(rep, s, c) sp. v15_spec environ s c rep out_dir = Inr sp"
  have step: "list_all2 (\<lambda>sp r. \<forall>t. ?S t sp \<longrightarrow> ?Q t r) specs rs"
    by (rule for_each_list_all2 [OF sp(2)]) (use v15_step_record in \<open>auto split: prod.splits\<close>)
  have Q: "list_all2 ?Q (List.product [1..<n + 1] (List.product (chosen_servers environ servers) (map fst CLIENTS))) rs"
    by (rule list_all2_trans [OF _ v15_specs_list [OF sp(1)] step]) blast
  show "map (\<lambda>r. (repetition r, pair_of r)) rs = List.product [1..<n + 1] (List.product (chosen_servers environ servers) (map fst CLIENTS))"
    using list_all2_map_eq [OF Q, of "\<lambda>r. (repetition r, pair_of r)" id] by (auto simp: pair_of_def)
  show "v15_item_of (asdict_record r) = Inr (Some (pair_of r, r))" if "r \<in> set rs"
    using list_all2_in2 [OF Q that] by (auto simp: v15_item_of_def pair_of_def)
qed

section \<open>The table\<close>

interpretation table15: tally v15_summary fst v15_zero "\<lambda>i. v15_count (snd i)"
  by unfold_locales (simp add: v15_summary_def)

text \<open>The row that belongs to a list of records.\<close>

definition v15_row_of :: "RunRecord list \<Rightarrow> v15_row" where
  "v15_row_of rs = \<lparr>v15_n = length rs,
     v15_precondition = count_if (\<lambda>r. client_precondition_verified (metrics r) = Some True) rs,
     v15_completed = count_if (\<lambda>r. detail (metrics r) = ''handshake-completed'') rs,
     v15_success = count_if (\<lambda>r. handshake_result (metrics r) = ''success'') rs,
     v15_hrr = count_if (\<lambda>r. hrr_pcap_present (metrics r) = Some True) rs,
     v15_hybrid = count_if (\<lambda>r. final_negotiated_group (metrics r) = Some ''X25519MLKEM768'') rs,
     v15_classical = count_if (\<lambda>r. final_negotiated_group (metrics r) = Some ''X25519'') rs,
     v15_unknown = count_if (\<lambda>r. final_negotiated_group (metrics r) \<noteq> Some ''X25519MLKEM768'' \<and> final_negotiated_group (metrics r) \<noteq> Some ''X25519'') rs\<rparr>"

lemma v15_count_row: "v15_count r (v15_row_of rs) = v15_row_of (rs @ [r])"
  by (auto simp: v15_count_def v15_row_of_def Let_def count_if_def)

lemma v15_fold: "fold (\<lambda>i. v15_count (snd i)) items (v15_row_of rs) = v15_row_of (rs @ map snd items)"
  by (induction items arbitrary: rs) (simp_all add: v15_count_row)

lemma v15_row_of_mset: "mset xs = mset ys \<Longrightarrow> v15_row_of xs = v15_row_of ys"
proof -
  assume m: "mset xs = mset ys"
  have "count_if P xs = count_if P ys" for P :: "RunRecord \<Rightarrow> bool"
    using arg_cong [OF m, of "\<lambda>m. size (filter_mset P m)"] by (simp add: count_if_def flip: mset_filter)
  then show ?thesis unfolding v15_row_of_def mset_eq_length [OF m] by simp
qed

lemma v15_row_sum: "v15_hybrid (v15_row_of rs) + v15_classical (v15_row_of rs) + v15_unknown (v15_row_of rs) = v15_n (v15_row_of rs)"
  by (induction rs) (auto simp: v15_row_of_def)

lemma v15_summary_rows:
  assumes "mset items = mset (map (\<lambda>r. (pair_of r, r)) rs)"
  shows "(k, row) \<in> set (v15_summary items) \<longleftrightarrow> k \<in> pair_of ` set rs \<and> row = v15_row_of (filter (\<lambda>r. pair_of r = k) rs)"
proof -
  have "fst ` set items = pair_of ` set rs" using mset_eq_setD [OF assms] by (simp add: image_image)
  moreover have "v15_zero = v15_row_of []" by (simp add: v15_zero_def v15_row_of_def)
  moreover have "v15_row_of (map snd (filter (\<lambda>i. fst i = k) items)) = v15_row_of (filter (\<lambda>r. pair_of r = k) rs)"
  proof (rule v15_row_of_mset)
    have "mset (map snd (filter (\<lambda>i. fst i = k) items)) = image_mset snd (filter_mset (\<lambda>i. fst i = k) (mset items))" by simp
    also have "\<dots> = mset (map snd (filter (\<lambda>i. fst i = k) (map (\<lambda>r. (pair_of r, r)) rs)))" unfolding assms by simp
    also have "map snd (filter (\<lambda>i. fst i = k) (map (\<lambda>r. (pair_of r, r)) rs)) = filter (\<lambda>r. pair_of r = k) rs"
      by (simp add: filter_map comp_def)
    finally show "mset (map snd (filter (\<lambda>i. fst i = k) items)) = mset (filter (\<lambda>r. pair_of r = k) rs)" .
  qed
  ultimately show ?thesis using v15_fold [of "filter (\<lambda>i. fst i = k) items" "[]"] unfolding table15.summary_rows by simp
qed

lemma comparison_v15_stored:
  assumes "mset files = mset (map stored rs)" "\<And>r. r \<in> set rs \<Longrightarrow> v15_item_of (asdict_record r) = Inr (Some (pair_of r, r))"
  shows "\<exists>items. comparison_v15 files = Inr (v15_summary items) \<and> mset items = mset (map (\<lambda>r. (pair_of r, r)) rs)"
proof -
  obtain items where "rmap (\<lambda>f. v15_item_of (snd f)) (sort_key fst files) = Inr (map Some items)"
    "mset items = mset (map (\<lambda>r. (pair_of r, r)) rs)"
    using items_stored [where item = v15_item_of, OF assms] by blast
  moreover have "List.map_filter id (map Some items) = items" using map_filter_Some [of id items] by simp
  ultimately show ?thesis by (intro exI [of _ items]) (simp add: comparison_v15_def)
qed

text \<open>
  C32. From the run to the table. Take a run that returns its records, and the directory that holds the
  files of these records, in any order. Every record is stored under its identifier; the comparison of
  that directory returns a table that has one row for every selected server with every client, and
  the row of a pair counts exactly the runs of that pair: all its repetitions, of which the hybrid, the
  classical and the unknown ones add up to the whole. The pair of a run is the one it was started for,
  although it is read from the provenance that was cut out of the condition at its last hyphen and the
  names of servers have hyphens too.
\<close>

theorem run_v15_table:
  assumes "run_v15 envs disks sha256 environ listing n out_dir servers w = Some (Inr rs, w')" "0 < n"
    and "mset files = mset (map stored rs)" "distinct (chosen_servers environ servers)"
  shows "(\<forall>r \<in> set rs. docs w' (doc_path out_dir (rec_run_id r)) = Some (asdict_record r)) \<and>
    (\<exists>table. comparison_v15 files = Inr table \<and> distinct (map fst table) \<and>
       fst ` set table = set (chosen_servers environ servers) \<times> {''C1'', ''C2'', ''C3''} \<and>
       (\<forall>(k, row) \<in> set table. row = v15_row_of (filter (\<lambda>r. pair_of r = k) rs) \<and> v15_n row = n \<and>
          v15_hybrid row + v15_classical row + v15_unknown row = n))"
proof
  obtain specs where sp: "v15_specs environ n out_dir servers = Inr specs"
    "for_each (v15_step_run envs disks sha256 environ out_dir) 0 specs w = Some (Inr rs, w')"
    by (rule run_v15_Inr [OF assms(1)])
  have "\<forall>s \<in> set specs. sp_out_dir s = out_dir" using v15_specs_dir(1) [OF sp(1)] by blast
  from v15run.records_stored [OF sp(2) this v15_specs_distinct [OF sp(1) assms(4)]]
  show "\<forall>r \<in> set rs. docs w' (doc_path out_dir (rec_run_id r)) = Some (asdict_record r)" by blast
  let ?cells = "List.product (chosen_servers environ servers) (map fst CLIENTS)"
  note recs = run_v15_records [OF assms(1)]
  have cells: "distinct ?cells" using assms(4) by (simp add: distinct_product CLIENTS_def)
  have clients: "set ?cells = set (chosen_servers environ servers) \<times> {''C1'', ''C2'', ''C3''}" by (simp add: CLIENTS_def)
  have pairs: "pair_of ` set rs = set ?cells"
  proof -
    have "pair_of ` set rs = snd ` set (map (\<lambda>r. (repetition r, pair_of r)) rs)" by (simp add: image_image)
    also have "\<dots> = set ?cells" unfolding recs(1) using assms(2) by force
    finally show ?thesis .
  qed
  obtain items where it: "comparison_v15 files = Inr (v15_summary items)" "mset items = mset (map (\<lambda>r. (pair_of r, r)) rs)"
    using comparison_v15_stored [OF assms(3) recs(2)] by blast
  have "fst ` set (v15_summary items) = set ?cells"
    unfolding table15.summary_keys using mset_eq_setD [OF it(2)] pairs by (simp add: image_image)
  moreover have "row = v15_row_of (filter (\<lambda>r. pair_of r = k) rs) \<and> v15_n row = n \<and> v15_hybrid row + v15_classical row + v15_unknown row = n"
    if "(k, row) \<in> set (v15_summary items)" for k row
  proof -
    have row: "k \<in> set ?cells" "row = v15_row_of (filter (\<lambda>r. pair_of r = k) rs)"
      using that unfolding v15_summary_rows [OF it(2)] pairs by auto
    have "length (filter (\<lambda>r. pair_of r = k) rs) = n" using arg_cong [OF filter_cells [OF recs(1) cells row(1)], of length] by simp
    then have "v15_n row = n" by (simp add: row(2) v15_row_of_def)
    then show ?thesis using row(2) v15_row_sum by metis
  qed
  ultimately show "\<exists>table. comparison_v15 files = Inr table \<and> distinct (map fst table) \<and>
       fst ` set table = set (chosen_servers environ servers) \<times> {''C1'', ''C2'', ''C3''} \<and>
       (\<forall>(k, row) \<in> set table. row = v15_row_of (filter (\<lambda>r. pair_of r = k) rs) \<and> v15_n row = n \<and>
          v15_hybrid row + v15_classical row + v15_unknown row = n)"
    using it(1) table15.summary_distinct [of items] clients by (intro exI [of _ "v15_summary items"]) blast
qed

section \<open>Runs return\<close>

lemma native_environment_returns: "PREFIX v \<noteq> None \<Longrightarrow> \<exists>e. native_environment environ v = Inr e"
  by (auto simp: native_environment_def look_def Let_def)

lemma artifact_file_returns: "artifacts r = scenario_artifacts sp cap \<Longrightarrow> \<exists>p. artifact_file r dir k = Inr p"
  using scenario_artifacts_str [of sp cap k] by (auto simp: artifact_file_def split: option.splits)

lemma client_precondition_v15_returns: "map_of CLIENTS client \<noteq> None \<Longrightarrow> \<exists>b. client_precondition_v15 client s = Inr b"
  by (auto simp: client_precondition_v15_def look_def split: list.splits)

lemma v15_metrics_returns: "map_of CLIENTS client \<noteq> None \<Longrightarrow> \<exists>m. v15_metrics d fs client pcap log ms = Inr m"
proof -
  assume c: "map_of CLIENTS client \<noteq> None"
  have "\<exists>m. (case usable_capture d (Some pcap) of
         Some capture \<Rightarrow> rbind (summarize_hellos capture) (\<lambda>summary.
           rbind (client_precondition_v15 client summary) (\<lambda>pre. Inr (capture_metrics (\<lambda>_. pre) summary ms)))
       | None \<Rightarrow> Inr (ms\<lparr>client_precondition_verified := Some False\<rparr>)) = Inr m"
  proof (cases "usable_capture d (Some pcap)")
    case (Some capture)
    obtain s where "summarize_hellos capture = Inr s" using summarize_hellos_concat by blast
    then show ?thesis using Some client_precondition_v15_returns [OF c, of s] by auto
  qed simp
  then show ?thesis unfolding v15_metrics_def by auto
qed

lemma server_command_returns:
  "server \<in> fst ` set (SERVERS environ) \<Longrightarrow> \<exists>c cmd. server_command environ server = Inr (c # cmd)"
  by (auto simp: server_command_def look_def SERVERS_def OPENSSL_CMD_def)

lemma evaluated_v15_returns:
  assumes "artifacts r = scenario_artifacts sp cap" "server \<in> fst ` set (SERVERS environ)" "map_of CLIENTS client \<noteq> None"
  shows "\<exists>r'. evaluated_v15 sha256 environ d fs dir server client r = Inr r'"
proof -
  obtain p l where "artifact_file r dir ''pcap'' = Inr p" "artifact_file r dir ''client_log'' = Inr l"
    using artifact_file_returns [OF assms(1)] by blast
  moreover obtain m where "v15_metrics d fs client p l (metrics r) = Inr m" using v15_metrics_returns [OF assms(3)] by blast
  moreover obtain c cmd where "server_command environ server = Inr (c # cmd)" using server_command_returns [OF assms(2)] by blast
  moreover obtain g es where "look (map_of CLIENTS) client = Inr (g, es)" using assms(3) by (auto simp: look_def)
  ultimately show ?thesis by (simp add: evaluated_v15_def)
qed

lemma v15_spec_returns:
  assumes "server \<in> fst ` set (SERVERS environ)" "map_of CLIENTS client \<noteq> None"
  shows "\<exists>sp. v15_spec environ server client rep out_dir = Inr sp"
proof -
  have p: "PREFIX ''3.5.5'' \<noteq> None" "PREFIX ''3.5.6'' \<noteq> None" by (simp_all add: PREFIX_def)
  obtain e5 e6 where "native_environment environ ''3.5.5'' = Inr e5" "native_environment environ ''3.5.6'' = Inr e6"
    using native_environment_returns p by blast
  moreover obtain cmd where "server_command environ server = Inr cmd" using server_command_returns [OF assms(1)] by blast
  moreover obtain g es where "look (map_of CLIENTS) client = Inr (g, es)" using assms(2) by (auto simp: look_def)
  ultimately show ?thesis by (simp add: v15_spec_def server_env_def)
qed

lemma run_v15_completes:
  assumes "\<not> has_json listing" "set (chosen_servers environ servers) \<subseteq> fst ` set (SERVERS environ)" "\<forall>i. bench_works (envs i) PORT"
  shows "\<exists>rs w'. run_v15 envs disks sha256 environ listing n out_dir servers w = Some (Inr rs, w')"
proof -
  have known: "map_of CLIENTS c \<noteq> None" if "c \<in> set (map fst CLIENTS)" for c using that by (auto simp: map_of_eq_None_iff)
  have "\<exists>specs. v15_specs environ n out_dir servers = Inr specs"
    unfolding v15_specs_def
  proof (intro rconcat_map_returns rmap_returns)
    fix rep s c assume "s \<in> set (chosen_servers environ servers)" "c \<in> set (map fst CLIENTS)"
    then show "\<exists>y. v15_spec environ s c rep out_dir = Inr y" using v15_spec_returns known assms(2) by (meson subsetD)
  qed
  then obtain specs where specs: "v15_specs environ n out_dir servers = Inr specs" ..
  have step: "\<exists>r w'. v15_step_run envs disks sha256 environ out_dir i sp w = Some (Inr r, w')" if sp: "sp \<in> set specs" for i sp w
  proof -
    obtain s c where sc: "v15_spec environ s c (sp_repetition sp) out_dir = Inr sp" using v15_specs_dir(2) [OF specs sp] by blast
    have "good_bench (envs i) sp"
      by (rule good_benchI) (use assms(3) v15_spec_fields(7,8) [OF sc] in simp_all)
    moreover have "GROUP_RE (sp_impl sp) \<noteq> None" by (simp add: v15_spec_fields(1) [OF sc] GROUP_RE_def)
    ultimately obtain r w1 where r: "run_scenario (envs i) sp w = Some (Inr r, w1)" "artifacts r = scenario_artifacts sp (sp_capture_traffic sp)"
      using run_scenario_returns by blast
    have s: "s \<in> fst ` set (SERVERS environ)" using v15_spec_fields(11) [OF sc]
      by (auto simp: server_command_def look_def map_of_eq_None_iff split: option.splits dest: map_of_SomeD intro: rev_image_eqI)
    have c: "map_of CLIENTS c \<noteq> None" using v15_spec_fields(12) [OF sc] by (auto simp: look_def split: option.splits)
    obtain r' where "evaluated_v15 sha256 environ (disks i) (visible_texts (disks i) w1) out_dir s c r = Inr r'"
      using evaluated_v15_returns [OF r(2) s c] by blast
    then show ?thesis
      by (simp add: v15_step_run_def v15_spec_fields(10) [OF sc] seqp_def [of "run_scenario (envs i) sp"] r(1) evaluate_v15_def store_record_result)
  qed
  have "\<exists>rs w'. for_each (v15_step_run envs disks sha256 environ out_dir) 0 specs w = Some (Inr rs, w') \<and> length rs = length specs"
    by (rule for_each_returns) (rule step)
  then obtain rs w' where "for_each (v15_step_run envs disks sha256 environ out_dir) 0 specs w = Some (Inr rs, w')" by blast
  then show ?thesis using assms(1) by (simp add: run_v15_def specs)
qed

theorem run_v15_table_witness:
  "\<exists>rs w' table. run_v15 (\<lambda>_. working_env ([], [], 0)) (\<lambda>_. \<lparr>disk_bytes = \<lambda>_. None, disk_texts = Map.empty\<rparr>) (\<lambda>_. []) [] [] 2 ''out''
      (Some [''openssl-S1-serverpref'', ''go'']) empty_world = Some (Inr rs, w') \<and>
    comparison_v15 (map stored rs) = Inr table \<and> fst ` set table = {''openssl-S1-serverpref'', ''go''} \<times> {''C1'', ''C2'', ''C3''}"
proof -
  have ch: "chosen_servers [] (Some [''openssl-S1-serverpref'', ''go'']) = [''openssl-S1-serverpref'', ''go'']" by (simp add: or_default_def)
  have "\<not> has_json []" "set (chosen_servers [] (Some [''openssl-S1-serverpref'', ''go''])) \<subseteq> fst ` set (SERVERS [])"
    "\<forall>i :: nat. bench_works (working_env ([], [], 0)) PORT"
    unfolding ch by (simp_all add: has_json_def SERVERS_def)
  from run_v15_completes [OF this] obtain rs w' where r: "run_v15 (\<lambda>_. working_env ([], [], 0)) (\<lambda>_. \<lparr>disk_bytes = \<lambda>_. None, disk_texts = Map.empty\<rparr>) (\<lambda>_. []) [] [] 2 ''out''
      (Some [''openssl-S1-serverpref'', ''go'']) empty_world = Some (Inr rs, w')"
    by blast
  have "distinct (chosen_servers [] (Some [''openssl-S1-serverpref'', ''go'']))" unfolding ch by simp
  from conjunct2 [OF run_v15_table [OF r zero_less_numeral refl this], unfolded ch]
  obtain table where "comparison_v15 (map stored rs) = Inr table"
    "fst ` set table = set [''openssl-S1-serverpref'', ''go''] \<times> {''C1'', ''C2'', ''C3''}" by (elim exE conjE)
  with r show ?thesis unfolding list.set by (intro exI conjI)
qed

end
