(* ===== verification/Client_Defaults.thy ===== *)
theory Client_Defaults
  imports Negotiation
begin

text \<open>
  Model of \<open>tools/faultinject/v16.py\<close>: six client libraries with their default configuration against a
  fixed server (the survey), three fixed clients against two packaged servers, and the matrix of default
  clients and default servers (the direct runs). \<open>environ\<close> is \<open>os.environ\<close>, read when the module is
  loaded (the \<open>caddy\<close> binary) and when an environment is made.

  The theorems: the label of a group is folded into \<open>GREASE\<close> exactly for the reserved code points of
  RFC 8701; a direct run stores one record for every repetition, server and client, and the table over
  its files counts each pair exactly, although the pair is cut out of the condition at a separator whose
  characters occur in the names of clients.
\<close>

section \<open>Definitions\<close>

definition V16 :: string where "V16 = PHASE2_ROOT @ ''/v16''"
definition ADDR_V16 :: string where "ADDR_V16 = ''127.0.0.1:'' @ dec PORT"

definition DEFAULT_CLIENTS :: "(string \<times> string list) list" where
  "DEFAULT_CLIENTS = [
     (''openssl-3.5.5'', [CLIENT_BIN, ''s_client'', ''-tls1_3'', ''-provider'', ''default'', ''-connect'', ADDR_V16]),
     (''curl-system-openssl'', [''curl'', ''-sk'', ''--tlsv1.3'', ''-o'', ''/dev/null'', ''https://'' @ ADDR_V16 @ ''/'']),
     (''boringssl'', [PHASE2_ROOT @ ''/build/boringssl/tool/bssl'', ''client'', ''-connect'', ADDR_V16, ''-min-version'', ''tls1.3'']),
     (''go'', [V15 @ ''/goclient'', ''-connect'', ADDR_V16]),
     (''nss'', [''tstclnt'', ''-d'', ''sql:'' @ V15 @ ''/nssdb'', ''-h'', ''127.0.0.1'', ''-p'', dec PORT, ''-o'', ''-Q'', ''-V'', ''tls1.3:tls1.3'']),
     (''rustls'', [V15 @ ''/rustclient'', ADDR_V16])]"

definition SURVEY_SERVER :: "string list" where
  "SURVEY_SERVER = [OPENSSL_SERVER, ''s_server'', ''-tls1_3'', ''-www'', ''-provider'', ''default'', ''-accept'', dec PORT, ''-cert'', PEM]"

definition REAL_SERVERS :: "environ \<Rightarrow> (string \<times> string list) list" where
  "REAL_SERVERS environ = [
     (''nginx'', [''nginx'', ''-c'', V16 @ ''/nginx.conf'', ''-g'', ''daemon off;'']),
     (''caddy'', [case map_of environ ''FAULTINJECT_V16_CADDY'' of Some b \<Rightarrow> b | None \<Rightarrow> ''caddy'', ''run'', ''--config'',
        V16 @ ''/Caddyfile'', ''--adapter'', ''caddyfile''])]"

definition v16_output_dir :: "string \<Rightarrow> string" where
  "v16_output_dir repo = repo @ ''/docs/research/baselines/raw/v1.6''"

definition v16_direct_output_dir :: "string \<Rightarrow> string" where
  "v16_direct_output_dir repo = repo @ ''/docs/research/baselines/raw/v1.6-direct''"

definition clean_env :: "environ \<Rightarrow> environ" where
  "clean_env environ =
     dict_set ''XDG_CONFIG_HOME'' (V16 @ ''/caddy-config'') (dict_set ''XDG_DATA_HOME'' (V16 @ ''/caddy-data'')
       (filter (\<lambda>kv. \<not> List.member TLS_VARIABLES (fst kv)) environ))"

definition default_client_env :: "environ \<Rightarrow> string \<Rightarrow> environ result" where
  "default_client_env environ client =
     (if client = ''openssl-3.5.5'' then native_environment environ ''3.5.5'' else Inr (clean_env environ))"

definition survey_spec_v16 :: "environ \<Rightarrow> string \<Rightarrow> nat \<Rightarrow> string \<Rightarrow> ScenarioSpec result" where
  "survey_spec_v16 environ client rep out_dir =
     rbind (default_client_env environ client) (\<lambda>client_env.
     rbind (look (map_of DEFAULT_CLIENTS) client) (\<lambda>cmd.
     rbind (native_environment environ ''3.5.6'') (\<lambda>senv.
       Inr ((new_spec ''openssl'' ''client-default'' rep client SURVEY_SERVER cmd PORT client_env out_dir)
         \<lparr>sp_capture_traffic := True, sp_server_env := Some senv\<rparr>))))"

definition caddy_seconds :: "string \<Rightarrow> nat" where "caddy_seconds server = (if server = ''caddy'' then 10 else 3)"

definition server_spec_v16 :: "environ \<Rightarrow> string \<Rightarrow> string \<Rightarrow> nat \<Rightarrow> string \<Rightarrow> ScenarioSpec result" where
  "server_spec_v16 environ server client rep out_dir =
     rbind (look (map_of CLIENTS) client) (\<lambda>(groups, _).
     rbind (look (map_of (REAL_SERVERS environ)) server) (\<lambda>cmd.
     rbind (native_environment environ ''3.5.5'') (\<lambda>client_env.
       Inr ((new_spec ''openssl'' ''server-software'' rep (server @ ''-'' @ client) cmd
         [CLIENT_BIN, ''s_client'', ''-tls1_3'', ''-state'', ''-msg'', ''-provider'', ''default'', ''-connect'', ADDR_V16, ''-groups'', groups]
         PORT client_env out_dir)
         \<lparr>sp_capture_traffic := True, sp_server_env := Some (clean_env environ), sp_capture_seconds := caddy_seconds server\<rparr>))))"

definition direct_spec :: "environ \<Rightarrow> string \<Rightarrow> string \<Rightarrow> nat \<Rightarrow> string \<Rightarrow> ScenarioSpec result" where
  "direct_spec environ server client rep out_dir =
     rbind (default_client_env environ client) (\<lambda>client_env.
     rbind (look (map_of (REAL_SERVERS environ)) server) (\<lambda>scmd.
     rbind (look (map_of DEFAULT_CLIENTS) client) (\<lambda>ccmd.
       Inr ((new_spec ''openssl'' ''default-direct'' rep (server @ ''--'' @ client) scmd ccmd PORT client_env out_dir)
         \<lparr>sp_capture_traffic := True, sp_server_env := Some (clean_env environ), sp_capture_seconds := caddy_seconds server\<rparr>))))"

definition v16_specs :: "environ \<Rightarrow> nat \<Rightarrow> string \<Rightarrow> ScenarioSpec list result" where
  "v16_specs environ reps out_dir =
     rbind (rconcat_map (\<lambda>rep. rmap (\<lambda>client. survey_spec_v16 environ client rep out_dir) (map fst DEFAULT_CLIENTS)) [1..<reps + 1]) (\<lambda>survey.
     rbind (rconcat_map (\<lambda>rep. rconcat_map (\<lambda>server. rmap (\<lambda>client. server_spec_v16 environ server client rep out_dir) (map fst CLIENTS))
       (map fst (REAL_SERVERS environ))) [1..<reps + 1]) (\<lambda>servers.
       Inr (survey @ servers)))"

definition v16_direct_specs :: "environ \<Rightarrow> nat \<Rightarrow> string \<Rightarrow> ScenarioSpec list result" where
  "v16_direct_specs environ reps out_dir =
     rconcat_map (\<lambda>rep. rconcat_map (\<lambda>server. rmap (\<lambda>client. direct_spec environ server client rep out_dir) (map fst DEFAULT_CLIENTS))
       (map fst (REAL_SERVERS environ))) [1..<reps + 1]"

subsection \<open>Evaluation\<close>

text \<open>\<open>summarize_hellos(pcap.read_bytes()) if pcap.is_file() else None\<close>, and the first hello of it.\<close>

definition read_summary :: "disk \<Rightarrow> string \<Rightarrow> HelloSummary option result" where
  "read_summary d pcap = (case disk_bytes d pcap of None \<Rightarrow> Inr None | Some b \<Rightarrow> rbind (summarize_hellos b) (\<lambda>s. Inr (Some s)))"

definition first_hello :: "HelloSummary option \<Rightarrow> nat list \<times> nat list" where
  "first_hello summary = (case summary of Some s \<Rightarrow> (case client_hellos s of h # _ \<Rightarrow> h | [] \<Rightarrow> ([], [])) | None \<Rightarrow> ([], []))"

definition observed_metrics :: "HelloSummary option \<Rightarrow> Metrics \<Rightarrow> Metrics" where
  "observed_metrics summary m = (case summary of None \<Rightarrow> m
     | Some s \<Rightarrow> m\<lparr>hrr_pcap_present := Some (hrr_count s > 0), Metrics.server_hello_count := Some (PCAP_Hello.server_hello_count s),
         final_negotiated_group := group_name (final_group s)\<rparr>)"

definition group_names :: "nat list \<Rightarrow> json" where
  "group_names gs = JList (map (\<lambda>g. jopt JStr (group_name (Some g))) gs)"

definition v16_part_name :: "string \<Rightarrow> string" where
  "v16_part_name fault = (if fault = ''client-default'' then ''client-survey''
     else if fault = ''default-direct'' then ''default-direct'' else ''server-software'')"

definition command_binary :: "string list \<Rightarrow> string result" where
  "command_binary cmd = (case cmd of [] \<Rightarrow> Inl IndexError | b # _ \<Rightarrow> Inr b)"

definition v16_binary :: "ScenarioSpec \<Rightarrow> string result" where
  "v16_binary sp = command_binary (if sp_fault_type sp = ''client-default'' \<or> sp_fault_type sp = ''default-direct'' then sp_client_cmd sp else sp_server_cmd sp)"

text \<open>\<open>spec.condition.split("--", 1)\<close> unpacked into two variables.\<close>

definition split_direct :: "string \<Rightarrow> (string \<times> string) result" where
  "split_direct c = (case split_first ''--'' c of None \<Rightarrow> Inl (ValueError ''not enough values to unpack'') | Some vs \<Rightarrow> Inr vs)"

text \<open>The part of the provenance that names the runs, and whether the client sent what was expected of it.\<close>

definition v16_roles :: "ScenarioSpec \<Rightarrow> HelloSummary option \<Rightarrow> (dict \<times> bool) result" where
  "v16_roles sp summary =
     (if sp_fault_type sp = ''server-software'' then
        rbind (split_condition (sp_condition sp)) (\<lambda>(server, client).
        rbind (case summary of None \<Rightarrow> Inr False | Some s \<Rightarrow> client_precondition_v15 client s) (\<lambda>pre.
          Inr ([(''server'', JStr server), (''client'', JStr client)], pre)))
      else if sp_fault_type sp = ''default-direct'' then
        rbind (split_direct (sp_condition sp)) (\<lambda>(server, client).
          Inr ([(''server'', JStr server), (''client'', JStr client)], fst (first_hello summary) \<noteq> []))
      else Inr ([(''client'', JStr (sp_condition sp))], fst (first_hello summary) \<noteq> []))"

definition evaluated_v16 :: "(bytes \<Rightarrow> string) \<Rightarrow> disk \<Rightarrow> string \<Rightarrow> ScenarioSpec \<Rightarrow> RunRecord \<Rightarrow> RunRecord result" where
  "evaluated_v16 sha256 d run_dir sp r =
     rbind (artifact_file r run_dir ''pcap'') (\<lambda>pcap.
     rbind (read_summary d pcap) (\<lambda>summary.
     rbind (v16_binary sp) (\<lambda>binary.
     rbind (v16_roles sp summary) (\<lambda>(roles, pre).
       Inr (r\<lparr>metrics := (observed_metrics summary (metrics r))\<lparr>client_precondition_verified := Some pre, downgrade_flagged := None\<rparr>,
         manipulation_verified := pre,
         provenance := [(''part'', JStr (v16_part_name (sp_fault_type sp))),
           (''client_hello_groups'', group_names (fst (first_hello summary))),
           (''client_hello_key_shares'', group_names (snd (first_hello summary))),
           (''server_cmd'', jstrs (sp_server_cmd sp)), (''client_cmd'', jstrs (sp_client_cmd sp)),
           (''binary_sha256'', jopt JStr (sha256_file sha256 d binary))] @ roles\<rparr>)))))"

definition evaluate_v16 :: "(bytes \<Rightarrow> string) \<Rightarrow> disk \<Rightarrow> string \<Rightarrow> ScenarioSpec \<Rightarrow> RunRecord \<Rightarrow> RunRecord prog" where
  "evaluate_v16 sha256 d run_dir sp r = seqp (lift_result (evaluated_v16 sha256 d run_dir sp r)) (store_record run_dir)"

subsection \<open>The runs\<close>

definition v16_step_run :: "(nat \<Rightarrow> run_env) \<Rightarrow> (nat \<Rightarrow> disk) \<Rightarrow> (bytes \<Rightarrow> string) \<Rightarrow> string \<Rightarrow> nat \<Rightarrow> ScenarioSpec \<Rightarrow> RunRecord prog" where
  "v16_step_run envs disks sha256 out_dir i sp = seqp (run_scenario (envs i) sp) (\<lambda>r. evaluate_v16 sha256 (disks i) out_dir sp r)"

text \<open>What \<open>run_v16\<close> and \<open>run_v16_direct\<close> do with their scenarios.\<close>

definition run_fresh :: "(nat \<Rightarrow> run_env) \<Rightarrow> (nat \<Rightarrow> disk) \<Rightarrow> (bytes \<Rightarrow> string) \<Rightarrow> string list \<Rightarrow> string \<Rightarrow> ScenarioSpec list result \<Rightarrow> RunRecord list prog" where
  "run_fresh envs disks sha256 listing out_dir specs =
     (if has_json listing then raise (RuntimeError (out_dir @ '' is not empty; choose a fresh --output-dir'')) else
      seqp (lift_result specs) (for_each (v16_step_run envs disks sha256 out_dir) 0))"

definition run_v16 :: "(nat \<Rightarrow> run_env) \<Rightarrow> (nat \<Rightarrow> disk) \<Rightarrow> (bytes \<Rightarrow> string) \<Rightarrow> environ \<Rightarrow> string list \<Rightarrow> nat \<Rightarrow> string \<Rightarrow> RunRecord list prog" where
  "run_v16 envs disks sha256 environ listing reps out_dir = run_fresh envs disks sha256 listing out_dir (v16_specs environ reps out_dir)"

definition run_v16_direct :: "(nat \<Rightarrow> run_env) \<Rightarrow> (nat \<Rightarrow> disk) \<Rightarrow> (bytes \<Rightarrow> string) \<Rightarrow> environ \<Rightarrow> string list \<Rightarrow> nat \<Rightarrow> string \<Rightarrow> RunRecord list prog" where
  "run_v16_direct envs disks sha256 environ listing reps out_dir = run_fresh envs disks sha256 listing out_dir (v16_direct_specs environ reps out_dir)"

subsection \<open>Report and preflight\<close>

text \<open>\<open>re.fullmatch(r"0x([0-9a-f])a\1a", g)\<close>.\<close>

definition is_hex :: "char \<Rightarrow> bool" where
  "is_hex c = (let n = of_char c :: nat in 48 \<le> n \<and> n \<le> 57 \<or> 97 \<le> n \<and> n \<le> 102)"

definition is_grease :: "string \<Rightarrow> bool" where
  "is_grease g = (case g of [z, x, d, a, d', a'] \<Rightarrow> z = CHR ''0'' \<and> x = CHR ''x'' \<and> is_hex d \<and> a = CHR ''a'' \<and> d' = d \<and> a' = CHR ''a'' | _ \<Rightarrow> False)"

definition grease :: "string list \<Rightarrow> string" where
  "grease groups = join '','' (map (\<lambda>g. if is_grease g then ''GREASE'' else g) groups)"

fun as_strs :: "json \<Rightarrow> string list result" where
  "as_strs (JList js) = rmap as_str js" | "as_strs _ = bad_type"

definition str_at :: "dict \<Rightarrow> string \<Rightarrow> string result" where "str_at p k = rbind (look (map_of p) k) as_str"
definition strs_at :: "dict \<Rightarrow> string \<Rightarrow> string list result" where "strs_at p k = rbind (look (map_of p) k) as_strs"

text \<open>Where a record is counted: in the survey, in one of the two tables of pairs, or nowhere.\<close>

datatype v16_cell = Survey "string \<times> string \<times> string" | Packaged "string \<times> string" | Direct "string \<times> string" | Elsewhere

definition v16_cell_of :: "RunRecord \<Rightarrow> v16_cell result" where
  "v16_cell_of r = (let p = provenance r in
     if map_of p ''part'' = Some (JStr ''client-survey'') then
       rbind (str_at p ''client'') (\<lambda>client. rbind (strs_at p ''client_hello_groups'') (\<lambda>gs. rbind (strs_at p ''client_hello_key_shares'') (\<lambda>ks.
         Inr (Survey (client, grease gs, grease ks)))))
     else if map_of p ''part'' = Some (JStr ''server-software'') then
       rbind (str_at p ''server'') (\<lambda>server. rbind (str_at p ''client'') (\<lambda>client. Inr (Packaged (server, client))))
     else if map_of p ''part'' = Some (JStr ''default-direct'') then
       rbind (str_at p ''server'') (\<lambda>server. rbind (str_at p ''client'') (\<lambda>client. Inr (Direct (server, client))))
     else Inr Elsewhere)"

record v16_row =
  v16_n :: nat
  v16_pre :: nat
  v16_hrr :: nat
  v16_hybrid :: nat
  v16_classical :: nat
  v16_other :: nat

definition v16_zero :: v16_row where
  "v16_zero = \<lparr>v16_n = 0, v16_pre = 0, v16_hrr = 0, v16_hybrid = 0, v16_classical = 0, v16_other = 0\<rparr>"

definition v16_count :: "RunRecord \<Rightarrow> v16_row \<Rightarrow> v16_row" where
  "v16_count r c = (let m = metrics r; final = final_negotiated_group m;
     c = c\<lparr>v16_n := v16_n c + 1, v16_pre := v16_pre c + of_bool (client_precondition_verified m = Some True),
       v16_hrr := v16_hrr c + of_bool (hrr_pcap_present m = Some True)\<rparr> in
     if final = Some ''X25519MLKEM768'' then c\<lparr>v16_hybrid := v16_hybrid c + 1\<rparr>
     else if final = Some ''X25519'' then c\<lparr>v16_classical := v16_classical c + 1\<rparr>
     else c\<lparr>v16_other := v16_other c + 1\<rparr>)"

definition pair_table :: "((string \<times> string) \<times> RunRecord) list \<Rightarrow> ((string \<times> string) \<times> v16_row) list" where
  "pair_table items = fold (\<lambda>i. dict_update (fst i) v16_zero (v16_count (snd i))) items []"

definition survey_table :: "(string \<times> string \<times> string) list \<Rightarrow> ((string \<times> string \<times> string) \<times> nat) list" where
  "survey_table keys = fold (\<lambda>k. dict_update k 0 Suc) keys []"

record v16_tables =
  tb_survey :: "((string \<times> string \<times> string) \<times> nat) list"
  tb_servers :: "((string \<times> string) \<times> v16_row) list"
  tb_direct :: "((string \<times> string) \<times> v16_row) list"

definition tables_v16 :: "run_dir \<Rightarrow> v16_tables result" where
  "tables_v16 files =
     rbind (load_records files) (\<lambda>rs. rbind (rmap v16_cell_of rs) (\<lambda>cells.
       Inr \<lparr>tb_survey = survey_table (List.map_filter (\<lambda>c. case c of Survey k \<Rightarrow> Some k | _ \<Rightarrow> None) cells),
         tb_servers = pair_table (List.map_filter (\<lambda>(c, r). case c of Packaged k \<Rightarrow> Some (k, r) | _ \<Rightarrow> None) (zip cells rs)),
         tb_direct = pair_table (List.map_filter (\<lambda>(c, r). case c of Direct k \<Rightarrow> Some (k, r) | _ \<Rightarrow> None) (zip cells rs))\<rparr>))"

definition dash_if_empty :: "string \<Rightarrow> string" where "dash_if_empty s = (if s = [] then ''-'' else s)"

definition pair_line :: "(string \<times> string) \<times> v16_row \<Rightarrow> string" where
  "pair_line = (\<lambda>((s, c), v). ''| '' @ s @ '' | '' @ c @ '' | '' @ dec (v16_pre v) @ ''/'' @ dec (v16_n v) @ '' | '' @ dec (v16_hrr v) @ '' | '' @
     dec (v16_hybrid v) @ '' | '' @ dec (v16_classical v) @ '' | '' @ dec (v16_other v) @ '' |'')"

definition render_v16 :: "run_dir \<Rightarrow> string result" where
  "render_v16 files = rbind (tables_v16 files) (\<lambda>t.
     Inr (join nl ([''| client (default config) | supported_groups (order) | key_share | runs |'', ''|---|---|---|---:|''] @
       map (\<lambda>((c, g, k), n). ''| '' @ c @ '' | '' @ dash_if_empty g @ '' | '' @ dash_if_empty k @ '' | '' @ dec n @ '' |'') (sort_key fst (tb_survey t)) @
       ['''', ''| server (default config) | client | precondition/n | HRR (PCAP) | hybrid | classical | other |'', ''|---|---|---|---:|---:|---:|---:|''] @
       map pair_line (sort_key fst (tb_servers t)) @
       ['''', ''| server (default config) | client (default config) | precondition/n | HRR (PCAP) | hybrid | classical | other |'',
         ''|---|---|---:|---:|---:|---:|---:|''] @
       map pair_line (sort_key fst (tb_direct t)))))"

definition missing_binary :: "(string \<Rightarrow> bool) \<Rightarrow> string list list \<Rightarrow> string option" where
  "missing_binary exists cmds = find (\<lambda>binary. CHR ''/'' \<in> set binary \<and> \<not> exists binary) (map hd cmds)"

definition preflight_v16 :: "environ \<Rightarrow> (string \<Rightarrow> bool) \<Rightarrow> (nat \<Rightarrow> bool) \<Rightarrow> bool \<times> string" where
  "preflight_v16 environ exists port_free =
     (case missing_binary exists (map snd DEFAULT_CLIENTS @ map snd (REAL_SERVERS environ) @ [SURVEY_SERVER]) of
        Some binary \<Rightarrow> (False, ''missing: '' @ binary)
      | None \<Rightarrow>
        (case find (\<lambda>p. \<not> exists p) [V16 @ ''/nginx.conf'', V16 @ ''/Caddyfile''] of Some p \<Rightarrow> (False, ''missing: '' @ p)
         | None \<Rightarrow> if \<not> port_free PORT then (False, ''port '' @ dec PORT @ '' in use'') else (True, ''ok'')))"

section \<open>Group labels\<close>

text \<open>The reserved code points of RFC 8701 among the supported groups.\<close>

definition GREASE_CODES :: "nat list" where "GREASE_CODES = map (\<lambda>k. 0x0A0A + 0x1010 * k) [0..<16]"

abbreviation label_of :: "nat \<Rightarrow> string" where "label_of c \<equiv> the (group_name (Some c))"

lemma label_of_cases:
  "label_of c = ''0x'' @ hex04 c \<or> c = 0x001D \<and> label_of c = ''X25519'' \<or> c = 0x11EC \<and> label_of c = ''X25519MLKEM768'' \<or>
   c = 0x6399 \<and> label_of c = ''X25519Kyber768Draft00''"
  by (auto simp: group_name_def GROUP_NAMES_def)

lemma is_grease_iff: "is_grease g \<longleftrightarrow> (\<exists>d. is_hex d \<and> g = [CHR ''0'', CHR ''x'', d, CHR ''a'', d, CHR ''a''])"
  by (auto simp: is_grease_def split: list.splits)

lemma is_hex_digit: "is_hex c \<longleftrightarrow> (\<exists>d < 16. c = digit_char d)"
proof
  assume "is_hex c"
  then have n: "48 \<le> (of_char c :: nat) \<and> (of_char c :: nat) \<le> 57 \<or> 97 \<le> (of_char c :: nat) \<and> (of_char c :: nat) \<le> 102"
    by (simp add: is_hex_def Let_def)
  have c: "c = char_of (of_char c :: nat)" by simp
  from n show "\<exists>d < 16. c = digit_char d"
  proof
    assume "48 \<le> (of_char c :: nat) \<and> (of_char c :: nat) \<le> 57"
    then show ?thesis using c by (intro exI [of _ "of_char c - 48"]) (auto simp: digit_char_def)
  next
    assume "97 \<le> (of_char c :: nat) \<and> (of_char c :: nat) \<le> 102"
    then show ?thesis using c by (intro exI [of _ "of_char c - 87"]) (auto simp: digit_char_def)
  qed
qed (auto simp: is_hex_def digit_char_def Let_def split: if_splits)

lemma hex04_grease:
  assumes "k < 16"
  shows "hex04 (0x0A0A + 0x1010 * k) = [digit_char k, CHR ''a'', digit_char k, CHR ''a''] \<and> GROUP_NAMES (0x0A0A + 0x1010 * k) = None"
proof -
  have "k = 0 \<or> k = 1 \<or> k = 2 \<or> k = 3 \<or> k = 4 \<or> k = 5 \<or> k = 6 \<or> k = 7 \<or> k = 8 \<or> k = 9 \<or> k = 10 \<or> k = 11 \<or> k = 12 \<or>
      k = 13 \<or> k = 14 \<or> k = 15" using assms by presburger
  moreover have "CHR ''0'' = char_of (48 :: nat)" "CHR ''a'' = char_of (97 :: nat)" by code_simp+
  ultimately show ?thesis
    by (elim disjE) (simp_all add: hex04_def hexs_def base_digits.simps zfill_def digit_char_def GROUP_NAMES_def)
qed

lemma grease_label: "is_grease (label_of c) \<longleftrightarrow> c \<in> set GREASE_CODES"
proof
  assume "c \<in> set GREASE_CODES"
  then obtain k where k: "k < 16" "c = 0x0A0A + 0x1010 * k" by (auto simp: GREASE_CODES_def)
  have "label_of c = [CHR ''0'', CHR ''x'', digit_char k, CHR ''a'', digit_char k, CHR ''a'']"
    using hex04_grease [OF k(1)] unfolding k(2) group_name_def by simp
  then show "is_grease (label_of c)" unfolding is_grease_iff using is_hex_digit k(1) by blast
next
  assume g: "is_grease (label_of c)"
  then obtain d where d: "d < 16" "label_of c = [CHR ''0'', CHR ''x'', digit_char d, CHR ''a'', digit_char d, CHR ''a'']"
    unfolding is_grease_iff is_hex_digit by blast
  have "label_of c = ''0x'' @ hex04 c" using label_of_cases [of c] d(2) by auto
  then have "hex04 c = hex04 (0x0A0A + 0x1010 * d)" using d hex04_grease [OF d(1)] by simp
  then show "c \<in> set GREASE_CODES" using d(1) by (simp add: GREASE_CODES_def)
qed

lemma label_of_inj [simp]: "label_of c = label_of c' \<longleftrightarrow> c = c'"
proof
  assume "label_of c = label_of c'"
  then show "c = c'" using label_of_cases [of c] label_of_cases [of c'] by (elim disjE conjE) auto
qed simp

lemma label_of_plain: "CHR '','' \<notin> set (label_of c)" "label_of c \<noteq> []" "label_of c \<noteq> ''GREASE''"
proof -
  have "CHR '','' \<notin> set (hex04 c)" using hex04_chars [of "CHR '',''" c] by auto
  then show "CHR '','' \<notin> set (label_of c)" "label_of c \<noteq> []" "label_of c \<noteq> ''GREASE''"
    using label_of_cases [of c] by (elim disjE conjE; simp)+
qed

definition folded :: "nat \<Rightarrow> string" where "folded c = (if c \<in> set GREASE_CODES then ''GREASE'' else label_of c)"

lemma join_inj:
  assumes "\<forall>x \<in> set xs \<union> set ys. c \<notin> set x \<and> x \<noteq> []" "join [c] xs = join [c] ys"
  shows "xs = ys"
proof (cases "xs = [] \<or> ys = []")
  case True
  then have "xs = [] \<or> xs = [[]]" "ys = [] \<or> ys = [[]]" using assms(2) join_eq_Nil [of c xs] join_eq_Nil [of c ys] by auto
  then show ?thesis using assms(1) by auto
next
  case False
  then have "split_char c (join [c] xs) = xs" "split_char c (join [c] ys) = ys" using assms(1) by (intro split_char_join; blast)+
  then show ?thesis unfolding assms(2) by (rule trans [OF sym])
qed

text \<open>
  C34. The label under which the survey counts a list of groups says exactly which groups they are, up to
  the code points of GREASE: two lists of supported groups (or key shares) have the same label if and
  only if they have the same length and agree at every position where not both have one of the
  sixteen reserved code points. So the random values that a client draws for each connection do not
  split its row, and no other difference is lost, whatever the order or the number of groups.
\<close>

theorem grease_label_exact:
  "grease (map label_of gs) = grease (map label_of gs') \<longleftrightarrow>
     list_all2 (\<lambda>c c'. c = c' \<or> c \<in> set GREASE_CODES \<and> c' \<in> set GREASE_CODES) gs gs'"
proof -
  have g: "grease (map label_of hs) = join '','' (map folded hs)" for hs
    unfolding grease_def map_map by (intro arg_cong [where f = "join '',''"] map_cong) (simp_all add: grease_label folded_def)
  have plain: "CHR '','' \<notin> set (folded c) \<and> folded c \<noteq> []" for c using label_of_plain [of c] by (simp add: folded_def)
  have "join '','' (map folded gs) = join '','' (map folded gs') \<longleftrightarrow> map folded gs = map folded gs'"
  proof
    assume e: "join '','' (map folded gs) = join '','' (map folded gs')"
    show "map folded gs = map folded gs'" by (rule join_inj [OF _ e]) (use plain in auto)
  qed simp
  also have "\<dots> \<longleftrightarrow> list_all2 (\<lambda>c c'. folded c = folded c') gs gs'"
    by (simp add: list.rel_eq [symmetric] list.rel_map)
  also have "(\<lambda>c c'. folded c = folded c') = (\<lambda>c c'. c = c' \<or> c \<in> set GREASE_CODES \<and> c' \<in> set GREASE_CODES)"
    by (intro ext) (auto simp: folded_def label_of_plain(3) label_of_plain(3) [symmetric])
  finally show ?thesis unfolding g .
qed

section \<open>The scenarios of a direct run\<close>

lemma split_direct_append: "\<not> contains ''--'' (a @ ''-'') \<Longrightarrow> split_direct (a @ ''--'' @ b) = Inr (a, b)"
  using split_first_append [of "''--''" a b] by (simp add: split_direct_def)

lemma real_server_plain: "look (map_of (REAL_SERVERS environ)) server = Inr cmd \<Longrightarrow> \<not> contains ''--'' (server @ ''-'') \<and> cmd \<noteq> []"
  by (auto simp: look_def REAL_SERVERS_def split: option.splits if_splits)

lemma default_client_cmd: "look (map_of DEFAULT_CLIENTS) client = Inr cmd \<Longrightarrow> cmd \<noteq> []"
  by (auto simp: look_def DEFAULT_CLIENTS_def split: option.splits if_splits)

lemma direct_spec_fields:
  assumes "direct_spec environ server client rep out_dir = Inr sp"
  shows "sp_impl sp = ''openssl''" "sp_fault_type sp = ''default-direct''" "sp_repetition sp = rep"
    "sp_condition sp = server @ ''--'' @ client" "sp_out_dir sp = out_dir" "sp_capture_traffic sp" "sp_proxy_mutate sp = None"
    "server_port_of sp = PORT" "split_direct (sp_condition sp) = Inr (server, client)" "sp_client_cmd sp \<noteq> []"
proof -
  obtain ce scmd ccmd where l: "look (map_of (REAL_SERVERS environ)) server = Inr scmd" "look (map_of DEFAULT_CLIENTS) client = Inr ccmd"
    and sp: "sp = (new_spec ''openssl'' ''default-direct'' rep (server @ ''--'' @ client) scmd ccmd PORT ce out_dir)
      \<lparr>sp_capture_traffic := True, sp_server_env := Some (clean_env environ), sp_capture_seconds := caddy_seconds server\<rparr>"
    using assms unfolding direct_spec_def by (auto simp: res_simps)
  show "sp_impl sp = ''openssl''" "sp_fault_type sp = ''default-direct''" "sp_repetition sp = rep"
    and c: "sp_condition sp = server @ ''--'' @ client" and "sp_out_dir sp = out_dir" "sp_capture_traffic sp" "sp_proxy_mutate sp = None"
      "server_port_of sp = PORT"
    by (simp_all add: sp new_spec_def or_default_def)
  show "split_direct (sp_condition sp) = Inr (server, client)"
    unfolding c by (rule split_direct_append) (use real_server_plain [OF l(1)] in blast)
  show "sp_client_cmd sp \<noteq> []" using default_client_cmd [OF l(2)] by (simp add: sp new_spec_def)
qed

abbreviation direct_cells :: "environ \<Rightarrow> (string \<times> string) list" where
  "direct_cells environ \<equiv> List.product (map fst (REAL_SERVERS environ)) (map fst DEFAULT_CLIENTS)"

lemma v16_direct_specs_list:
  assumes "v16_direct_specs environ n out_dir = Inr specs"
  shows "list_all2 (\<lambda>(rep, server, client) sp. direct_spec environ server client rep out_dir = Inr sp)
    (List.product [1..<n + 1] (direct_cells environ)) specs"
  by (rule rconcat_map_product [OF assms [unfolded v16_direct_specs_def]],
      rule rconcat_map_product [where P = "\<lambda>s c sp. direct_spec environ s c _ out_dir = Inr sp"], assumption)
    (simp add: rmap_Inr_iff)

lemma direct_cells_distinct: "distinct (direct_cells environ)"
  by (rule distinct_product) (simp_all add: REAL_SERVERS_def DEFAULT_CLIENTS_def)

text \<open>The condition of a pair determines the pair.\<close>

abbreviation direct_condition :: "string \<times> string \<Rightarrow> string" where
  "direct_condition k \<equiv> fst k @ ''--'' @ snd k"

lemma direct_condition_inj: "inj_on direct_condition (set (direct_cells environ))"
proof (rule inj_onI)
  fix x y assume m: "x \<in> set (direct_cells environ)" "y \<in> set (direct_cells environ)" and e: "direct_condition x = direct_condition y"
  have plain: "\<not> contains ''--'' (fst z @ ''-'')" if "z \<in> set (direct_cells environ)" for z
    using that by (auto simp: REAL_SERVERS_def)
  have "split_direct (direct_condition x) = Inr x" "split_direct (direct_condition y) = Inr y"
    using split_direct_append [OF plain [OF m(1)]] split_direct_append [OF plain [OF m(2)]] by simp_all
  then show "x = y" unfolding e by (simp only: sum.inject)
qed

lemma v16_direct_distinct:
  assumes "v16_direct_specs environ n out_dir = Inr specs"
  shows "distinct (map identifier_of specs)"
proof (rule product_identifiers_distinct [where cond = direct_condition])
  show "list_all2 (\<lambda>t sp. identifier_of sp = run_id ''openssl'' ''default-direct'' (fst t) (direct_condition (snd t)))
      (List.product [1..<n + 1] (direct_cells environ)) specs"
    by (rule list_all2_mono [OF v16_direct_specs_list [OF assms]]) (auto simp: direct_spec_fields)
  show "distinct (direct_cells environ)" by (rule direct_cells_distinct)
  show "inj_on direct_condition (set (direct_cells environ))" by (rule direct_condition_inj)
qed simp_all

section \<open>A run\<close>

lemma evaluated_v16_fields:
  assumes "evaluated_v16 sha256 d dir sp r = Inr r'"
  shows "rec_run_id r' = rec_run_id r" "fault_type r' = fault_type r" "repetition r' = repetition r" "rec_condition r' = rec_condition r"
    "map_of (provenance r') ''part'' = Some (JStr (v16_part_name (sp_fault_type sp)))"
  using assms unfolding evaluated_v16_def by (auto simp: res_simps)

lemma evaluate_v16_result:
  assumes "evaluate_v16 sha256 d dir sp r w = Some (y, w')"
  shows "case y of Inl e \<Rightarrow> docs w' = docs w
    | Inr r' \<Rightarrow> evaluated_v16 sha256 d dir sp r = Inr r' \<and> rec_run_id r' = rec_run_id r \<and>
        docs w' = (docs w)(doc_path dir (rec_run_id r) \<mapsto> asdict_record r')"
  by (rule evaluation_result [OF assms [unfolded evaluate_v16_def]]) (rule evaluated_v16_fields(1))

lemma evaluate_v16_stores:
  assumes "evaluate_v16 sha256 d dir sp r w = Some (y, w')"
  shows "case y of Inl e \<Rightarrow> docs w' = docs w
    | Inr r' \<Rightarrow> rec_run_id r' = rec_run_id r \<and> docs w' = (docs w)(doc_path dir (rec_run_id r) \<mapsto> asdict_record r')"
  using evaluate_v16_result [OF assms] by (cases y) auto

interpretation v16run: driver "v16_step_run envs disks sha256 out_dir" out_dir
  for envs disks sha256 out_dir
  unfolding v16_step_run_def by (rule evaluating_driver) (rule evaluate_v16_stores)

lemma run_fresh_Inr:
  assumes "run_fresh envs disks sha256 listing out_dir specs w = Some (Inr rs, w')"
  obtains sps where "specs = Inr sps" "for_each (v16_step_run envs disks sha256 out_dir) 0 sps w = Some (Inr rs, w')"
  using assms by (cases specs) (auto simp: run_fresh_def raise_def split: if_splits)

lemma evaluated_direct:
  assumes "evaluated_v16 sha256 d dir sp r = Inr r'" "sp_fault_type sp = ''default-direct''" "split_direct (sp_condition sp) = Inr (server, client)"
  shows "v16_cell_of r' = Inr (Direct (server, client))"
proof -
  obtain summary pcap binary where "provenance r' = [(''part'', JStr ''default-direct''), (''client_hello_groups'', group_names (fst (first_hello summary))),
      (''client_hello_key_shares'', group_names (snd (first_hello summary))), (''server_cmd'', jstrs (sp_server_cmd sp)),
      (''client_cmd'', jstrs (sp_client_cmd sp)), (''binary_sha256'', jopt JStr (sha256_file sha256 d binary)),
      (''server'', JStr server), (''client'', JStr client)]"
    using assms unfolding evaluated_v16_def by (auto simp: res_simps v16_roles_def v16_part_name_def)
  then show ?thesis by (simp add: v16_cell_of_def str_at_def look_def Let_def)
qed

lemma direct_step_record:
  assumes "v16_step_run envs disks sha256 out_dir i sp w = Some (Inr r, w')" "direct_spec environ server client rep out_dir = Inr sp"
  shows "repetition r = rep" "rec_condition r = direct_condition (server, client)" "v16_cell_of r = Inr (Direct (server, client))"
proof -
  obtain r0 w1 where r0: "run_scenario (envs i) sp w = Some (Inr r0, w1)" "evaluate_v16 sha256 (disks i) out_dir sp r0 w1 = Some (Inr r, w')"
    using assms(1) by (auto simp: v16_step_run_def seqp_Inr)
  have ev: "evaluated_v16 sha256 (disks i) out_dir sp r0 = Inr r" using evaluate_v16_result [OF r0(2)] by simp
  have sc: "scenario_record sp r0" using run_scenario_result [OF r0(1)] by simp
  show "repetition r = rep" "rec_condition r = direct_condition (server, client)"
    using evaluated_v16_fields [OF ev] sc direct_spec_fields(3,4) [OF assms(2)] by (simp_all add: scenario_record_def)
  show "v16_cell_of r = Inr (Direct (server, client))"
    by (rule evaluated_direct [OF ev direct_spec_fields(2,9) [OF assms(2)]])
qed

lemma map_product_cells: "map (\<lambda>t. (fst t, f (snd t))) (List.product xs ys) = List.product xs (map f ys)"
  by (induction xs) (simp_all add: comp_def)

lemma run_v16_direct_records:
  assumes "run_v16_direct envs disks sha256 environ listing n out_dir w = Some (Inr rs, w')"
  shows "map (\<lambda>r. (repetition r, rec_condition r)) rs = List.product [1..<n + 1] (map direct_condition (direct_cells environ))"
    "\<forall>r \<in> set rs. \<exists>k \<in> set (direct_cells environ). rec_condition r = direct_condition k \<and> v16_cell_of r = Inr (Direct k)"
    "\<forall>r \<in> set rs. docs w' (doc_path out_dir (rec_run_id r)) = Some (asdict_record r)"
proof -
  obtain specs where sp: "v16_direct_specs environ n out_dir = Inr specs"
    "for_each (v16_step_run envs disks sha256 out_dir) 0 specs w = Some (Inr rs, w')"
    by (rule run_fresh_Inr [OF assms [unfolded run_v16_direct_def]])
  let ?Q = "\<lambda>(rep, s, c) r. repetition r = rep \<and> rec_condition r = direct_condition (s, c) \<and> v16_cell_of r = Inr (Direct (s, c))"
  let ?S = "\<lambda>(rep, s, c) sp. direct_spec environ s c rep out_dir = Inr sp"
  have step: "list_all2 (\<lambda>sp r. \<forall>t. ?S t sp \<longrightarrow> ?Q t r) specs rs"
    by (rule for_each_list_all2 [OF sp(2)]) (use direct_step_record in \<open>fastforce split: prod.splits\<close>)
  have Q: "list_all2 ?Q (List.product [1..<n + 1] (direct_cells environ)) rs"
    by (rule list_all2_trans [OF _ v16_direct_specs_list [OF sp(1)] step]) blast
  have "map (\<lambda>r. (repetition r, rec_condition r)) rs = map (\<lambda>t. (fst t, direct_condition (snd t))) (List.product [1..<n + 1] (direct_cells environ))"
    by (rule list_all2_map_eq [OF Q]) auto
  also have "\<dots> = List.product [1..<n + 1] (map direct_condition (direct_cells environ))"
    by (rule map_product_cells)
  finally show "map (\<lambda>r. (repetition r, rec_condition r)) rs = List.product [1..<n + 1] (map direct_condition (direct_cells environ))" .
  show "\<forall>r \<in> set rs. \<exists>k \<in> set (direct_cells environ). rec_condition r = direct_condition k \<and> v16_cell_of r = Inr (Direct k)"
  proof
    fix r assume "r \<in> set rs"
    from list_all2_in2 [OF Q this] obtain rep s c where t: "(rep, s, c) \<in> set (List.product [1..<n + 1] (direct_cells environ))"
      "rec_condition r = direct_condition (s, c)" "v16_cell_of r = Inr (Direct (s, c))" by auto
    from t(1) have "(s, c) \<in> set (direct_cells environ)" by auto
    with t(2,3) show "\<exists>k \<in> set (direct_cells environ). rec_condition r = direct_condition k \<and> v16_cell_of r = Inr (Direct k)" by blast
  qed
  have "\<forall>s \<in> set specs. sp_out_dir s = out_dir"
  proof
    fix s assume "s \<in> set specs"
    from list_all2_in2 [OF v16_direct_specs_list [OF sp(1)] this] show "sp_out_dir s = out_dir" using direct_spec_fields(5) by fastforce
  qed
  from v16run.records_stored [OF sp(2) this v16_direct_distinct [OF sp(1)]]
  show "\<forall>r \<in> set rs. docs w' (doc_path out_dir (rec_run_id r)) = Some (asdict_record r)" by blast
qed

section \<open>The tables\<close>

lemma load_records_stored:
  assumes "mset files = mset (map stored rs)"
  shows "\<exists>rs'. load_records files = Inr rs' \<and> mset rs' = mset rs"
proof -
  obtain items where i: "rmap (\<lambda>f. rbind (from_json (snd f)) (\<lambda>r. Inr (Some r))) (sort_key fst files) = Inr (map Some items)" "mset items = mset rs"
    using items_stored [OF assms, of "\<lambda>doc. rbind (from_json doc) (\<lambda>r. Inr (Some r))" "\<lambda>r. r"] by auto
  have "rmap (\<lambda>f. from_json (snd f)) fs = Inr xs" if "rmap (\<lambda>f. rbind (from_json (snd f)) (\<lambda>r. Inr (Some r))) fs = Inr (map Some xs)" for fs :: run_dir and xs
    using that by (induction fs arbitrary: xs) (auto simp: res_simps Cons_eq_map_conv)
  then have "load_records files = Inr items" using i(1) by (simp add: load_records_def)
  then show ?thesis using i(2) by blast
qed

interpretation pairs16: tally pair_table fst v16_zero "\<lambda>i. v16_count (snd i)"
  by unfold_locales (simp add: pair_table_def)

definition v16_row_of :: "RunRecord list \<Rightarrow> v16_row" where
  "v16_row_of rs = \<lparr>v16_n = length rs,
     v16_pre = count_if (\<lambda>r. client_precondition_verified (metrics r) = Some True) rs,
     v16_hrr = count_if (\<lambda>r. hrr_pcap_present (metrics r) = Some True) rs,
     v16_hybrid = count_if (\<lambda>r. final_negotiated_group (metrics r) = Some ''X25519MLKEM768'') rs,
     v16_classical = count_if (\<lambda>r. final_negotiated_group (metrics r) = Some ''X25519'') rs,
     v16_other = count_if (\<lambda>r. final_negotiated_group (metrics r) \<noteq> Some ''X25519MLKEM768'' \<and> final_negotiated_group (metrics r) \<noteq> Some ''X25519'') rs\<rparr>"

lemma v16_count_row: "v16_count r (v16_row_of rs) = v16_row_of (rs @ [r])"
  by (auto simp: v16_count_def v16_row_of_def Let_def count_if_def)

lemma v16_fold: "fold (\<lambda>i. v16_count (snd i)) items (v16_row_of rs) = v16_row_of (rs @ map snd items)"
  by (induction items arbitrary: rs) (simp_all add: v16_count_row)

lemma count_if_mset: "mset xs = mset ys \<Longrightarrow> count_if P xs = count_if P ys"
proof -
  assume "mset xs = mset ys"
  from arg_cong [OF this, of "\<lambda>m. size (filter_mset P m)"] show ?thesis by (simp add: count_if_def flip: mset_filter)
qed

lemma v16_row_of_mset: "mset xs = mset ys \<Longrightarrow> v16_row_of xs = v16_row_of ys"
proof -
  assume m: "mset xs = mset ys"
  show ?thesis unfolding v16_row_of_def count_if_mset [OF m] mset_eq_length [OF m] ..
qed

lemma v16_row_sum: "v16_hybrid (v16_row_of rs) + v16_classical (v16_row_of rs) + v16_other (v16_row_of rs) = v16_n (v16_row_of rs)"
  by (induction rs) (auto simp: v16_row_of_def)

lemma pair_table_rows:
  "(k, row) \<in> set (pair_table items) \<longleftrightarrow> k \<in> fst ` set items \<and> row = v16_row_of (map snd (filter (\<lambda>i. fst i = k) items))"
proof -
  have "v16_zero = v16_row_of []" by (simp add: v16_zero_def v16_row_of_def)
  then have "fold (\<lambda>i. v16_count (snd i)) (filter (\<lambda>i. fst i = k) items) v16_zero = v16_row_of (map snd (filter (\<lambda>i. fst i = k) items))"
    using v16_fold [of "filter (\<lambda>i. fst i = k) items" "[]"] by simp
  then show ?thesis unfolding pairs16.summary_rows by simp
qed

text \<open>The tables of a directory that holds the files of a direct run.\<close>

lemma direct_tables:
  assumes "mset files = mset (map stored rs)"
    and "\<forall>r \<in> set rs. \<exists>k \<in> K. rec_condition r = direct_condition k \<and> v16_cell_of r = Inr (Direct k)" "inj_on direct_condition K"
  shows "\<exists>items. tables_v16 files = Inr \<lparr>tb_survey = [], tb_servers = [], tb_direct = pair_table items\<rparr> \<and>
    mset (map snd items) = mset rs \<and> (\<forall>i \<in> set items. fst i \<in> K \<and> rec_condition (snd i) = direct_condition (fst i))"
proof -
  obtain rs' where l: "load_records files = Inr rs'" "mset rs' = mset rs" using load_records_stored [OF assms(1)] by blast
  have k: "\<forall>r \<in> set rs'. \<exists>k \<in> K. rec_condition r = direct_condition k \<and> v16_cell_of r = Inr (Direct k)"
    using assms(2) mset_eq_setD [OF l(2)] by simp
  then obtain key where key: "\<forall>r \<in> set rs'. key r \<in> K \<and> rec_condition r = direct_condition (key r) \<and> v16_cell_of r = Inr (Direct (key r))"
    by metis
  have cells: "rmap v16_cell_of rs' = Inr (map (\<lambda>r. Direct (key r)) rs')"
    by (rule rmap_Inr_map) (use key in blast)
  have z: "zip (map (\<lambda>r. Direct (key r)) xs) xs = map (\<lambda>r. (Direct (key r), r)) xs" for xs by (induction xs) simp_all
  have none: "List.map_filter (\<lambda>c. case c of Survey k \<Rightarrow> Some k | _ \<Rightarrow> None) (map (\<lambda>r. Direct (key r)) xs) = []"
    "List.map_filter (\<lambda>(c, r). case c of Packaged k \<Rightarrow> Some (k, r) | _ \<Rightarrow> None) (map (\<lambda>r. (Direct (key r), r)) xs) = []"
    "List.map_filter (\<lambda>(c, r). case c of Direct k \<Rightarrow> Some (k, r) | _ \<Rightarrow> None) (map (\<lambda>r. (Direct (key r), r)) xs) = map (\<lambda>r. (key r, r)) xs"
    for xs :: "RunRecord list" by (induction xs) (simp_all add: List.map_filter_simps)
  have "tables_v16 files = Inr \<lparr>tb_survey = [], tb_servers = [], tb_direct = pair_table (map (\<lambda>r. (key r, r)) rs')\<rparr>"
    unfolding tables_v16_def l(1) cells rbind_simps z none by (simp add: survey_table_def pair_table_def)
  moreover have "mset (map snd (map (\<lambda>r. (key r, r)) rs')) = mset rs" by (simp add: comp_def l(2))
  moreover have "\<forall>i \<in> set (map (\<lambda>r. (key r, r)) rs'). fst i \<in> K \<and> rec_condition (snd i) = direct_condition (fst i)" using key by auto
  ultimately show ?thesis by blast
qed

text \<open>The pairs and the rows of the items of a direct run.\<close>

lemma direct_items_keys:
  assumes "map (\<lambda>r. (repetition r, rec_condition r)) rs = List.product [1..<n + 1] (map direct_condition (direct_cells environ))" "0 < n"
    and "mset (map snd items) = mset rs"
    and "\<forall>i \<in> set items. fst i \<in> set (direct_cells environ) \<and> rec_condition (snd i) = direct_condition (fst i)"
  shows "fst ` set items = set (direct_cells environ)"
proof -
  let ?K = "set (direct_cells environ)"
  have "rec_condition ` set rs = snd ` set (map (\<lambda>r. (repetition r, rec_condition r)) rs)" by (simp add: image_image)
  also have "\<dots> = set (map direct_condition (direct_cells environ))" unfolding assms(1) using assms(2) by force
  finally have conds: "rec_condition ` set rs = direct_condition ` ?K" by simp
  have "direct_condition ` fst ` set items = rec_condition ` snd ` set items" unfolding image_image by (rule image_cong) (use assms(4) in auto)
  also have "snd ` set items = set rs" using mset_eq_setD [OF assms(3)] by simp
  finally have "direct_condition ` fst ` set items = direct_condition ` ?K" unfolding conds .
  moreover have "fst ` set items \<subseteq> ?K" by (rule image_subsetI) (use assms(4) in blast)
  ultimately show ?thesis using inj_on_image_eq_iff [OF direct_condition_inj _ subset_refl] by blast
qed

lemma direct_items_row:
  assumes "map (\<lambda>r. (repetition r, rec_condition r)) rs = List.product [1..<n + 1] (map direct_condition (direct_cells environ))"
    and "mset (map snd items) = mset rs"
    and "\<forall>i \<in> set items. fst i \<in> set (direct_cells environ) \<and> rec_condition (snd i) = direct_condition (fst i)"
    and "k \<in> set (direct_cells environ)" "row = v16_row_of (map snd (filter (\<lambda>i. fst i = k) items))"
  shows "row = v16_row_of (filter (\<lambda>r. rec_condition r = direct_condition k) rs) \<and> v16_n row = n"
proof
  let ?P = "\<lambda>r. rec_condition r = direct_condition k"
  have "filter (\<lambda>i. fst i = k) items = filter (\<lambda>i. ?P (snd i)) items"
  proof (rule filter_cong [OF refl])
    fix i assume "i \<in> set items"
    then have i: "fst i \<in> set (direct_cells environ)" "rec_condition (snd i) = direct_condition (fst i)" using assms(3) by blast+
    show "fst i = k \<longleftrightarrow> ?P (snd i)"
      unfolding i(2) using inj_on_eq_iff [OF direct_condition_inj i(1) assms(4)] by (rule sym)
  qed
  then have "map snd (filter (\<lambda>i. fst i = k) items) = filter ?P (map snd items)" by (simp add: filter_map comp_def)
  moreover have "mset (filter ?P (map snd items)) = mset (filter ?P rs)" using assms(2) by (simp only: mset_filter)
  ultimately show r: "row = v16_row_of (filter ?P rs)" using assms(5) v16_row_of_mset by metis
  have "distinct (map direct_condition (direct_cells environ))"
    using direct_cells_distinct direct_condition_inj by (simp only: distinct_map)
  from filter_cells [OF assms(1) this] have "map repetition (filter ?P rs) = [1..<n + 1]"
    using assms(4) by (simp only: set_map image_eqI)
  from arg_cong [OF this, of length] show "v16_n row = n" by (simp add: r v16_row_of_def)
qed

text \<open>
  C33. From a direct run to its table. Take a run of the default clients against the default servers that
  returns its records, and the directory that holds their files, in any order. Each record is stored
  under its identifier; the report of that directory has nothing in the survey and in the table of the
  fixed clients, and in the direct table one row for every server with every client: the row counts
  exactly the runs whose condition is the server, two hyphens and the client, all their repetitions,
  of which the hybrid, the classical and the other ones add up to the whole. The pair is found again
  although the names of clients contain hyphens.
\<close>

theorem run_v16_direct_table:
  assumes "run_v16_direct envs disks sha256 environ listing n out_dir w = Some (Inr rs, w')" "0 < n"
    and "mset files = mset (map stored rs)"
  shows "(\<forall>r \<in> set rs. docs w' (doc_path out_dir (rec_run_id r)) = Some (asdict_record r)) \<and>
    (\<exists>t. tables_v16 files = Inr t \<and> tb_survey t = [] \<and> tb_servers t = [] \<and> distinct (map fst (tb_direct t)) \<and>
       fst ` set (tb_direct t) = {''nginx'', ''caddy''} \<times> set (map fst DEFAULT_CLIENTS) \<and>
       (\<forall>(k, row) \<in> set (tb_direct t). row = v16_row_of (filter (\<lambda>r. rec_condition r = direct_condition k) rs) \<and> v16_n row = n \<and>
          v16_hybrid row + v16_classical row + v16_other row = n))"
proof
  note recs = run_v16_direct_records [OF assms(1)]
  show "\<forall>r \<in> set rs. docs w' (doc_path out_dir (rec_run_id r)) = Some (asdict_record r)" by (rule recs(3))
  let ?K = "set (direct_cells environ)"
  obtain items where it: "tables_v16 files = Inr \<lparr>tb_survey = [], tb_servers = [], tb_direct = pair_table items\<rparr>"
    "mset (map snd items) = mset rs" "\<forall>i \<in> set items. fst i \<in> ?K \<and> rec_condition (snd i) = direct_condition (fst i)"
    using direct_tables [OF assms(3) recs(2) direct_condition_inj] by blast
  have keys: "fst ` set items = ?K" by (rule direct_items_keys [OF recs(1) assms(2) it(2,3)])
  have rows: "row = v16_row_of (filter (\<lambda>r. rec_condition r = direct_condition k) rs) \<and> v16_n row = n \<and>
      v16_hybrid row + v16_classical row + v16_other row = n" if "(k, row) \<in> set (pair_table items)" for k row
    using direct_items_row [OF recs(1) it(2,3), of k row] that v16_row_sum unfolding pair_table_rows keys by metis
  have "?K = {''nginx'', ''caddy''} \<times> set (map fst DEFAULT_CLIENTS)"
    unfolding set_product by (simp add: REAL_SERVERS_def)
  then have "fst ` set (pair_table items) = {''nginx'', ''caddy''} \<times> set (map fst DEFAULT_CLIENTS)"
    unfolding pairs16.summary_keys keys .
  moreover have "distinct (map fst (pair_table items))" by (rule pairs16.summary_distinct)
  moreover have "\<forall>(k, row) \<in> set (pair_table items). row = v16_row_of (filter (\<lambda>r. rec_condition r = direct_condition k) rs) \<and> v16_n row = n \<and>
      v16_hybrid row + v16_classical row + v16_other row = n"
    using rows by blast
  ultimately show "\<exists>t. tables_v16 files = Inr t \<and> tb_survey t = [] \<and> tb_servers t = [] \<and> distinct (map fst (tb_direct t)) \<and>
       fst ` set (tb_direct t) = {''nginx'', ''caddy''} \<times> set (map fst DEFAULT_CLIENTS) \<and>
       (\<forall>(k, row) \<in> set (tb_direct t). row = v16_row_of (filter (\<lambda>r. rec_condition r = direct_condition k) rs) \<and> v16_n row = n \<and>
          v16_hybrid row + v16_classical row + v16_other row = n)"
    using it(1) by (intro exI [of _ "\<lparr>tb_survey = [], tb_servers = [], tb_direct = pair_table items\<rparr>"] conjI) (simp_all only: v16_tables.select_convs)
qed

section \<open>Runs return\<close>

lemma evaluated_v16_returns:
  assumes "artifacts r = scenario_artifacts sp0 cap" "sp_fault_type sp = ''default-direct''"
    and "split_direct (sp_condition sp) = Inr vs" "sp_client_cmd sp \<noteq> []"
  shows "\<exists>r'. evaluated_v16 sha256 d dir sp r = Inr r'"
proof -
  obtain p where p: "artifact_file r dir ''pcap'' = Inr p" using artifact_file_returns [OF assms(1)] by blast
  have "\<exists>s. read_summary d p = Inr s" using summarize_hellos_concat by (auto simp: read_summary_def split: option.splits)
  then obtain s where "read_summary d p = Inr s" ..
  moreover have "\<exists>b. v16_binary sp = Inr b" using assms(2,4) by (auto simp: v16_binary_def command_binary_def split: list.splits)
  moreover have "\<exists>x. v16_roles sp s = Inr x" using assms(2,3) by (cases vs) (simp add: v16_roles_def)
  ultimately show ?thesis using p unfolding evaluated_v16_def by auto
qed

lemma direct_spec_returns:
  assumes "server \<in> fst ` set (REAL_SERVERS environ)" "client \<in> fst ` set DEFAULT_CLIENTS"
  shows "\<exists>sp. direct_spec environ server client rep out_dir = Inr sp"
proof -
  have "\<exists>e. default_client_env environ client = Inr e"
    using native_environment_returns [of "''3.5.5''" environ] by (auto simp: default_client_env_def PREFIX_def)
  moreover have "\<exists>c. look (map_of (REAL_SERVERS environ)) server = Inr c" using assms(1) by (auto simp: look_def REAL_SERVERS_def)
  moreover have "\<exists>c. look (map_of DEFAULT_CLIENTS) client = Inr c" using assms(2) by (auto simp: look_def DEFAULT_CLIENTS_def)
  ultimately show ?thesis by (auto simp: direct_spec_def)
qed

lemma run_v16_direct_completes:
  assumes "\<not> has_json listing" "\<forall>i. bench_works (envs i) PORT"
  shows "\<exists>rs w'. run_v16_direct envs disks sha256 environ listing n out_dir w = Some (Inr rs, w')"
proof -
  have "\<exists>specs. v16_direct_specs environ n out_dir = Inr specs"
    unfolding v16_direct_specs_def by (intro rconcat_map_returns rmap_returns direct_spec_returns) simp_all
  then obtain specs where specs: "v16_direct_specs environ n out_dir = Inr specs" ..
  have step: "\<exists>r w'. v16_step_run envs disks sha256 out_dir i sp w = Some (Inr r, w')" if mem: "sp \<in> set specs" for i sp w
  proof -
    obtain rep s c where sp: "direct_spec environ s c rep out_dir = Inr sp"
      using list_all2_in2 [OF v16_direct_specs_list [OF specs] mem] by auto
    have "good_bench (envs i) sp" by (rule good_benchI) (use assms(2) direct_spec_fields(7,8) [OF sp] in simp_all)
    moreover have "GROUP_RE (sp_impl sp) \<noteq> None" by (simp add: direct_spec_fields(1) [OF sp] GROUP_RE_def)
    ultimately obtain r w1 where r: "run_scenario (envs i) sp w = Some (Inr r, w1)" "artifacts r = scenario_artifacts sp (sp_capture_traffic sp)"
      using run_scenario_returns by blast
    obtain r' where "evaluated_v16 sha256 (disks i) out_dir sp r = Inr r'"
      using evaluated_v16_returns [OF r(2) direct_spec_fields(2,9,10) [OF sp]] by blast
    then show ?thesis by (simp add: v16_step_run_def seqp_def [of "run_scenario (envs i) sp"] r(1) evaluate_v16_def store_record_result)
  qed
  have "\<exists>rs w'. for_each (v16_step_run envs disks sha256 out_dir) 0 specs w = Some (Inr rs, w') \<and> length rs = length specs"
    by (rule for_each_returns) (rule step)
  then show ?thesis using assms(1) by (auto simp: run_v16_direct_def run_fresh_def specs)
qed

theorem run_v16_direct_table_witness:
  "\<exists>rs w' t. run_v16_direct (\<lambda>_. working_env ([], [], 0)) (\<lambda>_. \<lparr>disk_bytes = \<lambda>_. None, disk_texts = Map.empty\<rparr>) (\<lambda>_. []) [] [] 3 ''out''
      empty_world = Some (Inr rs, w') \<and>
    tables_v16 (map stored rs) = Inr t \<and> fst ` set (tb_direct t) = {''nginx'', ''caddy''} \<times> set (map fst DEFAULT_CLIENTS)"
proof -
  have "\<not> has_json []" "\<forall>i :: nat. bench_works (working_env ([], [], 0)) PORT" by (simp_all add: has_json_def)
  from run_v16_direct_completes [OF this] obtain rs w' where r: "run_v16_direct (\<lambda>_. working_env ([], [], 0))
      (\<lambda>_. \<lparr>disk_bytes = \<lambda>_. None, disk_texts = Map.empty\<rparr>) (\<lambda>_. []) [] [] 3 ''out'' empty_world = Some (Inr rs, w')" by blast
  from conjunct2 [OF run_v16_direct_table [OF r zero_less_numeral refl]] obtain t where "tables_v16 (map stored rs) = Inr t"
    "fst ` set (tb_direct t) = {''nginx'', ''caddy''} \<times> set (map fst DEFAULT_CLIENTS)" by (elim exE conjE)
  with r show ?thesis by (intro exI conjI)
qed

end
