(* ===== verification/Client_Survey.thy ===== *)
theory Client_Survey
  imports Client_Defaults
begin

text \<open>
  Model of \<open>tools/faultinject/v18.py\<close>: eight more TLS clients with their default configuration against
  the default server, the observed client against the servers of known selection policy (\<open>run_e8\<close>), the
  classification of a first hello, and the repair of stored classifications. The output of the version
  commands is a parameter; the inventory is a JSON document of the output directory.

  The theorems: the classification of a hello in terms of code points; a run never overwrites a document
  that was there; the repair of classifications does what it says and nothing more, and a second one
  changes nothing.
\<close>

section \<open>Definitions\<close>

definition V18 :: string where "V18 = PHASE2_ROOT @ ''/v18''"
definition ADDR_V18 :: string where "ADDR_V18 = ''127.0.0.1''"
definition HYBRID_MARKERS :: "string list" where "HYBRID_MARKERS = [''MLKEM'', ''KYBER'']"

record candidate =
  cd_command :: "string list"
  cd_binary :: string
  cd_version :: "string list"
  cd_kind :: string

definition S2NC :: string where "S2NC = V18 @ ''/s2n-tls/build-awslc/bin/s2nc''"

definition CANDIDATES :: "(string \<times> candidate) list" where
  "CANDIDATES = [
     (''gnutls'', \<lparr>cd_command = [''timeout'', ''20'', ''gnutls-cli'', ''--insecure'', ''--priority'', ''NORMAL:-VERS-ALL:+VERS-TLS1.3'',
        ''-p'', dec PORT, ADDR_V18],
        cd_binary = ''/usr/bin/gnutls-cli'', cd_version = [''gnutls-cli'', ''--version''], cd_kind = ''independent''\<rparr>),
     (''botan'', \<lparr>cd_command = [''timeout'', ''20'', ''botan'', ''tls_client'', ADDR_V18, ''--port='' @ dec PORT, ''--ignore-cert-error'',
        ''--tls-version=tls1.3''],
        cd_binary = ''/usr/bin/botan'', cd_version = [''botan'', ''version''], cd_kind = ''independent''\<rparr>),
     (''wolfssl'', \<lparr>cd_command = [V18 @ ''/wolfssl_client'', ADDR_V18, dec PORT],
        cd_binary = V18 @ ''/wolfssl_client'', cd_version = [V18 @ ''/wolfssl_client'', ''--version''], cd_kind = ''independent''\<rparr>),
     (''mbedtls'', \<lparr>cd_command = [V18 @ ''/mbedtls_client'', ADDR_V18, dec PORT],
        cd_binary = V18 @ ''/mbedtls_client'', cd_version = [V18 @ ''/mbedtls_client'', ''--version''], cd_kind = ''independent''\<rparr>),
     (''s2n-tls'', \<lparr>cd_command = [S2NC, ''-i'', ADDR_V18, dec PORT],
        cd_binary = S2NC, cd_version = [S2NC, ''--help''], cd_kind = ''independent''\<rparr>),
     (''java'', \<lparr>cd_command = [''java'', ''-cp'', V18, ''JavaTlsClient'', ADDR_V18, dec PORT],
        cd_binary = ''/usr/bin/java'', cd_version = [''java'', ''-version''], cd_kind = ''independent''\<rparr>),
     (''node-openssl'', \<lparr>cd_command = [''node'', V18 @ ''/node_tls_client.js'', ADDR_V18, dec PORT],
        cd_binary = ''/usr/bin/node'', cd_version = [''node'', ''--version''], cd_kind = ''openssl-control''\<rparr>),
     (''python-openssl'', \<lparr>cd_command = [''python3'', V18 @ ''/python_tls_client.py'', ADDR_V18, dec PORT],
        cd_binary = ''/usr/bin/python3'', cd_version = [''python3'', ''--version''], cd_kind = ''openssl-control''\<rparr>)]"

definition E8_SERVERS :: "string list" where
  "E8_SERVERS = [''openssl-S1'', ''openssl-S1-serverpref'', ''nss'', ''boringssl'', ''go'']"

definition E8_CLIENTS :: "string list" where "E8_CLIENTS = [''botan'']"

definition SERVER_SELECTION_TYPES :: "(string \<times> string) list" where
  "SERVER_SELECTION_TYPES = [(''openssl-3.5.6-default'', ''server-order''), (''openssl-S1'', ''key-share-priority''),
     (''openssl-S1-serverpref'', ''key-share-priority''), (''nss'', ''key-share-priority''), (''boringssl'', ''client-order''),
     (''go'', ''server-order'')]"

definition v18_output_dir :: "string \<Rightarrow> string" where
  "v18_output_dir repo = repo @ ''/docs/research/baselines/raw/v1.8''"

subsection \<open>Classification\<close>

definition is_hybrid_name :: "string option \<Rightarrow> bool" where
  "is_hybrid_name name = (case name of None \<Rightarrow> False | Some n \<Rightarrow> n \<noteq> [] \<and> list_ex (\<lambda>marker. contains marker (upper n)) HYBRID_MARKERS)"

definition classify :: "string list \<Rightarrow> string list \<Rightarrow> string" where
  "classify groups shares =
     (let hybrid = (\<lambda>g. is_hybrid_name (Some g)); advertised = list_ex hybrid groups; sent = list_ex hybrid shares in
      case groups of [] \<Rightarrow> ''unparsed''
      | g # _ \<Rightarrow>
        if \<not> advertised then ''no-hybrid-advertisement''
        else if sent then (if hybrid g then ''C1-hybrid-first-share'' else ''hybrid-share-noncanonical-order'')
        else if hybrid g then ''C2-hybrid-first-share-omitted'' else ''C3-classical-first-share'')"

subsection \<open>Scenarios and inventory\<close>

definition survey_spec_v18 :: "environ \<Rightarrow> string \<Rightarrow> nat \<Rightarrow> string \<Rightarrow> ScenarioSpec result" where
  "survey_spec_v18 environ client rep out_dir =
     rbind (look (map_of CANDIDATES) client) (\<lambda>cand.
     rbind (native_environment environ ''3.5.6'') (\<lambda>senv.
       Inr ((new_spec ''openssl'' ''client-default-v18'' rep client SURVEY_SERVER (cd_command cand) PORT (clean_env environ) out_dir)
         \<lparr>sp_capture_traffic := True, sp_server_env := Some senv\<rparr>)))"

definition e8_spec :: "environ \<Rightarrow> string \<Rightarrow> string \<Rightarrow> nat \<Rightarrow> string \<Rightarrow> ScenarioSpec result" where
  "e8_spec environ server client rep out_dir =
     rbind (server_command environ server) (\<lambda>cmd.
     rbind (look (map_of CANDIDATES) client) (\<lambda>cand.
     rbind (server_env environ server) (\<lambda>senv.
       Inr ((new_spec ''openssl'' ''actual-client-e8'' rep (server @ ''--'' @ client) cmd (cd_command cand) PORT (clean_env environ) out_dir)
         \<lparr>sp_capture_traffic := True, sp_server_env := Some senv\<rparr>))))"

text \<open>The two outputs of a version command, or the exception of \<open>subprocess.run\<close>.\<close>

type_synonym version_runner = "string list \<Rightarrow> (string \<times> string) result"

definition version_of :: "version_runner \<Rightarrow> string list \<Rightarrow> string result" where
  "version_of versions cmd = rbind (versions cmd) (\<lambda>(out, err). Inr (strip (out @ err)))"

definition inventory_row :: "version_runner \<Rightarrow> (bytes \<Rightarrow> string) \<Rightarrow> disk \<Rightarrow> candidate \<Rightarrow> json result" where
  "inventory_row versions sha256 d c =
     rbind (if disk_bytes d (cd_binary c) = None then Inr JNull else rbind (version_of versions (cd_version c)) (\<lambda>v. Inr (JStr v))) (\<lambda>version.
       Inr (JObj [(''kind'', JStr (cd_kind c)), (''binary'', JStr (cd_binary c)),
         (''binary_sha256'', jopt JStr (sha256_file sha256 d (cd_binary c))), (''command'', jstrs (cd_command c)),
         (''version_command'', jstrs (cd_version c)), (''version_output'', version)]))"

definition inventory :: "version_runner \<Rightarrow> (bytes \<Rightarrow> string) \<Rightarrow> disk \<Rightarrow> dict result" where
  "inventory versions sha256 d =
     rmap (\<lambda>(name, c). rbind (inventory_row versions sha256 d c) (\<lambda>row. Inr (name, row))) CANDIDATES"

definition INVENTORY_NAME :: string where "INVENTORY_NAME = ''v1.8-candidate-inventory.json''"

definition write_inventory :: "version_runner \<Rightarrow> (bytes \<Rightarrow> string) \<Rightarrow> disk \<Rightarrow> string \<Rightarrow> string prog" where
  "write_inventory versions sha256 d out_dir =
     seqp (lift_result (inventory versions sha256 d)) (\<lambda>rows.
     seqp (modify (\<lambda>w. w\<lparr>docs := (docs w)(path_join out_dir INVENTORY_NAME \<mapsto> rows)\<rparr>)) (\<lambda>_.
       ret (path_join out_dir INVENTORY_NAME)))"

subsection \<open>Evaluation\<close>

definition v18_metrics :: "HelloSummary option \<Rightarrow> Metrics \<Rightarrow> Metrics" where
  "v18_metrics summary m =
     (let m = observed_metrics summary m; final = final_negotiated_group m; hybrid = is_hybrid_name final in
      m\<lparr>negotiated_group := final, is_hybrid := hybrid,
        downgrade_visible := (case final of None \<Rightarrow> False | Some g \<Rightarrow> g \<noteq> [] \<and> \<not> hybrid),
        handshake_result := (case Metrics.server_hello_count m of Some n \<Rightarrow> if n \<noteq> 0 then ''success'' else ''failure'' | None \<Rightarrow> ''failure''),
        client_precondition_verified := Some (fst (first_hello summary) \<noteq> []), downgrade_flagged := None\<rparr>)"

definition names_of :: "nat list \<Rightarrow> string list" where "names_of gs = List.map_filter (\<lambda>g. group_name (Some g)) gs"

definition DEFAULT_SERVER :: string where "DEFAULT_SERVER = ''openssl-3.5.6-default''"

definition selection_type :: "string \<Rightarrow> string" where
  "selection_type server = (case map_of SERVER_SELECTION_TYPES server of Some t \<Rightarrow> t | None \<Rightarrow> ''unknown'')"

definition evaluated_v18 :: "(bytes \<Rightarrow> string) \<Rightarrow> environ \<Rightarrow> disk \<Rightarrow> string \<Rightarrow> string \<Rightarrow> string \<Rightarrow> RunRecord \<Rightarrow> RunRecord result" where
  "evaluated_v18 sha256 environ d run_dir client server r =
     rbind (artifact_file r run_dir ''pcap'') (\<lambda>pcap.
     rbind (read_summary d pcap) (\<lambda>summary.
     let groups = names_of (fst (first_hello summary)); shares = names_of (snd (first_hello summary)) in
     rbind (look (map_of CANDIDATES) client) (\<lambda>cand.
     rbind (if server = DEFAULT_SERVER then Inr SURVEY_SERVER else server_command environ server) (\<lambda>server_cmd.
       Inr (r\<lparr>metrics := v18_metrics summary (metrics r), manipulation_verified := (groups \<noteq> []),
         provenance := [(''part'', JStr ''candidate-client-survey''), (''client'', JStr client), (''client_kind'', JStr (cd_kind cand)),
           (''client_cmd'', jstrs (cd_command cand)), (''binary'', JStr (cd_binary cand)),
           (''binary_sha256'', jopt JStr (sha256_file sha256 d (cd_binary cand))), (''client_hello_groups'', jstrs groups),
           (''client_hello_key_shares'', jstrs shares), (''classification'', JStr (classify groups shares)),
           (''server'', JStr server), (''server_selection_type'', JStr (selection_type server)), (''server_cmd'', jstrs server_cmd)]\<rparr>)))))"

definition evaluate_v18 :: "(bytes \<Rightarrow> string) \<Rightarrow> environ \<Rightarrow> disk \<Rightarrow> string \<Rightarrow> string \<Rightarrow> string \<Rightarrow> RunRecord \<Rightarrow> RunRecord prog" where
  "evaluate_v18 sha256 environ d run_dir client server r =
     seqp (lift_result (evaluated_v18 sha256 environ d run_dir client server r)) (store_record run_dir)"

subsection \<open>The runs\<close>

text \<open>\<open>out_dir.glob(before + "*" + after)\<close> over the names in the directory.\<close>

definition glob_match :: "string \<Rightarrow> string \<Rightarrow> string \<Rightarrow> bool" where
  "glob_match before after name \<longleftrightarrow> length before + length after \<le> length name \<and> starts_with before name \<and> ends_with after name"

definition survey_pattern :: "string \<Rightarrow> string \<Rightarrow> bool" where
  "survey_pattern client = glob_match ''openssl_client-default-v18_r'' (''_'' @ client @ ''.json'')"

definition e8_pattern :: "string \<Rightarrow> string \<Rightarrow> bool" where
  "e8_pattern server = glob_match ''openssl_actual-client-e8_r'' (''_'' @ server @ ''--botan.json'')"

definition v18_step_run :: "(nat \<Rightarrow> run_env) \<Rightarrow> (nat \<Rightarrow> disk) \<Rightarrow> (bytes \<Rightarrow> string) \<Rightarrow> environ \<Rightarrow> string \<Rightarrow> nat \<Rightarrow> nat \<times> string \<Rightarrow> RunRecord prog" where
  "v18_step_run envs disks sha256 environ out_dir i x =
     seqp (lift_result (survey_spec_v18 environ (snd x) (fst x) out_dir)) (\<lambda>sp.
     seqp (run_scenario (envs i) sp) (\<lambda>r. evaluate_v18 sha256 environ (disks i) out_dir (snd x) DEFAULT_SERVER r))"

definition run_v18 :: "(nat \<Rightarrow> run_env) \<Rightarrow> (nat \<Rightarrow> disk) \<Rightarrow> version_runner \<Rightarrow> (bytes \<Rightarrow> string) \<Rightarrow> environ \<Rightarrow> string list \<Rightarrow> nat \<Rightarrow> string \<Rightarrow>
    string list option \<Rightarrow> RunRecord list prog" where
  "run_v18 envs disks versions sha256 environ listing reps out_dir clients =
     (let selected = or_default clients (\<lambda>c. c \<noteq> []) (map fst CANDIDATES);
          existing = filter (\<lambda>client. list_ex (survey_pattern client) listing) selected in
      if clients = None \<and> has_json listing then raise (RuntimeError (out_dir @ '' is not empty; choose a fresh --output-dir''))
      else if existing \<noteq> [] then raise (RuntimeError (out_dir @ '' already has records for: '' @ join '', '' existing))
      else seqp (write_inventory versions sha256 (disks 0) out_dir) (\<lambda>_.
        for_each (v18_step_run envs disks sha256 environ out_dir) 0 (List.product [1..<reps + 1] selected)))"

definition e8_step_run :: "(nat \<Rightarrow> run_env) \<Rightarrow> (nat \<Rightarrow> disk) \<Rightarrow> (bytes \<Rightarrow> string) \<Rightarrow> environ \<Rightarrow> string \<Rightarrow> nat \<Rightarrow> nat \<times> string \<times> string \<Rightarrow> RunRecord prog" where
  "e8_step_run envs disks sha256 environ out_dir i x =
     seqp (lift_result (e8_spec environ (fst (snd x)) (snd (snd x)) (fst x) out_dir)) (\<lambda>sp.
     seqp (run_scenario (envs i) sp) (\<lambda>r. evaluate_v18 sha256 environ (disks i) out_dir (snd (snd x)) (fst (snd x)) r))"

definition run_e8 :: "(nat \<Rightarrow> run_env) \<Rightarrow> (nat \<Rightarrow> disk) \<Rightarrow> version_runner \<Rightarrow> (bytes \<Rightarrow> string) \<Rightarrow> environ \<Rightarrow> string list \<Rightarrow> nat \<Rightarrow> string \<Rightarrow>
    string list option \<Rightarrow> RunRecord list prog" where
  "run_e8 envs disks versions sha256 environ listing reps out_dir servers =
     (let selected = or_default servers (\<lambda>s. s \<noteq> []) E8_SERVERS;
          existing = filter (\<lambda>server. list_ex (e8_pattern server) listing) selected in
      if existing \<noteq> [] then raise (RuntimeError (out_dir @ '' already has records for: '' @ join '', '' existing))
      else seqp (write_inventory versions sha256 (disks 0) out_dir) (\<lambda>_.
        for_each (e8_step_run envs disks sha256 environ out_dir) 0 (List.product [1..<reps + 1] (List.product selected E8_CLIENTS))))"

subsection \<open>Report and repair\<close>

definition SURVEY_TYPES :: "string list" where "SURVEY_TYPES = [''client-default-v18'', ''actual-client-e8'']"

definition v18_key :: "RunRecord \<Rightarrow> (string \<times> string \<times> string \<times> string) result" where
  "v18_key r = (let p = provenance r in
     rbind (str_at p ''client'') (\<lambda>client. rbind (str_at p ''server'') (\<lambda>server. rbind (str_at p ''classification'') (\<lambda>kind.
     rbind (strs_at p ''client_hello_groups'') (\<lambda>gs. rbind (strs_at p ''client_hello_key_shares'') (\<lambda>ks.
       Inr (client @ '' -> '' @ server, kind, join '','' gs, join '','' ks)))))))"

definition v18_item_of :: "string \<times> dict \<Rightarrow> (string \<times> string \<times> string \<times> string) option result" where
  "v18_item_of f =
     (if fst f = INVENTORY_NAME then Inr None else
      rbind (from_json (snd f)) (\<lambda>r.
      if \<not> List.member SURVEY_TYPES (fault_type r) then Inr None else rbind (v18_key r) (\<lambda>k. Inr (Some k))))"

definition v18_counts :: "run_dir \<Rightarrow> ((string \<times> string \<times> string \<times> string) \<times> nat) list result" where
  "v18_counts files = rbind (rmap v18_item_of (sort_key fst files)) (\<lambda>ks.
     Inr (fold (\<lambda>k. dict_update k 0 Suc) (List.map_filter id ks) []))"

definition render_v18 :: "run_dir \<Rightarrow> string result" where
  "render_v18 files = rbind (v18_counts files) (\<lambda>counts.
     Inr (join nl ([''| client | classification | supported_groups (order) | key_share | runs |'', ''|---|---|---|---|---:|''] @
       map (\<lambda>((client, kind, groups, shares), runs). ''| '' @ client @ '' | '' @ kind @ '' | '' @ dash_if_empty groups @ '' | '' @
         dash_if_empty shares @ '' | '' @ dec runs @ '' |'') (sort_key fst counts))))"

text \<open>\<open>SERVER_SELECTION_TYPES.get(p.get("server"), "unknown")\<close>; a list or a dictionary is not hashable.\<close>

fun stored_selection_type :: "json option \<Rightarrow> string result" where
  "stored_selection_type (Some (JStr server)) = Inr (selection_type server)"
| "stored_selection_type (Some (JList _)) = Inl (TypeError ''unhashable type'')"
| "stored_selection_type (Some (JObj _)) = Inl (TypeError ''unhashable type'')"
| "stored_selection_type _ = Inr ''unknown''"

definition reclassified :: "RunRecord \<Rightarrow> RunRecord option result" where
  "reclassified r = (let p = provenance r in
     rbind (strs_at p ''client_hello_groups'') (\<lambda>gs. rbind (strs_at p ''client_hello_key_shares'') (\<lambda>ks.
     rbind (stored_selection_type (map_of p ''server'')) (\<lambda>sel.
       let current = classify gs ks in
       if map_of p ''classification'' \<noteq> Some (JStr current) \<or> map_of p ''server_selection_type'' \<noteq> Some (JStr sel)
       then Inr (Some (r\<lparr>provenance := dict_set ''server_selection_type'' (JStr sel)
              (dict_set ''classification_schema'' (JStr ''v1.8-order-aware'') (dict_set ''classification'' (JStr current) p))\<rparr>))
       else Inr None))))"

text \<open>One file of the loop; the result is what it adds to the number of changed records.\<close>

definition reclassify_file :: "string \<Rightarrow> string \<Rightarrow> nat prog" where
  "reclassify_file dir name w =
     (if name = INVENTORY_NAME then ret 0 w else
      case docs w (path_join dir name) of None \<Rightarrow> Some (Inl (OSError ''No such file or directory''), w)
      | Some doc \<Rightarrow>
        seqp (lift_result (from_json doc)) (\<lambda>r.
        if \<not> List.member SURVEY_TYPES (fault_type r) then ret 0 else
        seqp (lift_result (reclassified r)) (\<lambda>ch.
        case ch of None \<Rightarrow> ret 0 | Some r' \<Rightarrow> seqp (store_record dir r') (\<lambda>_. ret 1))) w)"

definition reclassify :: "string \<Rightarrow> string list \<Rightarrow> nat prog" where
  "reclassify dir names = seqp (for_each (\<lambda>_. reclassify_file dir) 0 (sort names)) (\<lambda>ns. ret (sum_list ns))"

definition missing_candidates :: "disk \<Rightarrow> string list" where
  "missing_candidates d = map fst (filter (\<lambda>nc. disk_bytes d (cd_binary (snd nc)) = None) CANDIDATES)"

definition preflight_v18 :: "disk \<Rightarrow> (nat \<Rightarrow> bool) \<Rightarrow> bool \<times> string" where
  "preflight_v18 d port_free =
     (if missing_candidates d \<noteq> [] then
        (False, ''missing candidate binaries: '' @ join '', '' (missing_candidates d) @ '' (run tools/v18_setup.sh)'')
      else if \<not> port_free PORT then (False, ''port '' @ dec PORT @ '' in use'') else (True, ''ok''))"

section \<open>Classification by code points\<close>

text \<open>The hybrid groups among those that \<open>GROUP_NAMES\<close> names.\<close>

definition HYBRID_CODES :: "nat list" where "HYBRID_CODES = [0x11EC, 0x6399]"

definition classify_codes :: "nat list \<Rightarrow> nat list \<Rightarrow> string" where
  "classify_codes gs ks =
     (case gs of [] \<Rightarrow> ''unparsed''
      | g # _ \<Rightarrow>
        if set gs \<inter> set HYBRID_CODES = {} then ''no-hybrid-advertisement''
        else if set ks \<inter> set HYBRID_CODES \<noteq> {} then (if g \<in> set HYBRID_CODES then ''C1-hybrid-first-share'' else ''hybrid-share-noncanonical-order'')
        else if g \<in> set HYBRID_CODES then ''C2-hybrid-first-share-omitted'' else ''C3-classical-first-share'')"

lemma hex04_digits: "c \<in> set (hex04 n) \<Longrightarrow> \<exists>d < 16. c = digit_char d"
proof -
  assume "c \<in> set (hex04 n)"
  then have "c = CHR ''0'' \<or> c \<in> set (hexs n)" by (auto simp: hex04_def zfill_def)
  moreover have "CHR ''0'' = digit_char 0" by code_simp
  moreover have "set (hexs n) \<subseteq> digit_char ` {..<16}" using base_digits_chars [of 16 n] by (simp add: hexs_def)
  ultimately show ?thesis by force
qed

lemma upper_digit: "d < 16 \<Longrightarrow> (of_char (upper_char (digit_char d)) :: nat) < 71"
  by (simp add: upper_char_def digit_char_def Let_def)

lemma hex_label_classical: "\<not> is_hybrid_name (Some (''0x'' @ hex04 c))"
proof -
  have "(of_char x :: nat) < 71 \<or> x = CHR ''X''" if "x \<in> set (upper (''0x'' @ hex04 c))" for x
  proof -
    from that obtain y where y: "y \<in> set (''0x'' @ hex04 c)" "x = upper_char y" by (auto simp: upper_def)
    then consider "y = CHR ''0''" | "y = CHR ''x''" | "y \<in> set (hex04 c)" by auto
    then show ?thesis
    proof cases
      case 3
      then show ?thesis using hex04_digits [of y c] upper_digit y(2) by blast
    next
      case 2
      have "upper_char CHR ''x'' = CHR ''X''" by code_simp
      then show ?thesis using y(2) 2 by simp
    qed (simp add: y(2) upper_char_def)
  qed
  from this [of "CHR ''M''"] this [of "CHR ''Y''"]
  have "CHR ''M'' \<notin> set (upper (''0x'' @ hex04 c)) \<and> CHR ''Y'' \<notin> set (upper (''0x'' @ hex04 c))" by auto
  moreover have "set m \<subseteq> set s" if "contains m s" for m s :: string using that by (auto simp: contains_iff)
  ultimately have "\<not> contains ''MLKEM'' (upper (''0x'' @ hex04 c))" "\<not> contains ''KYBER'' (upper (''0x'' @ hex04 c))" by fastforce+
  then show ?thesis by (simp add: is_hybrid_name_def HYBRID_MARKERS_def)
qed

lemma hybrid_labels:
  "\<not> is_hybrid_name (Some ''X25519'')" "is_hybrid_name (Some ''X25519MLKEM768'')" "is_hybrid_name (Some ''X25519Kyber768Draft00'')"
  by code_simp+

lemma is_hybrid_label: "is_hybrid_name (Some (label_of c)) \<longleftrightarrow> c \<in> set HYBRID_CODES"
proof (cases "GROUP_NAMES c")
  case None
  then have "label_of c = ''0x'' @ hex04 c" "c \<notin> set HYBRID_CODES" by (auto simp: group_name_def HYBRID_CODES_def GROUP_NAMES_def)
  then show ?thesis using hex_label_classical [of c] by simp
next
  case (Some n)
  then have "c = 0x001D \<and> label_of c = ''X25519'' \<or> c = 0x11EC \<and> label_of c = ''X25519MLKEM768'' \<or> c = 0x6399 \<and> label_of c = ''X25519Kyber768Draft00''"
    by (auto simp: group_name_def GROUP_NAMES_def split: if_splits)
  then show ?thesis by (elim disjE conjE) (simp_all add: hybrid_labels HYBRID_CODES_def)
qed

lemma names_of_map: "names_of gs = map label_of gs"
proof -
  have "\<exists>n. group_name (Some g) = Some n" for g by (simp add: group_name_def)
  then show ?thesis unfolding names_of_def by (induction gs) (auto simp: List.map_filter_simps split: option.splits)
qed

lemma hybrid_group_name: "is_hybrid_name (group_name (Some c)) \<longleftrightarrow> c \<in> set HYBRID_CODES"
  using is_hybrid_label [of c] by (simp add: group_name_def)

lemma label_of_ne: "group_name (Some c) \<noteq> Some []"
  using label_of_plain(2) [of c] by (simp add: group_name_def)

text \<open>
  C35. What the survey calls hybrid. The class of a client, computed from the names of the groups in its
  first hello, is the one that the code points give when exactly X25519MLKEM768 (0x11EC) and
  X25519Kyber768Draft00 (0x6399) count as hybrid; and a record shows a visible downgrade exactly if a
  group was selected that is neither of the two. Any other hybrid group is printed as a hexadecimal
  number in which no marker can occur: a client that offers only SecP256r1MLKEM768 (0x11EB) or
  SecP384r1MLKEM1024 (0x11ED) is classified as not advertising a hybrid, and a handshake that selects
  one of them is reported as a downgrade.
\<close>

theorem classify_by_code_points:
  "classify (names_of gs) (names_of ks) = classify_codes gs ks \<and>
   downgrade_visible (v18_metrics (Some s) m) = (case final_group s of None \<Rightarrow> False | Some c \<Rightarrow> c \<notin> {0x11EC, 0x6399}) \<and>
   classify (names_of [0x11EB, 0x001D]) (names_of [0x11EB]) = ''no-hybrid-advertisement''"
proof -
  have e: "list_ex (\<lambda>g. is_hybrid_name (Some g)) (names_of hs) \<longleftrightarrow> set hs \<inter> set HYBRID_CODES \<noteq> {}" for hs
    by (auto simp: names_of_map list_ex_iff is_hybrid_label)
  have cl: "classify (names_of hs) (names_of ls) = classify_codes hs ls" for hs ls
  proof (cases hs)
    case (Cons h hs')
    have n: "names_of hs = label_of h # names_of hs'" by (simp add: names_of_map Cons)
    have "classify (names_of hs) (names_of ls) = (if \<not> list_ex (\<lambda>g. is_hybrid_name (Some g)) (names_of hs) then ''no-hybrid-advertisement''
        else if list_ex (\<lambda>g. is_hybrid_name (Some g)) (names_of ls)
          then (if is_hybrid_name (Some (label_of h)) then ''C1-hybrid-first-share'' else ''hybrid-share-noncanonical-order'')
          else if is_hybrid_name (Some (label_of h)) then ''C2-hybrid-first-share-omitted'' else ''C3-classical-first-share'')"
      unfolding classify_def Let_def by (simp only: n list.case)
    also have "\<dots> = classify_codes hs ls" unfolding e is_hybrid_label classify_codes_def by (simp only: Cons list.case not_not)
    finally show ?thesis .
  qed (simp add: names_of_map classify_def classify_codes_def)
  moreover have "downgrade_visible (v18_metrics (Some s) m) = (case final_group s of None \<Rightarrow> False | Some c \<Rightarrow> c \<notin> {0x11EC, 0x6399})"
  proof (cases "final_group s")
    case None
    then show ?thesis by (simp add: v18_metrics_def observed_metrics_def Let_def group_name_def)
  next
    case (Some c)
    obtain g where g: "group_name (Some c) = Some g" "g \<noteq> []" using label_of_ne [of c] by (auto simp: group_name_def)
    have "is_hybrid_name (Some g) \<longleftrightarrow> c \<in> set HYBRID_CODES" using hybrid_group_name [of c] g(1) by simp
    then show ?thesis by (simp add: v18_metrics_def observed_metrics_def Let_def Some g HYBRID_CODES_def)
  qed
  ultimately show ?thesis by (simp add: classify_codes_def HYBRID_CODES_def)
qed

section \<open>Runs keep what is there\<close>

lemma survey_spec_v18_fields:
  assumes "survey_spec_v18 environ client rep out_dir = Inr sp"
  shows "sp_impl sp = ''openssl''" "sp_fault_type sp = ''client-default-v18''" "sp_repetition sp = rep" "sp_condition sp = client"
    "sp_out_dir sp = out_dir" "sp_capture_traffic sp" "sp_proxy_mutate sp = None" "server_port_of sp = PORT"
  using assms unfolding survey_spec_v18_def by (auto simp: res_simps new_spec_def or_default_def)

lemma e8_spec_fields:
  assumes "e8_spec environ server client rep out_dir = Inr sp"
  shows "sp_impl sp = ''openssl''" "sp_fault_type sp = ''actual-client-e8''" "sp_repetition sp = rep" "sp_condition sp = server @ ''--'' @ client"
    "sp_out_dir sp = out_dir" "sp_capture_traffic sp" "sp_proxy_mutate sp = None" "server_port_of sp = PORT"
  using assms unfolding e8_spec_def by (auto simp: res_simps new_spec_def or_default_def)

lemma evaluated_v18_run_id: "evaluated_v18 sha256 environ d dir client server r = Inr r' \<Longrightarrow> rec_run_id r' = rec_run_id r"
  unfolding evaluated_v18_def Let_def by (auto simp: res_simps)

lemma evaluate_v18_result:
  assumes "evaluate_v18 sha256 environ d dir client server r w = Some (y, w')"
  shows "case y of Inl e \<Rightarrow> docs w' = docs w
    | Inr r' \<Rightarrow> evaluated_v18 sha256 environ d dir client server r = Inr r' \<and> rec_run_id r' = rec_run_id r \<and>
        docs w' = (docs w)(doc_path dir (rec_run_id r) \<mapsto> asdict_record r')"
  by (rule evaluation_result [OF assms [unfolded evaluate_v18_def]]) (rule evaluated_v18_run_id)

lemma evaluate_v18_stores:
  assumes "evaluate_v18 sha256 environ d dir client server r w = Some (y, w')"
  shows "case y of Inl e \<Rightarrow> \<forall>p. p \<noteq> doc_path dir (rec_run_id r) \<longrightarrow> docs w' p = docs w p
    | Inr r' \<Rightarrow> rec_run_id r' = rec_run_id r \<and> (docs w')(doc_path dir (rec_run_id r) := None) = (docs w)(doc_path dir (rec_run_id r) := None)
        \<and> docs w' (doc_path dir (rec_run_id r)) = Some (asdict_record r')"
  using evaluate_v18_result [OF assms] by (cases y) auto

abbreviation survey_id :: "nat \<times> string \<Rightarrow> string" where
  "survey_id x \<equiv> run_id ''openssl'' ''client-default-v18'' (fst x) (snd x)"

abbreviation e8_id :: "nat \<times> string \<times> string \<Rightarrow> string" where
  "e8_id x \<equiv> run_id ''openssl'' ''actual-client-e8'' (fst x) (fst (snd x) @ ''--'' @ snd (snd x))"

interpretation v18run: item_driver "v18_step_run envs disks sha256 environ out_dir" "\<lambda>x. survey_id x" "\<lambda>_. True" out_dir
  for envs disks sha256 environ out_dir
  unfolding v18_step_run_def
  by (rule building_driver) (auto simp: survey_spec_v18_fields intro: evaluate_v18_stores)

interpretation e8run: item_driver "e8_step_run envs disks sha256 environ out_dir" "\<lambda>x. e8_id x" "\<lambda>_. True" out_dir
  for envs disks sha256 environ out_dir
  unfolding e8_step_run_def
  by (rule building_driver) (auto simp: e8_spec_fields intro: evaluate_v18_stores)

lemma glob_match_append: "glob_match before after (before @ x @ after)"
  by (auto simp: glob_match_def starts_with_iff ends_with_iff)

lemma survey_id_pattern: "survey_pattern (snd x) (survey_id x @ ''.json'')"
proof -
  have "survey_id x @ ''.json'' = ''openssl_client-default-v18_r'' @ dec02 (fst x) @ (''_'' @ snd x @ ''.json'')" by (simp add: run_id_def)
  then show ?thesis unfolding survey_pattern_def by (simp only: glob_match_append)
qed

lemma e8_id_pattern: "snd (snd x) = ''botan'' \<Longrightarrow> e8_pattern (fst (snd x)) (e8_id x @ ''.json'')"
proof -
  assume b: "snd (snd x) = ''botan''"
  have "e8_id x @ ''.json'' = ''openssl_actual-client-e8_r'' @ dec02 (fst x) @ (''_'' @ fst (snd x) @ ''--botan.json'')" by (simp add: run_id_def b)
  then show ?thesis unfolding e8_pattern_def by (simp only: glob_match_append)
qed

lemma write_inventory_docs:
  assumes "write_inventory versions sha256 d out_dir w = Some (y, w1)" "p \<noteq> path_join out_dir INVENTORY_NAME"
  shows "docs w1 p = docs w p"
  using assms by (cases "inventory versions sha256 d") (auto simp: write_inventory_def ret_def)

abbreviation chosen_clients :: "string list option \<Rightarrow> string list" where
  "chosen_clients clients \<equiv> or_default clients (\<lambda>c. c \<noteq> []) (map fst CANDIDATES)"

abbreviation chosen_e8 :: "string list option \<Rightarrow> string list" where
  "chosen_e8 servers \<equiv> or_default servers (\<lambda>s. s \<noteq> []) E8_SERVERS"

lemma run_v18_cases:
  assumes "run_v18 envs disks versions sha256 environ listing n out_dir clients w = Some (y, w')"
  shows "(\<exists>e. y = Inl e) \<and> w' = w \<or>
    filter (\<lambda>client. list_ex (survey_pattern client) listing) (chosen_clients clients) = [] \<and>
    ((\<exists>e. y = Inl e \<and> write_inventory versions sha256 (disks 0) out_dir w = Some (Inl e, w')) \<or>
     (\<exists>z w1. write_inventory versions sha256 (disks 0) out_dir w = Some (Inr z, w1) \<and>
        for_each (v18_step_run envs disks sha256 environ out_dir) 0 (List.product [1..<n + 1] (chosen_clients clients)) w1 = Some (y, w')))"
  using assms unfolding run_v18_def Let_def by (auto simp: raise_def seqp_Some split: if_splits)

lemma run_e8_cases:
  assumes "run_e8 envs disks versions sha256 environ listing n out_dir servers w = Some (y, w')"
  shows "(\<exists>e. y = Inl e) \<and> w' = w \<or>
    filter (\<lambda>server. list_ex (e8_pattern server) listing) (chosen_e8 servers) = [] \<and>
    ((\<exists>e. y = Inl e \<and> write_inventory versions sha256 (disks 0) out_dir w = Some (Inl e, w')) \<or>
     (\<exists>z w1. write_inventory versions sha256 (disks 0) out_dir w = Some (Inr z, w1) \<and>
        for_each (e8_step_run envs disks sha256 environ out_dir) 0
          (List.product [1..<n + 1] (List.product (chosen_e8 servers) E8_CLIENTS)) w1 = Some (y, w')))"
  using assms unfolding run_e8_def Let_def by (auto simp: raise_def seqp_Some split: if_splits)

lemma run_v18_keeps:
  assumes run: "run_v18 envs disks versions sha256 environ listing n out_dir clients w = Some (y, w')"
    and "\<And>name. docs w (path_join out_dir name) \<noteq> None \<Longrightarrow> name \<in> set listing"
    and "docs w p = Some doc" "p \<noteq> path_join out_dir INVENTORY_NAME"
  shows "docs w' p = Some doc"
proof -
  from run_v18_cases [OF run] consider "w' = w" | e where "write_inventory versions sha256 (disks 0) out_dir w = Some (Inl e, w')"
    | z w1 where "filter (\<lambda>client. list_ex (survey_pattern client) listing) (chosen_clients clients) = []"
      "write_inventory versions sha256 (disks 0) out_dir w = Some (Inr z, w1)"
      "for_each (v18_step_run envs disks sha256 environ out_dir) 0 (List.product [1..<n + 1] (chosen_clients clients)) w1 = Some (y, w')"
    by blast
  then show ?thesis
  proof cases
    case (3 z w1)
    have "p \<notin> (\<lambda>x. doc_path out_dir (survey_id x)) ` set (List.product [1..<n + 1] (chosen_clients clients))"
    proof
      assume "p \<in> (\<lambda>x. doc_path out_dir (survey_id x)) ` set (List.product [1..<n + 1] (chosen_clients clients))"
      then obtain x where x: "snd x \<in> set (chosen_clients clients)" "p = doc_path out_dir (survey_id x)" by auto
      then have "survey_id x @ ''.json'' \<in> set listing" using assms(2,3) by blast
      then have "list_ex (survey_pattern (snd x)) listing" using survey_id_pattern [of x] unfolding list_ex_iff by blast
      then show False using 3(1) x(1) unfolding filter_empty_conv by blast
    qed
    then have "docs w' p = docs w1 p" using v18run.other_docs [OF 3(3)] by blast
    then show ?thesis using write_inventory_docs [OF 3(2) assms(4)] assms(3) by simp
  qed (use write_inventory_docs assms(3,4) in auto)
qed

lemma run_e8_keeps:
  assumes run: "run_e8 envs disks versions sha256 environ listing n out_dir servers w = Some (y, w')"
    and "\<And>name. docs w (path_join out_dir name) \<noteq> None \<Longrightarrow> name \<in> set listing"
    and "docs w p = Some doc" "p \<noteq> path_join out_dir INVENTORY_NAME"
  shows "docs w' p = Some doc"
proof -
  let ?items = "List.product [1..<n + 1] (List.product (chosen_e8 servers) E8_CLIENTS)"
  from run_e8_cases [OF run] consider "w' = w" | e where "write_inventory versions sha256 (disks 0) out_dir w = Some (Inl e, w')"
    | z w1 where "filter (\<lambda>server. list_ex (e8_pattern server) listing) (chosen_e8 servers) = []"
      "write_inventory versions sha256 (disks 0) out_dir w = Some (Inr z, w1)"
      "for_each (e8_step_run envs disks sha256 environ out_dir) 0 ?items w1 = Some (y, w')"
    by blast
  then show ?thesis
  proof cases
    case (3 z w1)
    have "p \<notin> (\<lambda>x. doc_path out_dir (e8_id x)) ` set ?items"
    proof
      assume "p \<in> (\<lambda>x. doc_path out_dir (e8_id x)) ` set ?items"
      then obtain x where x: "fst (snd x) \<in> set (chosen_e8 servers)" "snd (snd x) = ''botan''" "p = doc_path out_dir (e8_id x)"
        by (auto simp: E8_CLIENTS_def)
      then have "e8_id x @ ''.json'' \<in> set listing" using assms(2,3) by blast
      then have "list_ex (e8_pattern (fst (snd x))) listing" using e8_id_pattern [OF x(2)] unfolding list_ex_iff by blast
      then show False using 3(1) x(1) unfolding filter_empty_conv by blast
    qed
    then have "docs w' p = docs w1 p" using e8run.other_docs [OF 3(3)] by blast
    then show ?thesis using write_inventory_docs [OF 3(2) assms(4)] assms(3) by simp
  qed (use write_inventory_docs assms(3,4) in auto)
qed

text \<open>The inventory is the one document that is replaced, by the inventory of this run.\<close>

lemma inventory_no_record: "path_join dir INVENTORY_NAME \<noteq> doc_path dir (run_id ''openssl'' f k c)"
  by (simp add: path_join_def INVENTORY_NAME_def run_id_def)

lemma write_inventory_result:
  assumes "write_inventory versions sha256 d dir w = Some (y, w1)"
  shows "docs w1 (path_join dir INVENTORY_NAME) = docs w (path_join dir INVENTORY_NAME) \<or>
    (\<exists>rows. inventory versions sha256 d = Inr rows \<and> docs w1 (path_join dir INVENTORY_NAME) = Some rows)"
  using assms by (cases "inventory versions sha256 d") (auto simp: write_inventory_def ret_def)

lemma run_v18_inventory:
  assumes "run_v18 envs disks versions sha256 environ listing n out_dir clients w = Some (y, w')"
  shows "docs w' (path_join out_dir INVENTORY_NAME) = docs w (path_join out_dir INVENTORY_NAME) \<or>
    (\<exists>rows. inventory versions sha256 (disks 0) = Inr rows \<and> docs w' (path_join out_dir INVENTORY_NAME) = Some rows)"
proof -
  have fresh: "path_join out_dir INVENTORY_NAME \<notin> (\<lambda>x. doc_path out_dir (survey_id x)) ` X" for X
    using inventory_no_record by blast
  from run_v18_cases [OF assms] consider "w' = w"
    | z w1 where "write_inventory versions sha256 (disks 0) out_dir w = Some (z, w1)" "w' = w1 \<or>
        for_each (v18_step_run envs disks sha256 environ out_dir) 0 (List.product [1..<n + 1] (chosen_clients clients)) w1 = Some (y, w')"
    by blast
  then show ?thesis
  proof cases
    case (2 z w1)
    then have "docs w' (path_join out_dir INVENTORY_NAME) = docs w1 (path_join out_dir INVENTORY_NAME)"
      using v18run.other_docs [OF _ _ fresh] by blast
    then show ?thesis using write_inventory_result [OF 2(1)] by simp
  qed simp
qed

lemma run_e8_inventory:
  assumes "run_e8 envs disks versions sha256 environ listing n out_dir servers w = Some (y, w')"
  shows "docs w' (path_join out_dir INVENTORY_NAME) = docs w (path_join out_dir INVENTORY_NAME) \<or>
    (\<exists>rows. inventory versions sha256 (disks 0) = Inr rows \<and> docs w' (path_join out_dir INVENTORY_NAME) = Some rows)"
proof -
  have fresh: "path_join out_dir INVENTORY_NAME \<notin> (\<lambda>x. doc_path out_dir (e8_id x)) ` X" for X
    using inventory_no_record by blast
  from run_e8_cases [OF assms] consider "w' = w"
    | z w1 where "write_inventory versions sha256 (disks 0) out_dir w = Some (z, w1)" "w' = w1 \<or>
        for_each (e8_step_run envs disks sha256 environ out_dir) 0
          (List.product [1..<n + 1] (List.product (chosen_e8 servers) E8_CLIENTS)) w1 = Some (y, w')"
    by blast
  then show ?thesis
  proof cases
    case (2 z w1)
    then have "docs w' (path_join out_dir INVENTORY_NAME) = docs w1 (path_join out_dir INVENTORY_NAME)"
      using e8run.other_docs [OF _ _ fresh] by blast
    then show ?thesis using write_inventory_result [OF 2(1)] by simp
  qed simp
qed

text \<open>
  C36. A survey never overwrites a record. Let the listing that a run of the survey, or of the observed
  client against the servers, sees of its output directory be complete. Then every document that was
  there, except for one file, is unchanged after the run, whether it returned, raised at once because a
  selected client or server already has records, or stopped in the middle; also when the run was allowed
  into a directory with records of other clients. The one file is the inventory of the candidates,
  \<open>v1.8-candidate-inventory.json\<close>: a run that is let into the directory replaces it by the inventory it has
  just taken (of all candidates, whatever clients were selected), and nothing else is written there.
\<close>

theorem survey_never_overwrites:
  assumes "run_v18 envs disks versions sha256 environ listing n out_dir clients w = Some (y, w') \<or>
      run_e8 envs disks versions sha256 environ listing n out_dir servers w = Some (y, w')"
    and "\<And>name. docs w (path_join out_dir name) \<noteq> None \<Longrightarrow> name \<in> set listing"
    and "docs w p = Some doc"
  shows "docs w' p = Some doc \<or> p = path_join out_dir INVENTORY_NAME \<and>
      (\<exists>rows. inventory versions sha256 (disks 0) = Inr rows \<and> docs w' p = Some rows)"
proof (cases "p = path_join out_dir INVENTORY_NAME")
  case True
  then show ?thesis using assms(1,3) run_v18_inventory run_e8_inventory by metis
next
  case False
  from assms(1) show ?thesis
  proof
    assume "run_v18 envs disks versions sha256 environ listing n out_dir clients w = Some (y, w')"
    then show ?thesis using run_v18_keeps assms(2,3) False by blast
  next
    assume "run_e8 envs disks versions sha256 environ listing n out_dir servers w = Some (y, w')"
    then show ?thesis using run_e8_keeps assms(2,3) False by blast
  qed
qed

section \<open>The repair of classifications\<close>

lemma reclassified_Some:
  assumes "reclassified r = Inr (Some r')"
  shows "r' = r\<lparr>provenance := provenance r'\<rparr>" "reclassified r' = Inr None" "r' \<noteq> r" "rec_run_id r' = rec_run_id r" "fault_type r' = fault_type r"
    "\<And>k. k \<notin> {''classification'', ''classification_schema'', ''server_selection_type''} \<Longrightarrow> map_of (provenance r') k = map_of (provenance r) k"
proof -
  let ?p = "provenance r"
  obtain gs ks sel where l: "strs_at ?p ''client_hello_groups'' = Inr gs" "strs_at ?p ''client_hello_key_shares'' = Inr ks"
    "stored_selection_type (map_of ?p ''server'') = Inr sel"
    and ch: "map_of ?p ''classification'' \<noteq> Some (JStr (classify gs ks)) \<or> map_of ?p ''server_selection_type'' \<noteq> Some (JStr sel)"
    and r': "r' = r\<lparr>provenance := dict_set ''server_selection_type'' (JStr sel)
        (dict_set ''classification_schema'' (JStr ''v1.8-order-aware'') (dict_set ''classification'' (JStr (classify gs ks)) ?p))\<rparr>"
    using assms unfolding reclassified_def Let_def by (auto simp: res_simps split: if_splits)
  have m: "map_of (provenance r') k = (if k = ''classification'' then Some (JStr (classify gs ks)) else if k = ''server_selection_type'' then Some (JStr sel)
      else if k = ''classification_schema'' then Some (JStr ''v1.8-order-aware'') else map_of ?p k)" for k
    by (simp add: r')
  show "r' = r\<lparr>provenance := provenance r'\<rparr>" "rec_run_id r' = rec_run_id r" "fault_type r' = fault_type r" by (simp_all add: r')
  show "map_of (provenance r') k = map_of ?p k" if "k \<notin> {''classification'', ''classification_schema'', ''server_selection_type''}" for k
    using that by (simp add: m)
  have "strs_at (provenance r') ''client_hello_groups'' = Inr gs" "strs_at (provenance r') ''client_hello_key_shares'' = Inr ks"
    "stored_selection_type (map_of (provenance r') ''server'') = Inr sel"
    using l by (simp_all add: strs_at_def look_def m)
  moreover have "map_of (provenance r') ''classification'' = Some (JStr (classify gs ks))"
    "map_of (provenance r') ''server_selection_type'' = Some (JStr sel)"
    by (simp_all add: m)
  ultimately show "reclassified r' = Inr None" by (simp add: reclassified_def Let_def)
  with assms show "r' \<noteq> r" by auto
qed

text \<open>The file of a record is named after it; the files that are repaired are those of the survey.\<close>

definition named_after_record :: "(string \<rightharpoonup> dict) \<Rightarrow> string \<Rightarrow> string \<Rightarrow> bool" where
  "named_after_record ds dir name \<longleftrightarrow> (case ds (path_join dir name) of None \<Rightarrow> True
     | Some doc \<Rightarrow> (case from_json doc of Inl e \<Rightarrow> True | Inr r \<Rightarrow> rec_run_id r @ ''.json'' = name))"

text \<open>A record that carries the class of its own lists and the selection type of its own server.\<close>

definition carries_own_class :: "RunRecord \<Rightarrow> bool" where
  "carries_own_class r \<longleftrightarrow> (let p = provenance r in \<exists>gs ks sel.
     strs_at p ''client_hello_groups'' = Inr gs \<and> strs_at p ''client_hello_key_shares'' = Inr ks \<and>
     stored_selection_type (map_of p ''server'') = Inr sel \<and>
     map_of p ''classification'' = Some (JStr (classify gs ks)) \<and> map_of p ''server_selection_type'' = Some (JStr sel))"

lemma reclassified_None: "reclassified r = Inr None \<longleftrightarrow> carries_own_class r"
  by (auto simp: reclassified_def carries_own_class_def Let_def res_simps split: if_splits)

definition settled :: "(string \<rightharpoonup> dict) \<Rightarrow> string \<Rightarrow> string \<Rightarrow> bool" where
  "settled ds dir name \<longleftrightarrow> name = INVENTORY_NAME \<or> (case ds (path_join dir name) of None \<Rightarrow> False
     | Some doc \<Rightarrow> (case from_json doc of Inl e \<Rightarrow> False
        | Inr r \<Rightarrow> fault_type r \<notin> set SURVEY_TYPES \<or> carries_own_class r))"

lemmas settled_iff = settled_def [folded reclassified_None]

lemma settled_step: "settled (docs w) dir name \<Longrightarrow> reclassify_file dir name w = Some (Inr 0, w)"
  by (auto simp: settled_iff reclassify_file_def ret_def split: option.splits sum.splits)

text \<open>One file: its document is settled, the number says whether it changed, and nothing else does.\<close>

lemma reclassify_file_result:
  assumes "reclassify_file dir name w = Some (Inr k, w')" "named_after_record (docs w) dir name"
  shows "settled (docs w') dir name \<and> k = of_bool (docs w' (path_join dir name) \<noteq> docs w (path_join dir name)) \<and>
    (\<forall>p. p \<noteq> path_join dir name \<longrightarrow> docs w' p = docs w p)"
proof (cases "settled (docs w) dir name")
  case True
  then show ?thesis using settled_step [OF True] assms(1) by simp
next
  case False
  then have ni: "name \<noteq> INVENTORY_NAME" by (auto simp: settled_iff)
  obtain doc r where d: "docs w (path_join dir name) = Some doc" "from_json doc = Inr r"
    using assms(1) ni by (cases "docs w (path_join dir name)"; cases "from_json (the (docs w (path_join dir name)))") (auto simp: reclassify_file_def)
  have t: "fault_type r \<in> set SURVEY_TYPES" "reclassified r \<noteq> Inr None" using False d by (auto simp: settled_iff)
  have name: "rec_run_id r @ ''.json'' = name" using assms(2) d by (simp add: named_after_record_def)
  obtain r' where r': "reclassified r = Inr (Some r')"
    using assms(1) ni d t by (cases "reclassified r") (auto simp: reclassify_file_def)
  note c = reclassified_Some [OF r']
  have path: "doc_path dir (rec_run_id r') = path_join dir name" by (simp add: c(4) name)
  have w': "w' = w\<lparr>docs := (docs w)(path_join dir name \<mapsto> asdict_record r')\<rparr>" "k = 1"
    using assms(1) ni d t r' path by (simp_all add: reclassify_file_def store_record_result seqp_def ret_def lift_result_def)
  have "asdict_record r' \<noteq> doc"
  proof
    assume "asdict_record r' = doc"
    then have "from_json doc = Inr r'" using from_json_asdict by blast
    then show False using d(2) c(3) by simp
  qed
  then show ?thesis using w' d c(2) by (simp add: settled_iff from_json_asdict)
qed

lemma path_join_inj [simp]: "path_join dir a = path_join dir b \<longleftrightarrow> a = b"
  by (simp add: path_join_def)

lemma repair_cong:
  "ds (path_join dir name) = ds' (path_join dir name) \<Longrightarrow> settled ds dir name = settled ds' dir name"
  "ds (path_join dir name) = ds' (path_join dir name) \<Longrightarrow> named_after_record ds dir name = named_after_record ds' dir name"
  by (simp_all add: settled_iff named_after_record_def)

lemma reclassify_loop:
  assumes "for_each (\<lambda>_. reclassify_file dir) i names w = Some (Inr ns, w')" "distinct names"
    and "\<forall>name \<in> set names. named_after_record (docs w) dir name"
  shows "sum_list ns = length (filter (\<lambda>name. docs w' (path_join dir name) \<noteq> docs w (path_join dir name)) names) \<and>
    (\<forall>name \<in> set names. settled (docs w') dir name) \<and> (\<forall>p. p \<notin> path_join dir ` set names \<longrightarrow> docs w' p = docs w p)"
  using assms
proof (induction names arbitrary: i w ns)
  case Nil
  then show ?case by (simp add: ret_def)
next
  case (Cons name names)
  from Cons.prems(1) obtain k ks w1 where k: "reclassify_file dir name w = Some (Inr k, w1)"
    "for_each (\<lambda>_. reclassify_file dir) (Suc i) names w1 = Some (Inr ks, w')" "ns = k # ks"
    unfolding for_each_Cons_Inr by blast
  have f: "settled (docs w1) dir name" "k = of_bool (docs w1 (path_join dir name) \<noteq> docs w (path_join dir name))"
    "\<And>p. p \<noteq> path_join dir name \<Longrightarrow> docs w1 p = docs w p"
    using reclassify_file_result [OF k(1)] Cons.prems(3) by auto
  have other: "docs w1 (path_join dir n) = docs w (path_join dir n)" if "n \<in> set names" for n
    using f(3) [of "path_join dir n"] that Cons.prems(2) by (cases "n = name") auto
  have "\<forall>n \<in> set names. named_after_record (docs w1) dir n"
    using Cons.prems(3) other repair_cong(2) [of "docs w1" dir _ "docs w"] by auto
  then have l: "sum_list ks = length (filter (\<lambda>n. docs w' (path_join dir n) \<noteq> docs w1 (path_join dir n)) names)"
      "\<forall>n \<in> set names. settled (docs w') dir n" "\<And>p. p \<notin> path_join dir ` set names \<Longrightarrow> docs w' p = docs w1 p"
    using Cons.IH [OF k(2)] Cons.prems(2) by auto
  have n: "docs w' (path_join dir name) = docs w1 (path_join dir name)"
    by (rule l(3)) (use Cons.prems(2) in auto)
  have "filter (\<lambda>n. docs w' (path_join dir n) \<noteq> docs w1 (path_join dir n)) names =
      filter (\<lambda>n. docs w' (path_join dir n) \<noteq> docs w (path_join dir n)) names"
    by (rule filter_cong) (simp_all add: other)
  then have "sum_list ns = length (filter (\<lambda>name. docs w' (path_join dir name) \<noteq> docs w (path_join dir name)) (name # names))"
    using l(1) f(2) n k(3) by simp
  moreover have "settled (docs w') dir name" using f(1) repair_cong(1) [of "docs w'" dir name "docs w1", OF n] by simp
  ultimately show ?case using l(2,3) f(3) by auto
qed

lemma settled_loop:
  "\<forall>name \<in> set names. settled (docs w) dir name \<Longrightarrow> for_each (\<lambda>_. reclassify_file dir) i names w = Some (Inr (map (\<lambda>_. 0) names), w)"
  by (induction names arbitrary: i) (simp_all add: settled_step seqp_def ret_def)

text \<open>
  C37. The repair of classifications. If the files of a directory are named after their records, a
  repair that returns reports exactly how many documents it changed; it touches no other document; every
  record of the survey then carries the class and the selection type that its own lists of groups and
  its own server give; and a second repair returns 0 and leaves the world as it is.
\<close>

theorem reclassify_repairs:
  assumes "reclassify dir names w = Some (Inr n, w')" "distinct names" "list_all (named_after_record (docs w) dir) names"
  shows "n = length (filter (\<lambda>name. docs w' (path_join dir name) \<noteq> docs w (path_join dir name)) names) \<and>
    (\<forall>p. p \<notin> path_join dir ` set names \<longrightarrow> docs w' p = docs w p) \<and> list_all (settled (docs w') dir) names \<and>
    reclassify dir names w' = Some (Inr 0, w')"
proof -
  obtain ns where ns: "for_each (\<lambda>_. reclassify_file dir) 0 (sort names) w = Some (Inr ns, w')" "n = sum_list ns"
    using assms(1) by (auto simp: reclassify_def seqp_Inr ret_def)
  have d: "distinct (sort names)" "\<forall>name \<in> set (sort names). named_after_record (docs w) dir name"
    using assms(2,3) by (simp_all add: list_all_iff)
  note l = reclassify_loop [OF ns(1) d]
  have "mset (filter P (sort names)) = mset (filter P names)" for P by (simp only: mset_filter mset_sort)
  then have len: "length (filter P (sort names)) = length (filter P names)" for P by (rule mset_eq_length)
  have s: "\<forall>name \<in> set (sort names). settled (docs w') dir name" using l by blast
  have "sum_list (map (\<lambda>_. 0 :: nat) (sort names)) = 0" by (induction names) simp_all
  then have "reclassify dir names w' = Some (Inr 0, w')"
    unfolding reclassify_def seqp_def settled_loop [OF s] by (simp add: ret_def)
  then show ?thesis using l s unfolding ns(2) len set_sort list_all_iff by blast
qed

section \<open>Concrete runs\<close>

definition demo_survey_record :: RunRecord where
  "demo_survey_record = \<lparr>rec_run_id = ''a'', implementation = ''openssl'', fault_type = ''client-default-v18'', repetition = 1,
     rec_condition = ''go'', metrics = new_metrics None False False ''success'', manipulation_verified = True, artifacts = [],
     provenance = [(''client_hello_groups'', jstrs [''X25519'', ''X25519MLKEM768'']), (''client_hello_key_shares'', jstrs [''X25519'']),
       (''classification'', JStr ''C2-hybrid-first-share-omitted'')], audit = []\<rparr>"

theorem reclassify_repairs_witness:
  "\<exists>w'. reclassify ''out'' [''a.json''] (empty_world\<lparr>docs := [''out/a.json'' \<mapsto> asdict_record demo_survey_record]\<rparr>) = Some (Inr 1, w') \<and>
     reclassify ''out'' [''a.json''] w' = Some (Inr 0, w') \<and>
     classify [''X25519'', ''X25519MLKEM768''] [''X25519''] = ''C3-classical-first-share''"
proof -
  let ?w = "empty_world\<lparr>docs := [''out/a.json'' \<mapsto> asdict_record demo_survey_record]\<rparr>"
  have c: "classify [''X25519'', ''X25519MLKEM768''] [''X25519''] = ''C3-classical-first-share''" by code_simp
  have nm: "path_join ''out'' ''a.json'' = ''out/a.json''" "''a.json'' \<noteq> INVENTORY_NAME" by (simp_all add: path_join_def INVENTORY_NAME_def)
  have named: "list_all (named_after_record (docs ?w) ''out'') [''a.json'']"
    by (simp add: named_after_record_def nm demo_survey_record_def)
  have "\<exists>w'. reclassify_file ''out'' ''a.json'' ?w = Some (Inr 1, w')"
    by (simp add: reclassify_file_def nm SURVEY_TYPES_def reclassified_def demo_survey_record_def strs_at_def look_def jstrs_def
        store_record_result seqp_def ret_def lift_result_def c)
  then obtain w' where "reclassify_file ''out'' ''a.json'' ?w = Some (Inr 1, w')" ..
  then have r: "reclassify ''out'' [''a.json''] ?w = Some (Inr 1, w')" by (simp add: reclassify_def seqp_def ret_def)
  have "distinct [''a.json'']" by simp
  from reclassify_repairs [OF r this named] r c show ?thesis by blast
qed

lemma evaluated_v18_returns:
  assumes "artifacts r = scenario_artifacts sp cap" "client \<in> fst ` set CANDIDATES"
  shows "\<exists>r'. evaluated_v18 sha256 environ d dir client DEFAULT_SERVER r = Inr r'"
proof -
  obtain p where "artifact_file r dir ''pcap'' = Inr p" using artifact_file_returns [OF assms(1)] by blast
  moreover have "\<exists>s. read_summary d p = Inr s" using summarize_hellos_concat by (auto simp: read_summary_def split: option.splits)
  moreover have "\<exists>c. look (map_of CANDIDATES) client = Inr c" using assms(2) by (auto simp: look_def CANDIDATES_def)
  ultimately show ?thesis unfolding evaluated_v18_def by (auto simp: Let_def)
qed

lemma inventory_returns:
  assumes "\<forall>cmd. \<exists>v. versions cmd = Inr v"
  shows "\<exists>rows. inventory versions sha256 d = Inr rows"
proof -
  have "\<exists>row. inventory_row versions sha256 d c = Inr row" for c
  proof -
    obtain out err where "versions (cd_version c) = Inr (out, err)" using assms by (metis surj_pair)
    then show ?thesis by (simp add: inventory_row_def version_of_def)
  qed
  then have "\<exists>y. (case nc of (name, c) \<Rightarrow> rbind (inventory_row versions sha256 d c) (\<lambda>row. Inr (name, row))) = Inr y" for nc :: "string \<times> candidate"
    by (cases nc) (metis prod.case rbind_simps(2))
  then show ?thesis unfolding inventory_def by (intro rmap_returns)
qed

lemma run_v18_completes:
  assumes "clients = Some selected" "selected \<noteq> []" "set selected \<subseteq> fst ` set CANDIDATES" "\<forall>cmd. \<exists>v. versions cmd = Inr v"
    and "\<forall>i. bench_works (envs i) PORT" "filter (\<lambda>client. list_ex (survey_pattern client) listing) selected = []"
  shows "\<exists>rs w'. run_v18 envs disks versions sha256 environ listing n out_dir clients w = Some (Inr rs, w')"
proof -
  have step: "\<exists>r w'. v18_step_run envs disks sha256 environ out_dir i x w = Some (Inr r, w')"
    if x: "x \<in> set (List.product [1..<n + 1] selected)" for i x w
  proof -
    have c: "snd x \<in> fst ` set CANDIDATES" using x assms(3) by auto
    have "\<exists>cand. look (map_of CANDIDATES) (snd x) = Inr cand" using c by (auto simp: look_def CANDIDATES_def)
    moreover have "\<exists>e. native_environment environ ''3.5.6'' = Inr e" using native_environment_returns [of "''3.5.6''"] by (simp add: PREFIX_def)
    ultimately obtain sp where sp: "survey_spec_v18 environ (snd x) (fst x) out_dir = Inr sp" by (auto simp: survey_spec_v18_def)
    note f = survey_spec_v18_fields [OF sp]
    have "good_bench (envs i) sp" by (rule good_benchI) (use assms(5) f(7,8) in simp_all)
    moreover have "GROUP_RE (sp_impl sp) \<noteq> None" by (simp add: f(1) GROUP_RE_def)
    ultimately obtain r w1 where r: "run_scenario (envs i) sp w = Some (Inr r, w1)" "artifacts r = scenario_artifacts sp (sp_capture_traffic sp)"
      using run_scenario_returns by blast
    obtain r' where "evaluated_v18 sha256 environ (disks i) out_dir (snd x) DEFAULT_SERVER r = Inr r'"
      using evaluated_v18_returns [OF r(2) c] by blast
    then show ?thesis by (simp add: v18_step_run_def sp seqp_def [of "run_scenario (envs i) sp"] r(1) evaluate_v18_def store_record_result)
  qed
  obtain rows where "inventory versions sha256 (disks 0) = Inr rows" using inventory_returns [OF assms(4)] by blast
  then obtain w1 where w1: "write_inventory versions sha256 (disks 0) out_dir w = Some (Inr (path_join out_dir INVENTORY_NAME), w1)"
    by (simp add: write_inventory_def ret_def)
  have "\<exists>rs w'. for_each (v18_step_run envs disks sha256 environ out_dir) 0 (List.product [1..<n + 1] selected) w1 = Some (Inr rs, w') \<and>
      length rs = length (List.product [1..<n + 1] selected)"
    by (rule for_each_returns) (rule step)
  then obtain rs w' where "for_each (v18_step_run envs disks sha256 environ out_dir) 0 (List.product [1..<n + 1] selected) w1 = Some (Inr rs, w')"
    by blast
  moreover have "or_default clients (\<lambda>c. c \<noteq> []) (map fst CANDIDATES) = selected" using assms(1,2) by (simp add: or_default_def)
  ultimately show ?thesis using assms(1,6) by (simp add: run_v18_def Let_def seqp_def [of "write_inventory versions sha256 (disks 0) out_dir"] w1)
qed

theorem survey_never_overwrites_witness:
  "\<exists>rs w'. run_v18 (\<lambda>_. working_env ([], [], 0)) (\<lambda>_. \<lparr>disk_bytes = \<lambda>_. None, disk_texts = Map.empty\<rparr>) (\<lambda>_. Inr ([], [])) (\<lambda>_. []) []
      [''openssl_client-default-v18_r01_java.json''] 2 ''out'' (Some [''gnutls'', ''botan''])
      (empty_world\<lparr>docs := [''out/openssl_client-default-v18_r01_java.json'' \<mapsto> []]\<rparr>) = Some (Inr rs, w') \<and>
    docs w' ''out/openssl_client-default-v18_r01_java.json'' = Some []"
proof -
  let ?l = "[''openssl_client-default-v18_r01_java.json'']"
  let ?w = "empty_world\<lparr>docs := [''out/openssl_client-default-v18_r01_java.json'' \<mapsto> []]\<rparr>"
  have sel: "set [''gnutls'', ''botan''] \<subseteq> fst ` set CANDIDATES" by (simp add: CANDIDATES_def)
  have ex: "filter (\<lambda>client. list_ex (survey_pattern client) ?l) [''gnutls'', ''botan''] = []" by code_simp
  have vers: "\<forall>cmd :: string list. \<exists>v. (Inr ([], []) :: (string \<times> string) result) = Inr v" by blast
  have bench: "\<forall>i :: nat. bench_works (working_env ([], [], 0)) PORT" by simp
  from run_v18_completes [OF refl _ sel vers bench ex] obtain rs w' where r: "run_v18 (\<lambda>_. working_env ([], [], 0))
      (\<lambda>_. \<lparr>disk_bytes = \<lambda>_. None, disk_texts = Map.empty\<rparr>) (\<lambda>_. Inr ([], [])) (\<lambda>_. []) [] ?l 2 ''out''
      (Some [''gnutls'', ''botan'']) ?w = Some (Inr rs, w')" by blast
  have "name \<in> set ?l" if "docs ?w (path_join ''out'' name) \<noteq> None" for name
    using that by (simp add: path_join_def split: if_splits)
  moreover have "docs ?w ''out/openssl_client-default-v18_r01_java.json'' = Some []" by simp
  moreover have "''out/openssl_client-default-v18_r01_java.json'' \<noteq> path_join ''out'' INVENTORY_NAME" by (simp add: path_join_def INVENTORY_NAME_def)
  ultimately have "docs w' ''out/openssl_client-default-v18_r01_java.json'' = Some []"
    using survey_never_overwrites [OF disjI1 [OF r]] by blast
  then show ?thesis using r by blast
qed

end
