(* ===== verification/Browser_Trace.thy ===== *)
theory Browser_Trace
  imports Client_Defaults
begin

text \<open>
  Model of \<open>tools/faultinject/v17.py\<close>: two headless browsers against the survey server, the conditions of
  the CVE rerun with \<open>s_client -trace\<close>, and the reading of the two verbose outputs (\<open>-trace\<close> and
  \<open>tshark -V\<close>). \<open>re.findall\<close>, \<open>re.split\<close> with one split and \<open>str.split\<close> with a longer separator are
  added to the fragment of \<open>re\<close>.

  The theorems: a log in which the client printed its groups, and the server its own, is read back
  exactly; the two runs keep every document that is not theirs and store what they return.
\<close>

section \<open>Definitions\<close>

text \<open>
  \<open>re.findall\<close> and \<open>re.finditer\<close>: the captured groups of the matches from left to right, each search
  beginning where the match in front of it ended.
\<close>

function find_all :: "(char option \<Rightarrow> bool) \<Rightarrow> rx \<Rightarrow> char option \<Rightarrow> string \<Rightarrow> string list list" where
  "find_all ok r prev s =
     (case if ok prev then matches r s else [] of
        (g, t) # _ \<Rightarrow>
          if length t < length s then g # find_all ok r (Some (s ! (length s - length t - 1))) t
          else g # (case s of [] \<Rightarrow> [] | c # cs \<Rightarrow> find_all ok r (Some c) cs)
      | [] \<Rightarrow> (case s of [] \<Rightarrow> [] | c # cs \<Rightarrow> find_all ok r (Some c) cs))"
  by pat_completeness auto
termination by (relation "measure (\<lambda>(ok, r, prev, s). length s)") auto

declare find_all.simps [simp del]

text \<open>\<open>re.split(pattern, s, maxsplit=1)[0]\<close>.\<close>

fun before_match :: "rx \<Rightarrow> string \<Rightarrow> string" where
  "before_match r s = (case matches r s of _ # _ \<Rightarrow> []
     | [] \<Rightarrow> (case s of [] \<Rightarrow> [] | c # cs \<Rightarrow> c # before_match r cs))"

declare before_match.simps [simp del]

text \<open>\<open>s.split(sep)\<close> and \<open>s.partition(sep)\<close> for a separator that is not empty.\<close>

lemma split_first_length: "split_first sep s = Some (a, b) \<Longrightarrow> length a + length sep + length b = length s"
proof (induction s arbitrary: a)
  case (Cons c s)
  show ?case
  proof (cases "starts_with sep (c # s)")
    case True
    then obtain u where "c # s = sep @ u" by (auto simp: starts_with_iff)
    then have "length (c # s) = length sep + length u" by (simp only: length_append)
    then show ?thesis using Cons.prems True by auto
  qed (use Cons in \<open>auto split: option.splits\<close>)
qed (auto split: if_splits)

function split_all :: "string \<Rightarrow> string \<Rightarrow> string list" where
  "split_all sep s = (if sep = [] then [s] else case split_first sep s of None \<Rightarrow> [s] | Some (a, b) \<Rightarrow> a # split_all sep b)"
  by pat_completeness auto
termination
proof (relation "measure (\<lambda>(sep, s). length s)")
  fix sep s a b and ab :: "string \<times> string" assume "sep \<noteq> []" "split_first sep s = Some ab" "(a, b) = ab"
  then have "length a + length sep + length b = length s" "0 < length sep" using split_first_length by auto
  then have "length b < length s" by linarith
  then show "((sep, b), (sep, s)) \<in> measure (\<lambda>(sep, s). length s)" by simp
qed simp

declare split_all.simps [simp del]

definition partition_at :: "string \<Rightarrow> string \<Rightarrow> string \<times> string" where
  "partition_at sep s = (case split_first sep s of None \<Rightarrow> (s, []) | Some ab \<Rightarrow> ab)"

text \<open>The conditions of \<open>^\<close> and \<open>$\<close> under \<open>re.M\<close>, and no condition.\<close>

definition line_starts :: "char option \<Rightarrow> bool" where "line_starts prev = (prev = None \<or> prev = Some CHR 0x0A)"
definition line_end :: "string \<Rightarrow> bool" where "line_end s = (case s of [] \<Rightarrow> True | c # _ \<Rightarrow> c = CHR 0x0A)"
definition anywhere :: "char option \<Rightarrow> bool" where "anywhere _ = True"

definition is_digit :: "char \<Rightarrow> bool" where
  "is_digit c = (let n = of_char c :: nat in 48 \<le> n \<and> n \<le> 57)"

subsection \<open>Browsers and trace reruns\<close>

definition V17 :: string where "V17 = PHASE2_ROOT @ ''/v17''"
definition URL :: string where "URL = ''https://127.0.0.1:'' @ dec PORT @ ''/''"
definition CHROME :: string where "CHROME = V17 @ ''/chrome-headless-shell-linux64/chrome-headless-shell''"
definition FIREFOX :: string where "FIREFOX = V17 @ ''/firefox/firefox''"

definition BROWSERS :: "(string \<times> string list) list" where
  "BROWSERS = [
     (''chrome'', [''timeout'', ''20'', CHROME, ''--no-sandbox'', ''--ignore-certificate-errors'', ''--dump-dom'', URL]),
     (''firefox'', [''timeout'', ''25'', FIREFOX, ''--headless'', ''--no-remote'', ''--profile'', V17 @ ''/ffprofile'',
        ''--screenshot'', V17 @ ''/firefox.png'', URL])]"

definition TRACE_CONDITIONS :: "(string \<times> string) list" where
  "TRACE_CONDITIONS = [(''3.5.5'', ''S1''), (''3.5.5'', ''S3''), (''3.5.6'', ''S3'')]"

definition v17_output_dir :: "string \<Rightarrow> string" where
  "v17_output_dir repo = repo @ ''/docs/research/baselines/raw/v1.7''"

definition browser_spec :: "environ \<Rightarrow> string \<Rightarrow> nat \<Rightarrow> string \<Rightarrow> ScenarioSpec result" where
  "browser_spec environ browser rep out_dir =
     rbind (look (map_of BROWSERS) browser) (\<lambda>cmd.
     rbind (native_environment environ ''3.5.6'') (\<lambda>senv.
       Inr ((new_spec ''openssl'' ''client-default'' rep browser SURVEY_SERVER cmd PORT (clean_env environ) out_dir)
         \<lparr>sp_capture_traffic := True, sp_server_env := Some senv, sp_capture_seconds := 30\<rparr>)))"

definition trace_spec :: "environ \<Rightarrow> string \<Rightarrow> string \<Rightarrow> nat \<Rightarrow> string \<Rightarrow> path_dict \<Rightarrow> ScenarioSpec result" where
  "trace_spec environ version setting rep out_dir paths =
     rbind (v12_spec environ version setting rep out_dir paths CLIENT_GROUPS_V12) (\<lambda>sp.
       Inr (sp\<lparr>sp_fault_type := ''server-setting-trace'',
         sp_client_cmd := map (\<lambda>arg. if arg \<noteq> ''-msg'' then arg else ''-trace'') (sp_client_cmd sp)\<rparr>))"

subsection \<open>The trace log\<close>

definition TRACE_GROUP_RE :: rx where
  "TRACE_GROUP_RE = Seq (Rep True 1 is_space) (Seq (Grp (Rep False 1 not_newline)) (Seq (lit '' ('')
     (Seq (Grp (Rep True 1 is_digit)) (Seq (lit '')'') (Seq spaces (Ahead line_end))))))"

text \<open>The pattern at which the block of a group list is cut.\<close>

definition BLOCK_END_RE :: rx where
  "BLOCK_END_RE = Seq (lit nl) (Seq spaces (Alt (lit ''extension_type='') (Seq non_spaces (lit '' TLS Record''))))"

definition SUPPORTED_MARK :: string where "SUPPORTED_MARK = ''extension_type=supported_groups''"

definition trace_groups :: "string \<Rightarrow> string list" where
  "trace_groups section = (case split_first SUPPORTED_MARK section of None \<Rightarrow> []
     | Some (_, after) \<Rightarrow>
       let block = (case split_first nl after of None \<Rightarrow> after | Some (_, b) \<Rightarrow> b) in
       map hd (find_all line_starts TRACE_GROUP_RE None (before_match BLOCK_END_RE block)))"

record trace_report =
  advertised_groups :: "string list"
  server_groups :: "string list"
  trace_negotiated :: "string option"
  single_output :: bool
  explicit_warning :: bool
  warning_text :: json

definition trace_audit :: "string \<Rightarrow> trace_report result" where
  "trace_audit text =
     (let advertised = trace_groups (fst (partition_at ''ServerHello, Length='' text));
          server_part = snd (partition_at ''EncryptedExtensions, Length='' text) in
      rbind (parse_group ''openssl'' text) (\<lambda>negotiated.
      let warning = search_at word_starts WARNING_RE None text in
      Inr \<lparr>advertised_groups = advertised, server_groups = trace_groups server_part, trace_negotiated = negotiated,
        single_output = (advertised \<noteq> [] \<and> negotiated \<noteq> None \<and> negotiated \<noteq> Some []),
        explicit_warning = (warning \<noteq> None), warning_text = group0 warning\<rparr>))"

definition trace_json :: "trace_report \<Rightarrow> dict" where
  "trace_json t = [(''advertised_groups'', jstrs (advertised_groups t)), (''server_groups'', jstrs (server_groups t)),
     (''negotiated_group'', jopt JStr (trace_negotiated t)), (''single_output'', JBool (single_output t)),
     (''explicit_warning'', JBool (explicit_warning t)), (''warning_text'', warning_text t)]"

subsection \<open>The output of \<open>tshark -V\<close>\<close>

definition SUPPORTED_RE :: rx where
  "SUPPORTED_RE = Seq (lit ''Supported Group: '') (Seq (Grp non_spaces) (Seq (lit '' (0x'')
     (Seq (Chr is_hex) (Seq (Chr is_hex) (Seq (Chr is_hex) (Seq (Chr is_hex) (lit '')'')))))))"

definition KEY_SHARE_RE :: rx where
  "KEY_SHARE_RE = Seq (lit ''Key Share Entry: Group: '') (Seq (Grp (Rep True 1 (\<lambda>c. c \<noteq> CHR '',''))) (lit '',''))"

definition EXPERT_RE :: rx where
  "EXPERT_RE = Seq (lit ''[Expert Info ('') (Seq (Grp (Alt (lit ''Warning'') (lit ''Error''))) (Seq (lit ''/'')
     (Seq (Grp (Rep True 0 (\<lambda>c. c \<noteq> CHR '')''))) (Seq (lit ''): '') (Seq (Grp (Rep True 0 (\<lambda>c. c \<noteq> CHR '']''))) (lit '']''))))))"

record verbose_report =
  vb_advertised :: "string list"
  vb_negotiated :: "string option"
  vb_single :: bool
  vb_warning :: bool
  vb_text :: json

definition verbose_audit :: "string \<Rightarrow> verbose_report" where
  "verbose_audit text =
     (let frames = split_all ''Handshake Type: '' text;
          client = (case find (starts_with ''Client Hello'') frames of Some f \<Rightarrow> f | None \<Rightarrow> []);
          shares = map (\<lambda>f. concat (find_all anywhere KEY_SHARE_RE None f)) (filter (starts_with ''Server Hello'') frames);
          last_shares = (if shares = [] then [] else last shares);
          experts = filter (\<lambda>e. e ! 1 \<noteq> ''Sequence'') (find_all anywhere EXPERT_RE None text) in
      \<lparr>vb_advertised = concat (find_all anywhere SUPPORTED_RE None client),
       vb_negotiated = (if last_shares = [] then None else Some (last last_shares)),
       vb_single = (search SUPPORTED_RE client \<noteq> None \<and> last_shares \<noteq> []),
       vb_warning = (search_at word_starts WARNING_RE None text \<noteq> None \<or> experts \<noteq> []),
       vb_text = (if experts = [] then JNull else jstrs (map (join '': '') experts))\<rparr>)"

definition verbose_json :: "verbose_report \<Rightarrow> dict" where
  "verbose_json v = [(''advertised_groups'', jstrs (vb_advertised v)), (''negotiated_group'', jopt JStr (vb_negotiated v)),
     (''single_output'', JBool (vb_single v)), (''explicit_warning'', JBool (vb_warning v)), (''warning_text'', vb_text v)]"

definition tshark_verbose :: "runner \<Rightarrow> string \<Rightarrow> string option result" where
  "tshark_verbose runner pcap = rbind (runner [''tshark'', ''-r'', pcap, ''-V'']) (\<lambda>(returncode, stdout).
     Inr (if returncode = 0 then Some stdout else None))"

subsection \<open>The runs\<close>

text \<open>
  \<open>record.provenance.update(browser=True, binary_sha256=...)\<close> on the record that \<open>evaluate_v16\<close> has
  written, which is then written again.
\<close>

definition evaluate_browser :: "(bytes \<Rightarrow> string) \<Rightarrow> disk \<Rightarrow> string \<Rightarrow> string \<Rightarrow> ScenarioSpec \<Rightarrow> RunRecord \<Rightarrow> RunRecord prog" where
  "evaluate_browser sha256 d out_dir browser sp r =
     seqp (evaluate_v16 sha256 d out_dir sp r) (\<lambda>r.
     seqp (lift_result (look (map_of BROWSERS) browser)) (\<lambda>cmd.
       if length cmd \<le> 2 then raise IndexError else
       store_record out_dir (r\<lparr>provenance := dict_set ''binary_sha256'' (jopt JStr (sha256_file sha256 d (cmd ! 2)))
         (dict_set ''browser'' (JBool True) (provenance r))\<rparr>)))"

definition browser_step_run :: "(nat \<Rightarrow> run_env) \<Rightarrow> (nat \<Rightarrow> disk) \<Rightarrow> (bytes \<Rightarrow> string) \<Rightarrow> environ \<Rightarrow> string \<Rightarrow> nat \<Rightarrow> nat \<times> string \<Rightarrow> RunRecord prog" where
  "browser_step_run envs disks sha256 environ out_dir i x =
     seqp (lift_result (browser_spec environ (snd x) (fst x) out_dir)) (\<lambda>sp.
     seqp (run_scenario (envs i) sp) (\<lambda>r. evaluate_browser sha256 (disks i) out_dir (snd x) sp r))"

definition run_browsers :: "(nat \<Rightarrow> run_env) \<Rightarrow> (nat \<Rightarrow> disk) \<Rightarrow> (bytes \<Rightarrow> string) \<Rightarrow> environ \<Rightarrow> nat \<Rightarrow> string \<Rightarrow> RunRecord list prog" where
  "run_browsers envs disks sha256 environ reps out_dir =
     for_each (browser_step_run envs disks sha256 environ out_dir) 0 (List.product [1..<reps + 1] (map fst BROWSERS))"

text \<open>\<open>{**record.audit, "trace": trace_audit(...)}\<close>.\<close>

definition with_trace :: "files \<Rightarrow> string \<Rightarrow> RunRecord \<Rightarrow> RunRecord result" where
  "with_trace fs out_dir r =
     rbind (artifact_path r out_dir ''client_log'') (\<lambda>log.
     rbind (read_text fs log) (\<lambda>t.
     rbind (trace_audit t) (\<lambda>report.
       Inr (r\<lparr>audit := dict_set ''trace'' (JObj (trace_json report)) (audit r)\<rparr>))))"

definition evaluate_trace :: "runner \<Rightarrow> disk \<Rightarrow> string \<Rightarrow> path_dict \<Rightarrow> (string \<times> string option) list \<Rightarrow> ScenarioSpec \<Rightarrow> RunRecord \<Rightarrow> RunRecord prog" where
  "evaluate_trace runner d out_dir paths hashes sp r =
     seqp (lift_result (provenance_for sp paths hashes)) (\<lambda>prov.
     seqp (evaluate_v12 runner d out_dir prov r) (\<lambda>r w.
     seqp (lift_result (with_trace (visible_texts d w) out_dir r)) (store_record out_dir) w))"

definition trace_step_run :: "(nat \<Rightarrow> run_env) \<Rightarrow> (nat \<Rightarrow> disk) \<Rightarrow> (nat \<Rightarrow> runner) \<Rightarrow> environ \<Rightarrow> string \<Rightarrow> path_dict \<Rightarrow>
    (string \<times> string option) list \<Rightarrow> nat \<Rightarrow> nat \<times> string \<times> string \<Rightarrow> RunRecord prog" where
  "trace_step_run envs disks runners environ out_dir paths hashes i x =
     seqp (lift_result (trace_spec environ (fst (snd x)) (snd (snd x)) (fst x) out_dir paths)) (\<lambda>sp.
     seqp (run_scenario (envs i) sp) (\<lambda>r. evaluate_trace (runners i) (disks i) out_dir paths hashes sp r))"

text \<open>\<open>tuple(dict.fromkeys(v for v, _ in TRACE_CONDITIONS))\<close>.\<close>

definition trace_versions :: "string list" where "trace_versions = rev (remdups (rev (map fst TRACE_CONDITIONS)))"

definition run_trace :: "(nat \<Rightarrow> run_env) \<Rightarrow> (nat \<Rightarrow> disk) \<Rightarrow> (nat \<Rightarrow> runner) \<Rightarrow> (bytes \<Rightarrow> string) \<Rightarrow> environ \<Rightarrow> nat \<Rightarrow> string \<Rightarrow> RunRecord list prog" where
  "run_trace envs disks runners sha256 environ reps out_dir =
     seqp (lift_result (v12_paths trace_versions)) (\<lambda>paths.
     seqp (lift_result (v12_hashes sha256 (disks 0) paths trace_versions)) (\<lambda>hashes.
       for_each (trace_step_run envs disks runners environ out_dir paths hashes) 0 (List.product [1..<reps + 1] TRACE_CONDITIONS)))"

subsection \<open>The pass over preserved captures\<close>

text \<open>\<open>Path(run_dir).name\<close> of a path that does not end in a separator.\<close>

definition base_name :: "string \<Rightarrow> string" where "base_name p = last (split_char CHR ''/'' p)"

definition verbose_row :: "runner \<Rightarrow> disk \<Rightarrow> string \<Rightarrow> RunRecord \<Rightarrow> dict result" where
  "verbose_row runner d run_dir r =
     rbind (artifact_file r run_dir ''pcap'') (\<lambda>pcap.
     rbind (if disk_bytes d pcap \<noteq> None then tshark_verbose runner pcap else Inr None) (\<lambda>text.
       Inr ([(''run_dir'', JStr (base_name run_dir)), (''run_id'', JStr (rec_run_id r)),
           (''final_group_recorded'', jopt JStr (final_negotiated_group (metrics r)))] @
         (case text of Some t \<Rightarrow> verbose_json (verbose_audit t) | None \<Rightarrow> [(''error'', JStr ''no pcap or tshark failed'')]))))"

text \<open>\<open>store\<close> holds the JSON documents outside the run directories.\<close>

definition verbose_pass :: "runner \<Rightarrow> disk \<Rightarrow> (string \<times> run_dir) list \<Rightarrow> string \<Rightarrow> (string \<rightharpoonup> json) \<Rightarrow> (dict list \<times> (string \<rightharpoonup> json)) result" where
  "verbose_pass runner d dirs out_path store =
     rbind (rconcat_map (\<lambda>(dir, files). rmap (\<lambda>f. rbind (from_json (snd f)) (verbose_row runner d dir)) (sort_key fst files)) dirs) (\<lambda>rows.
       Inr (rows, store(out_path \<mapsto> JList (map JObj rows))))"

subsection \<open>The report\<close>

record trace_counts =
  tc_n :: nat
  tc_final :: "string list"
  tc_hrr :: nat
  tc_adv :: "string list"
  tc_srv :: "string list"
  tc_single :: nat
  tc_warn :: nat

definition trace_zero :: trace_counts where
  "trace_zero = \<lparr>tc_n = 0, tc_final = [], tc_hrr = 0, tc_adv = [], tc_srv = [], tc_single = 0, tc_warn = 0\<rparr>"

definition trace_count :: "RunRecord \<Rightarrow> trace_report \<Rightarrow> trace_counts \<Rightarrow> trace_counts" where
  "trace_count r t c = (let m = metrics r in
     c\<lparr>tc_n := tc_n c + 1, tc_final := List.insert (case final_negotiated_group m of Some g \<Rightarrow> g | None \<Rightarrow> ''None'') (tc_final c),
       tc_hrr := tc_hrr c + of_bool (hrr_pcap_present m = Some True),
       tc_adv := List.insert (join '','' (advertised_groups t)) (tc_adv c),
       tc_srv := List.insert (join '','' (server_groups t)) (tc_srv c),
       tc_single := tc_single c + of_bool (single_output t), tc_warn := tc_warn c + of_bool (explicit_warning t)\<rparr>)"

definition trace_item :: "files \<Rightarrow> string \<Rightarrow> RunRecord \<Rightarrow> (RunRecord \<times> trace_report) option result" where
  "trace_item fs run_dir r =
     (if fault_type r \<noteq> ''server-setting-trace'' then Inr None else
      rbind (artifact_path r run_dir ''client_log'') (\<lambda>log. rbind (read_text fs log) (\<lambda>t. rbind (trace_audit t) (\<lambda>report.
        Inr (Some (r, report))))))"

definition trace_table :: "(RunRecord \<times> trace_report) list \<Rightarrow> (string \<times> trace_counts) list" where
  "trace_table items = fold (\<lambda>(r, t). dict_update (rec_condition r) trace_zero (trace_count r t)) items []"

definition trace_line :: "string \<times> trace_counts \<Rightarrow> string" where
  "trace_line = (\<lambda>(k, v). ''| '' @ k @ '' | '' @ dec (tc_n v) @ '' | '' @ join ''/'' (sort (tc_final v)) @ '' | '' @ dec (tc_hrr v) @ '' | '' @
     join '' / '' (sort (tc_adv v)) @ '' | '' @ join '' / '' (sort (tc_srv v)) @ '' | '' @ dec (tc_single v) @ '' | '' @ dec (tc_warn v) @ '' |'')"

text \<open>\<open>str.lower\<close> for code points below 256.\<close>

definition lower_latin :: "char \<Rightarrow> char" where
  "lower_latin c = (let n = of_char c :: nat in
     if 65 \<le> n \<and> n \<le> 90 \<or> 0xC0 \<le> n \<and> n \<le> 0xDE \<and> n \<noteq> 0xD7 then char_of (n + 32) else c)"

definition same_group :: "json option \<Rightarrow> json option \<Rightarrow> bool result" where
  "same_group name recorded =
     (if \<not> jtruthy name then Inr False else if \<not> jtruthy recorded then Inr False else
      rbind (as_str (the name)) (\<lambda>a. rbind (as_str (the recorded)) (\<lambda>b. Inr (map lower_latin a = map lower_latin b))))"

definition verbose_count :: "dict \<Rightarrow> nat list \<Rightarrow> nat list result" where
  "verbose_count row c =
     rbind (same_group (map_of row ''negotiated_group'') (map_of row ''final_group_recorded'')) (\<lambda>same.
       Inr (map2 (+) c [1, of_bool (jtruthy (map_of row ''advertised_groups'')), of_bool (jtruthy (map_of row ''negotiated_group'')),
         of_bool (jtruthy (map_of row ''single_output'')), of_bool same, of_bool (jtruthy (map_of row ''explicit_warning''))]))"

definition count_row :: "json \<Rightarrow> (string \<times> nat list) list \<Rightarrow> (string \<times> nat list) list result" where
  "count_row row by_dir = rbind (as_dict row) (\<lambda>row. rbind (str_at row ''run_dir'') (\<lambda>dir.
     rbind (verbose_count row (case map_of by_dir dir of Some c \<Rightarrow> c | None \<Rightarrow> replicate 6 0)) (\<lambda>c. Inr (dict_set dir c by_dir))))"

fun count_rows :: "json list \<Rightarrow> (string \<times> nat list) list \<Rightarrow> (string \<times> nat list) list result" where
  "count_rows [] by_dir = Inr by_dir"
| "count_rows (row # rows) by_dir = rbind (count_row row by_dir) (count_rows rows)"

definition verbose_line :: "string \<times> nat list \<Rightarrow> string" where
  "verbose_line = (\<lambda>(d, c). ''| '' @ d @ '' | '' @ join '' | '' (map dec c) @ '' |'')"

fun json_items :: "json \<Rightarrow> json list result" where "json_items (JList js) = Inr js" | "json_items _ = bad_type"

definition verbose_section :: "(string \<rightharpoonup> json) \<Rightarrow> string option \<Rightarrow> string list result" where
  "verbose_section store verbose_path = (case verbose_path of None \<Rightarrow> Inr [] | Some p \<Rightarrow>
     (case store p of None \<Rightarrow> Inr [] | Some j \<Rightarrow>
       rbind (json_items j) (\<lambda>rows. rbind (count_rows rows []) (\<lambda>by_dir.
         Inr (['''', ''## tshark -V (preserved pcaps)'',
           ''| run dir | pcaps | advertised visible | negotiated visible | single output | negotiated = recorded | TLS warning |'',
           ''|---|---:|---:|---:|---:|---:|---:|''] @ map verbose_line (sort_key fst by_dir))))))"

definition render_v17 :: "files \<Rightarrow> (string \<rightharpoonup> json) \<Rightarrow> string \<Rightarrow> run_dir \<Rightarrow> string option \<Rightarrow> string result" where
  "render_v17 fs store dir files verbose_path =
     rbind (render_v16 files) (\<lambda>survey.
     rbind (load_records files) (\<lambda>rs. rbind (rmap (trace_item fs dir) rs) (\<lambda>items.
     rbind (verbose_section store verbose_path) (\<lambda>verbose.
       Inr (join nl ([''## browser survey'', hd (split_all (nl @ nl) survey), '''', ''## s_client -trace'',
           ''| condition | n | final group | HRR (PCAP) | advertised groups in log | server groups in log | single output | warning |'',
           ''|---|---:|---|---:|---|---|---:|---:|''] @
         map trace_line (sort_key fst (trace_table (List.map_filter id items))) @ verbose))))))"

definition preflight_v17 :: "(string \<Rightarrow> bool) \<Rightarrow> (nat \<Rightarrow> bool) \<Rightarrow> bool \<times> string" where
  "preflight_v17 exists port_free =
     (case find (\<lambda>binary. \<not> exists binary) [CHROME, FIREFOX] of
        Some binary \<Rightarrow> (False, ''missing: '' @ binary @ '' (run tools/v17_setup.sh)'')
      | None \<Rightarrow> if \<not> port_free PORT then (False, ''port '' @ dec PORT @ '' in use'') else (True, ''ok''))"

section \<open>Searching, splitting and cutting\<close>

lemma rests_lit: "rests (lit w) s = (if starts_with w s then {drop (length w) s} else {})"
  by (simp add: rests_def matches_lit)

lemma rests_run: "t \<in> rests (Rep g m p) s \<longleftrightarrow> (\<exists>ws. list_all p ws \<and> m \<le> length ws \<and> s = ws @ t)"
proof -
  have "t \<in> rests (Rep g m p) s \<longleftrightarrow> (\<exists>k. m \<le> k \<and> k \<le> length (takeWhile p s) \<and> t = drop k s)" by auto
  also have "\<dots> \<longleftrightarrow> (\<exists>ws. list_all p ws \<and> m \<le> length ws \<and> s = ws @ t)"
  proof
    assume "\<exists>k. m \<le> k \<and> k \<le> length (takeWhile p s) \<and> t = drop k s"
    then obtain k where k: "m \<le> k" "k \<le> length (takeWhile p s)" "t = drop k s" by blast
    have "take k s = take k (takeWhile p s)" using k(2) by (metis append_eq_conv_conj length_takeWhile_le take_take takeWhile_eq_take min_def)
    then have "list_all p (take k s)" by (metis in_set_takeD list_all_iff set_takeWhileD)
    moreover have "k \<le> length s" using k(2) length_takeWhile_le [of p s] by simp
    ultimately show "\<exists>ws. list_all p ws \<and> m \<le> length ws \<and> s = ws @ t" using k(1,3) by (intro exI [of _ "take k s"]) simp
  next
    assume "\<exists>ws. list_all p ws \<and> m \<le> length ws \<and> s = ws @ t"
    then obtain ws where "list_all p ws" "m \<le> length ws" "s = ws @ t" by blast
    then show "\<exists>k. m \<le> k \<and> k \<le> length (takeWhile p s) \<and> t = drop k s"
      by (intro exI [of _ "length ws"]) (simp add: takeWhile_append2 list_all_iff)
  qed
  finally show ?thesis .
qed

lemma rests_spaces: "t \<in> rests spaces s \<longleftrightarrow> (\<exists>ws. list_all is_space ws \<and> s = ws @ t)"
  by (simp add: rests_run del: rests_Rep)

text \<open>The first match of a sequence, given the first match of its first part that the second part can continue.\<close>

lemma matches_Seq_hd:
  assumes "matches a s = xs @ (g, t) # ys" "\<forall>x \<in> set xs. matches b (snd x) = []" "matches b t = (h, u) # zs"
  shows "\<exists>ms. matches (Seq a b) s = (g @ h, u) # ms"
proof -
  let ?F = "\<lambda>(g, t). map (\<lambda>(h, u). (g @ h, u)) (matches b t)"
  have "concat (map ?F xs) = []" using assms(2) by (induction xs) (auto simp del: matches.simps split: prod.splits)
  then have "matches (Seq a b) s = ?F (g, t) @ concat (map ?F ys)"
    unfolding matches.simps(3) assms(1) map_append concat_append list.map concat.simps append_Nil by (rule arg_cong2 [where f = append, THEN trans]) simp_all
  then show ?thesis by (simp add: assms(3) del: matches.simps)
qed

lemma matches_lit_Seq: "matches b t = (h, u) # zs \<Longrightarrow> \<exists>ms. matches (Seq (lit w) b) (w @ t) = (h, u) # ms"
  using matches_Seq_hd [of "lit w" "w @ t" "[]" "[]" t "[]" b h u zs] by (simp add: matches_lit del: matches.simps)

text \<open>A greedy repetition takes all it can, if what follows matches there.\<close>

lemma matches_greedy_hd:
  assumes "list_all p w" "t = [] \<or> \<not> p (hd t)" "m \<le> length w"
  shows "\<exists>ys. matches (Rep True m p) (w @ t) = ([], t) # ys"
proof -
  have "takeWhile p (w @ t) = w" using assms(1,2) by (cases t) (auto simp: list_all_iff takeWhile_append2)
  moreover have "rev [m..<Suc (length w)] = length w # rev [m..<length w]" using assms(3) by (simp add: upt_Suc)
  ultimately show ?thesis by (simp del: upt_Suc)
qed

lemma matches_greedy_Seq:
  assumes "list_all p w" "t = [] \<or> \<not> p (hd t)" "m \<le> length w" "matches b t = (h, u) # zs"
  shows "\<exists>ms. matches (Seq (Rep True m p) b) (w @ t) = (h, u) # ms"
proof -
  obtain ys where "matches (Rep True m p) (w @ t) = ([], t) # ys" using matches_greedy_hd [OF assms(1-3)] by blast
  from matches_Seq_hd [where xs = "[]", simplified, OF this assms(4)] show ?thesis by simp
qed

lemma matches_greedy_group:
  assumes "list_all p w" "t = [] \<or> \<not> p (hd t)" "m \<le> length w" "matches b t = (h, u) # zs"
  shows "\<exists>ms. matches (Seq (Grp (Rep True m p)) b) (w @ t) = (w # h, u) # ms"
proof -
  obtain ys where "matches (Rep True m p) (w @ t) = ([], t) # ys" using matches_greedy_hd [OF assms(1-3)] by blast
  then have "matches (Grp (Rep True m p)) (w @ t) = ([w], t) # map (\<lambda>(g, v). (take (length (w @ t) - length v) (w @ t) # g, v)) ys"
    unfolding matches.simps(5) by (simp del: matches.simps)
  from matches_Seq_hd [where xs = "[]", simplified, OF this assms(4)] show ?thesis by simp
qed

lemma matches_lazy: "matches (Grp (Rep False 1 p)) s = map (\<lambda>k. ([take k s], drop k s)) [1..<Suc (length (takeWhile p s))]"
proof -
  have "take (length s - length (drop k s)) s = take k s" if "k < Suc (length (takeWhile p s))" for k
    using that length_takeWhile_le [of p s] by (simp add: le_imp_diff_is_add)
  then show ?thesis by (simp add: Let_def comp_def del: upt_Suc cong: map_cong)
qed

text \<open>A lazy group ends at the first position where what follows matches.\<close>

lemma matches_lazy_group:
  assumes "list_all p w" "w \<noteq> []" "\<And>k. 1 \<le> k \<Longrightarrow> k < length w \<Longrightarrow> matches b (drop k w @ t) = []" "matches b t = (h, u) # zs"
  shows "\<exists>ms. matches (Seq (Grp (Rep False 1 p)) b) (w @ t) = (w # h, u) # ms"
proof -
  let ?n = "length (takeWhile p (w @ t))" and ?x = "\<lambda>k. ([take k (w @ t)], drop k (w @ t))"
  have n: "length w \<le> ?n" using assms(1) by (simp add: takeWhile_append2 list_all_iff)
  have "matches (Grp (Rep False 1 p)) (w @ t) = map ?x [1..<Suc ?n]"
    by (rule matches_lazy)
  also have "[1..<Suc ?n] = [1..<length w] @ length w # [Suc (length w)..<Suc ?n]"
    using n assms(2) upt_add_eq_append [of 1 "length w" "Suc ?n - length w"] upt_conv_Cons [of "length w" "Suc ?n"] by (cases w) simp_all
  finally have m: "matches (Grp (Rep False 1 p)) (w @ t) = map ?x [1..<length w] @ ([w], t) # map ?x [Suc (length w)..<Suc ?n]"
    by simp
  have "\<forall>y \<in> set (map ?x [1..<length w]). matches b (snd y) = []" using assms(3) by auto
  from matches_Seq_hd [OF m this assms(4)] show ?thesis by simp
qed

lemma before_match_skip:
  assumes "\<And>a b. p = a @ b \<Longrightarrow> b \<noteq> [] \<Longrightarrow> rests r (b @ s) = {}" "rests r s \<noteq> {}"
  shows "before_match r (p @ s) = p"
  using assms(1)
proof (induction p)
  case Nil
  then show ?case using assms(2) by (simp add: before_match.simps matches_ne [symmetric] split: list.split)
next
  case (Cons c p)
  have "matches r (c # p @ s) = []" using Cons.prems [of "[]" "c # p"] matches_ne [of r "c # p @ s"] by simp
  moreover have "before_match r (p @ s) = p" using Cons.prems [of "c # _"] by (intro Cons.IH) auto
  ultimately show ?case by (simp add: before_match.simps [of r "c # p @ s"])
qed

section \<open>Reading a trace log back\<close>

text \<open>What \<open>s_client -trace\<close> prints for a list of groups: a line for the extension, then one line per group.\<close>

definition group_line :: "string \<times> nat \<Rightarrow> string" where
  "group_line gc = replicate 10 CHR '' '' @ fst gc @ '' ('' @ dec (snd gc) @ '')''"

definition group_block :: "string \<Rightarrow> (string \<times> nat) list \<Rightarrow> string" where
  "group_block header gcs = SUPPORTED_MARK @ header @ nl @ join nl (map group_line gcs)"

text \<open>
  A name of a group, as the list prints it. It may contain blanks and brackets, as \<open>secp256r1 (P-256)\<close>
  does; it does not begin with a blank, stays on its line and is not the beginning of another part of the trace.
\<close>

definition group_label :: "string \<Rightarrow> bool" where
  "group_label w \<longleftrightarrow> w \<noteq> [] \<and> \<not> is_space (hd w) \<and> CHR 0x0A \<notin> set w \<and> \<not> starts_with ''extension_type='' w \<and>
     \<not> starts_with '' TLS Record'' (dropWhile (\<lambda>c. \<not> is_space c) w)"

lemma nl_space [simp]: "is_space CHR 0x0A"
  by (simp add: is_space_def)

lemma group_labelD:
  assumes "group_label w"
  shows "w \<noteq> []" "\<not> is_space (hd w)" "takeWhile is_space (w @ t) = []" "CHR 0x0A \<notin> set w"
    "\<not> starts_with ''extension_type='' w" "\<not> starts_with '' TLS Record'' (dropWhile (\<lambda>c. \<not> is_space c) w)" "list_all not_newline w"
proof -
  show h: "w \<noteq> []" "\<not> is_space (hd w)" and nn: "CHR 0x0A \<notin> set w" and "\<not> starts_with ''extension_type='' w"
    "\<not> starts_with '' TLS Record'' (dropWhile (\<lambda>c. \<not> is_space c) w)" using assms by (simp_all add: group_label_def)
  then show "takeWhile is_space (w @ t) = []" by (cases w) simp_all
  show "list_all not_newline w" unfolding list_all_iff not_newline_def using nn by blast
qed

lemma dec_not_newline: "CHR 0x0A \<notin> set (dec n)"
  using dec_chars [of "CHR 0x0A" n] by auto

lemma group_line_plain: "group_label (fst gc) \<Longrightarrow> CHR 0x0A \<notin> set (group_line gc)"
  by (cases gc) (auto simp: group_line_def group_labelD dec_not_newline)

text \<open>What may follow the line of a group: nothing, or a line break and an indented word.\<close>

definition next_line :: "string \<Rightarrow> bool" where
  "next_line t \<longleftrightarrow> t = [] \<or> (\<exists>g gcs. group_label (fst g) \<and> t = nl @ group_line g @ gcs)"

lemma matches_line_end:
  assumes "next_line t"
  shows "\<exists>ms. matches (Seq spaces (Ahead line_end)) t = ([], t) # ms"
proof (cases "t = []")
  case True
  then show ?thesis by (simp add: Let_def line_end_def)
next
  case False
  then obtain g v where g: "group_label (fst g)" "t = nl @ group_line g @ v" using assms by (auto simp: next_line_def)
  define u where "u = fst g @ '' ('' @ dec (snd g) @ '')'' @ v"
  have t: "t = (nl @ replicate 10 CHR '' '') @ u" by (simp add: g(2) group_line_def u_def)
  have u: "takeWhile is_space u = []" "u \<noteq> []" "\<not> is_space (hd u)" using group_labelD [OF g(1)] by (simp_all add: u_def)
  have tw: "takeWhile is_space t = nl @ replicate 10 CHR '' ''" unfolding t using u(1) by (simp add: takeWhile_append)
  have ks: "rev [0..<Suc 11] = rev [1..<Suc 11] @ [0]" by (simp add: upt_rec)
  have m: "matches spaces t = map (\<lambda>k. ([], drop k t)) (rev [1..<Suc 11]) @ ([], t) # []"
  proof -
    have "matches spaces t = map (\<lambda>k. ([], drop k t)) (rev [0..<Suc 11])" by (simp add: tw Let_def del: upt_Suc)
    then show ?thesis unfolding ks by (simp del: upt_Suc matches.simps)
  qed
  have "\<not> line_end (drop k t)" if "k \<in> set [1..<Suc 11]" for k
  proof -
    have k: "1 \<le> k" "k \<le> 11" using that by auto
    have d: "drop k t = replicate (11 - k) CHR '' '' @ u" using k by (simp add: t drop_Cons')
    show ?thesis
    proof (cases "11 - k")
      case 0
      have "hd u \<noteq> CHR 0x0A" using u(3) by auto
      then show ?thesis using d 0 u(2) by (cases u) (simp_all add: line_end_def)
    next
      case (Suc j)
      then show ?thesis using d by (simp add: line_end_def)
    qed
  qed
  then have no: "\<forall>x \<in> set (map (\<lambda>k. ([] :: string list, drop k t)) (rev [1..<Suc 11])). matches (Ahead line_end) (snd x) = []"
    by (auto simp del: upt_Suc)
  have "line_end t" by (simp add: g(2) line_end_def)
  then have "matches (Ahead line_end) t = ([], t) # []" by simp
  from matches_Seq_hd [OF m no this] show ?thesis by simp
qed

lemma is_digit_dec: "list_all is_digit (dec n)"
  using dec_chars [of _ n] by (force simp: list_all_iff is_digit_def Let_def)

lemma dec_ne: "dec n \<noteq> []"
  by (simp add: dec_def)

text \<open>No code point in brackets ends the line before the last one: not inside a name, and not across its end.\<close>

lemma bracket_split:
  assumes "'' ('' @ ds @ '')'' @ v = d @ '' ('' @ u" "list_all is_digit ds" "d \<noteq> []"
  obtains d' where "d = '' ('' @ ds @ '')'' @ d'" "v = d' @ '' ('' @ u"
proof -
  let ?M = "'' ('' @ ds @ '')''"
  have "?M @ v = d @ '' ('' @ u" using assms(1) by simp
  then obtain e where "?M = d @ e \<and> e @ v = '' ('' @ u \<or> ?M @ e = d \<and> v = e @ '' ('' @ u"
    using append_eq_append_conv2 [of ?M v d "'' ('' @ u"] by blast
  then consider "?M = d @ e" "e @ v = '' ('' @ u" "e \<noteq> []" | "d = ?M @ e" "v = e @ '' ('' @ u"
    by (cases "e = []") auto
  then show ?thesis
  proof cases
    case 1
    then obtain e' where e: "e = CHR '' '' # e'" by (cases e) auto
    obtain c d'' where d: "d = c # d''" using assms(3) by (cases d) auto
    have "''('' @ ds @ '')'' = d'' @ CHR '' '' # e'" using 1(1) unfolding d e by simp
    then have "CHR '' '' \<in> set (''('' @ ds @ '')'')" by (metis in_set_conv_decomp)
    then have "CHR '' '' \<in> set ds" by simp
    then show ?thesis using assms(2) by (auto simp: list_all_iff is_digit_def)
  next
    case 2
    then show ?thesis by (intro that [of e]) simp_all
  qed
qed

lemma blanks_stop:
  assumes "list_all is_space ws" "ws @ x = a @ c # u" "\<not> is_space c" "CHR 0x0A \<notin> set a"
  shows "\<not> line_end x"
proof -
  from append_eq_append_conv2 [of ws x a "c # u"] assms(2) obtain e where
    "ws = a @ e \<and> e @ x = c # u \<or> ws @ e = a \<and> x = e @ c # u" by blast
  then show ?thesis
  proof
    assume e: "ws = a @ e \<and> e @ x = c # u"
    then have "e = []" using assms(1,3) by (cases e) auto
    then have "x = c # u" using e by simp
    then show ?thesis using assms(3) by (auto simp: line_end_def)
  next
    assume e: "ws @ e = a \<and> x = e @ c # u"
    show ?thesis
    proof (cases e)
      case Nil
      then show ?thesis using e assms(3) by (auto simp: line_end_def)
    next
      case (Cons y ys)
      then have "y \<in> set a" using e by auto
      then show ?thesis using Cons e assms(4) by (auto simp: line_end_def)
    qed
  qed
qed

lemma no_code_in_name:
  assumes "d \<noteq> []" "CHR 0x0A \<notin> set d"
  shows "matches (Seq (lit '' ('') (Seq (Grp (Rep True 1 is_digit)) (Seq (lit '')'') (Seq spaces (Ahead line_end))))) (d @ '' ('' @ u) = []"
proof (rule ccontr)
  assume "matches (Seq (lit '' ('') (Seq (Grp (Rep True 1 is_digit)) (Seq (lit '')'') (Seq spaces (Ahead line_end))))) (d @ '' ('' @ u) \<noteq> []"
  then obtain x where "x \<in> rests (Seq (lit '' ('') (Seq (Grp (Rep True 1 is_digit)) (Seq (lit '')'') (Seq spaces (Ahead line_end))))) (d @ '' ('' @ u)"
    unfolding matches_ne by blast
  then obtain s1 ds s2 s3 ws where s: "d @ '' ('' @ u = '' ('' @ s1" "list_all is_digit ds" "s1 = ds @ s2" "s2 = '')'' @ s3"
    "list_all is_space ws" "s3 = ws @ x" "line_end x"
    unfolding rests_simps rests_lit rests_run Bex_def UN_iff
    by (auto simp: starts_with_iff rests_run simp del: rests_Rep lit.simps split: if_splits)
  then have "'' ('' @ ds @ '')'' @ s3 = d @ '' ('' @ u" by simp
  then obtain d' where d: "d = '' ('' @ ds @ '')'' @ d'" "s3 = d' @ '' ('' @ u" by (rule bracket_split [OF _ s(2) assms(1)])
  have "ws @ x = (d' @ '' '') @ CHR ''('' # u" using s(6) d(2) by simp
  from blanks_stop [OF s(5) this] have "\<not> line_end x" using assms(2) d(1) by (simp add: is_space_def)
  then show False using s(7) by simp
qed

lemma matches_group_line:
  assumes "group_label (fst gc)" "next_line t"
  shows "\<exists>ms. matches TRACE_GROUP_RE (group_line gc @ t) = ([fst gc, dec (snd gc)], t) # ms"
proof -
  note w = group_labelD [OF assms(1)]
  obtain m0 where "matches (Seq spaces (Ahead line_end)) t = ([], t) # m0" using matches_line_end [OF assms(2)] by blast
  from matches_lit_Seq [OF this, of "'')''"] obtain m1 where
    "matches (Seq (lit '')'') (Seq spaces (Ahead line_end))) ('')'' @ t) = ([], t) # m1" by blast
  from matches_greedy_group [OF is_digit_dec _ _ this, of 1 "snd gc"] obtain m2 where
    "matches (Seq (Grp (Rep True 1 is_digit)) (Seq (lit '')'') (Seq spaces (Ahead line_end)))) (dec (snd gc) @ '')'' @ t) = ([dec (snd gc)], t) # m2"
    using dec_ne [of "snd gc"] by (auto simp: is_digit_def Suc_le_eq simp del: matches.simps lit.simps)
  from matches_lit_Seq [OF this, of "'' (''"] obtain m3 where
    m3: "matches (Seq (lit '' ('') (Seq (Grp (Rep True 1 is_digit)) (Seq (lit '')'') (Seq spaces (Ahead line_end))))) ('' ('' @ dec (snd gc) @ '')'' @ t)
      = ([dec (snd gc)], t) # m3" by blast
  have "matches (Seq (lit '' ('') (Seq (Grp (Rep True 1 is_digit)) (Seq (lit '')'') (Seq spaces (Ahead line_end)))))
      (drop k (fst gc) @ '' ('' @ dec (snd gc) @ '')'' @ t) = []" if "k < length (fst gc)" for k
    by (rule no_code_in_name) (use that w(4) in \<open>auto dest: in_set_dropD\<close>)
  from matches_lazy_group [OF w(7,1) this m3] obtain m4 where
    "matches (Seq (Grp (Rep False 1 not_newline)) (Seq (lit '' ('') (Seq (Grp (Rep True 1 is_digit)) (Seq (lit '')'') (Seq spaces (Ahead line_end))))))
      (fst gc @ '' ('' @ dec (snd gc) @ '')'' @ t) = (fst gc # [dec (snd gc)], t) # m4" by blast
  from matches_greedy_Seq [OF _ _ _ this, of is_space "replicate 10 CHR '' ''" 1] show ?thesis
    using w(1,2) unfolding TRACE_GROUP_RE_def group_line_def by (simp add: list_all_iff del: matches.simps lit.simps replicate.simps)
qed

lemma line_starts_simps: "line_starts None" "line_starts (Some CHR 0x0A)" "\<not> line_starts (Some CHR '')'')"
  by (simp_all add: line_starts_def)

lemma find_all_match:
  "ok prev \<Longrightarrow> matches r s = (g, t) # ms \<Longrightarrow> length t < length s \<Longrightarrow>
   find_all ok r prev s = g # find_all ok r (Some (s ! (length s - length t - 1))) t"
  by (simp add: find_all.simps [of ok r prev s])

lemma find_all_skip: "\<not> ok prev \<Longrightarrow> find_all ok r prev (c # s) = find_all ok r (Some c) s"
  by (simp add: find_all.simps [of ok r prev "c # s"])

lemma find_all_group_lines:
  "list_all (\<lambda>gc. group_label (fst gc)) gcs \<Longrightarrow> line_starts prev \<Longrightarrow>
   find_all line_starts TRACE_GROUP_RE prev (join nl (map group_line gcs)) = map (\<lambda>gc. [fst gc, dec (snd gc)]) gcs"
proof (induction gcs arbitrary: prev)
  case Nil
  then show ?case by (simp add: find_all.simps TRACE_GROUP_RE_def)
next
  case (Cons gc gcs)
  have w: "group_label (fst gc)" using Cons.prems by simp
  define t where "t = (if gcs = [] then [] else nl @ join nl (map group_line gcs))"
  have s: "join nl (map group_line (gc # gcs)) = group_line gc @ t" by (cases gcs) (simp_all add: t_def)
  have "next_line t"
  proof (cases gcs)
    case (Cons g gs)
    have "\<exists>v. join nl (map group_line gcs) = group_line g @ v" unfolding Cons by (cases gs) auto
    then obtain v where "t = nl @ group_line g @ v" using Cons by (auto simp: t_def)
    then show ?thesis using Cons \<open>list_all _ (gc # gcs)\<close> unfolding next_line_def by (intro disjI2 exI [of _ g] exI [of _ v]) simp
  qed (simp add: next_line_def t_def)
  from matches_group_line [OF w this] obtain ms where
    "matches TRACE_GROUP_RE (group_line gc @ t) = ([fst gc, dec (snd gc)], t) # ms" by blast
  from find_all_match [where ok = line_starts, OF Cons.prems(2) this]
  have "find_all line_starts TRACE_GROUP_RE prev (group_line gc @ t) = [fst gc, dec (snd gc)] #
      find_all line_starts TRACE_GROUP_RE (Some ((group_line gc @ t) ! (length (group_line gc) - 1))) t"
    by (simp add: group_line_def)
  also have "(group_line gc @ t) ! (length (group_line gc) - 1) = last (group_line gc)"
    by (simp add: nth_append last_conv_nth group_line_def)
  also have "last (group_line gc) = CHR '')''" by (simp add: group_line_def)
  also have "find_all line_starts TRACE_GROUP_RE (Some CHR '')'') t = map (\<lambda>gc. [fst gc, dec (snd gc)]) gcs"
  proof (cases "gcs = []")
    case True
    then show ?thesis by (simp add: t_def find_all.simps TRACE_GROUP_RE_def)
  next
    case False
    then have "find_all line_starts TRACE_GROUP_RE (Some CHR '')'') t = find_all line_starts TRACE_GROUP_RE (Some CHR 0x0A) (join nl (map group_line gcs))"
      by (simp add: t_def find_all_skip line_starts_simps)
    then show ?thesis using Cons.IH [OF _ line_starts_simps(2)] Cons.prems by simp
  qed
  finally show ?case unfolding s by simp
qed

subsection \<open>The end of a block\<close>

text \<open>What stands behind the last group: the next extension, or the next record.\<close>

definition block_end :: "string \<Rightarrow> bool" where
  "block_end tail \<longleftrightarrow> (\<exists>ws w more. list_all is_space ws \<and>
     (tail = nl @ ws @ ''extension_type='' @ more \<or>
      w \<noteq> [] \<and> list_all (\<lambda>c. \<not> is_space c) w \<and> tail = nl @ ws @ w @ '' TLS Record'' @ more))"

lemma rests_lit_Seq: "rests (Seq (lit w) q) (w @ t) = rests q t"
  by (simp add: rests_lit del: lit.simps)

lemma block_end_ne: "block_end tail \<Longrightarrow> rests BLOCK_END_RE tail \<noteq> {}"
proof -
  assume "block_end tail"
  then obtain ws w more where ws: "list_all is_space ws"
    and t: "tail = nl @ ws @ ''extension_type='' @ more \<or>
      w \<noteq> [] \<and> list_all (\<lambda>c. \<not> is_space c) w \<and> tail = nl @ ws @ w @ '' TLS Record'' @ more" by (auto simp: block_end_def)
  have at: "\<exists>u. tail = nl @ ws @ u \<and> rests (Alt (lit ''extension_type='') (Seq non_spaces (lit '' TLS Record''))) u \<noteq> {}"
    using t
  proof
    assume "tail = nl @ ws @ ''extension_type='' @ more"
    then show ?thesis by (intro exI [of _ "''extension_type='' @ more"]) (simp add: rests_lit del: lit.simps)
  next
    assume w: "w \<noteq> [] \<and> list_all (\<lambda>c. \<not> is_space c) w \<and> tail = nl @ ws @ w @ '' TLS Record'' @ more"
    then have "takeWhile (\<lambda>c. \<not> is_space c) (w @ '' TLS Record'' @ more) = w" by (simp add: takeWhile_append2 list_all_iff)
    then have "'' TLS Record'' @ more \<in> rests non_spaces (w @ '' TLS Record'' @ more)"
      using w unfolding rests_Rep by (intro image_eqI [of _ _ "length w"]) (simp_all add: Suc_le_eq)
    then have "rests (Seq non_spaces (lit '' TLS Record'')) (w @ '' TLS Record'' @ more) \<noteq> {}"
      unfolding rests_simps rests_lit by (auto simp del: rests_Rep)
    then show ?thesis using w by (intro exI [of _ "w @ '' TLS Record'' @ more"]) (simp add: rests_lit del: lit.simps rests_Rep)
  qed
  then obtain u where u: "tail = nl @ ws @ u" "rests (Alt (lit ''extension_type='') (Seq non_spaces (lit '' TLS Record''))) u \<noteq> {}" by blast
  have "u \<in> rests spaces (ws @ u)" unfolding rests_spaces using ws by blast
  then have "rests (Seq spaces (Alt (lit ''extension_type='') (Seq non_spaces (lit '' TLS Record'')))) (ws @ u) \<noteq> {}"
    using u(2) by (auto simp only: rests_simps)
  then show ?thesis unfolding BLOCK_END_RE_def u(1) rests_lit_Seq .
qed

lemma before_match_append:
  "(\<And>a b. p = a @ b \<Longrightarrow> b \<noteq> [] \<Longrightarrow> rests r (b @ s) = {}) \<Longrightarrow> before_match r (p @ s) = p @ before_match r s"
proof (induction p)
  case (Cons c p)
  have "matches r (c # p @ s) = []" using Cons.prems [of "[]" "c # p"] matches_ne [of r "c # p @ s"] by simp
  moreover have "before_match r (p @ s) = p @ before_match r s" using Cons.prems [of "c # _"] by (intro Cons.IH) auto
  ultimately show ?case by (simp add: before_match.simps [of r "c # p @ s"])
qed simp

text \<open>No position inside the lines of the groups ends the block.\<close>

lemma starts_with_blank:
  assumes "CHR '' '' \<notin> set w" "\<not> starts_with w s"
  shows "\<not> starts_with w (s @ CHR '' '' # v)"
proof
  assume "starts_with w (s @ CHR '' '' # v)"
  then obtain u where "w @ u = s @ CHR '' '' # v" unfolding starts_with_iff by metis
  then obtain e where "w = s @ e \<and> e @ u = CHR '' '' # v \<or> w @ e = s \<and> u = e @ CHR '' '' # v"
    using append_eq_append_conv2 [of w u s "CHR '' '' # v"] by blast
  then show False using assms by (cases e) (auto simp: starts_with_iff)
qed

lemma name_not_end:
  assumes "group_label w"
  shows "rests (Alt (lit ''extension_type='') (Seq non_spaces (lit '' TLS Record''))) (w @ '' ('' @ v) = {}"
proof -
  note g = group_labelD [OF assms]
  have "\<not> starts_with ''extension_type='' (w @ '' ('' @ v)"
    using starts_with_blank [OF _ g(5), of "''('' @ v"] by simp
  moreover have "\<not> starts_with '' TLS Record'' x" if x: "x \<in> rests non_spaces (w @ '' ('' @ v)" for x
  proof
    assume "starts_with '' TLS Record'' x"
    then obtain y where y: "x = '' TLS Record'' @ y" by (auto simp: starts_with_iff)
    obtain ws where ws: "list_all (\<lambda>c. \<not> is_space c) ws" "w @ '' ('' @ v = ws @ '' TLS Record'' @ y"
      using x unfolding rests_run y by blast
    define r where "r = dropWhile (\<lambda>c. \<not> is_space c) w"
    have "dropWhile (\<lambda>c. \<not> is_space c) (ws @ '' TLS Record'' @ y) = '' TLS Record'' @ y"
      using ws(1) by (simp add: dropWhile_append2 list_all_iff is_space_def)
    moreover have "dropWhile (\<lambda>c. \<not> is_space c) (w @ '' ('' @ v) = r @ '' ('' @ v"
      by (simp add: dropWhile_append r_def is_space_def)
    ultimately have e: "r @ '' ('' @ v = '' TLS Record'' @ y" using ws(2) by simp
    have r: "\<not> starts_with '' TLS Record'' r" using g(6) by (simp add: r_def)
    from append_eq_append_conv2 [of r "'' ('' @ v" "'' TLS Record''" y] e obtain z where
      "r = '' TLS Record'' @ z \<or> r @ z = '' TLS Record'' \<and> '' ('' @ v = z @ y" by blast
    then have z: "r @ z = '' TLS Record''" "'' ('' @ v = z @ y" "z \<noteq> []" using r by (auto simp: starts_with_iff)
    then obtain z' where "z = CHR '' '' # z'" by (cases z) auto
    with z show False by (auto simp: append_eq_Cons_conv Cons_eq_append_conv)
  qed
  ultimately show ?thesis unfolding rests_simps rests_lit by auto
qed

lemma blank_not_end: "rests (Alt (lit ''extension_type='') (Seq non_spaces (lit '' TLS Record''))) (CHR '' '' # v) = {}"
  by (simp add: rests_lit del: lit.simps)

lemma line_not_end:
  assumes "group_label (fst gc)"
  shows "rests BLOCK_END_RE (nl @ group_line gc @ v) = {}"
proof -
  have "rests (Alt (lit ''extension_type='') (Seq non_spaces (lit '' TLS Record''))) t = {}" if t: "t \<in> rests spaces (group_line gc @ v)" for t
  proof -
    let ?u = "fst gc @ '' ('' @ dec (snd gc) @ '')'' @ v"
    obtain ws where ws: "list_all is_space ws" "group_line gc @ v = ws @ t" using t unfolding rests_spaces by blast
    have e: "replicate 10 CHR '' '' @ ?u = ws @ t" using ws(2) by (simp add: group_line_def)
    have "length ws \<le> length (takeWhile is_space (ws @ t))" using ws(1) by (simp add: takeWhile_append2 list_all_iff)
    also have "\<dots> = 10" unfolding e [symmetric] using group_labelD(3) [OF assms, of "'' ('' @ dec (snd gc) @ '')'' @ v"]
      by (simp add: takeWhile_append)
    finally have k: "length ws \<le> 10" .
    have t: "t = replicate (10 - length ws) CHR '' '' @ ?u"
      using arg_cong [OF e, of "drop (length ws)"] k by simp
    show ?thesis
    proof (cases "10 - length ws")
      case 0
      then show ?thesis unfolding t using name_not_end [OF assms] by simp
    next
      case (Suc j)
      then show ?thesis unfolding t by (simp only: replicate.simps append_Cons blank_not_end)
    qed
  qed
  then show ?thesis unfolding BLOCK_END_RE_def rests_lit_Seq rests_simps(1) [of spaces] by blast
qed

lemma rests_BLOCK_END: "rests BLOCK_END_RE (c # s) \<noteq> {} \<Longrightarrow> c = CHR 0x0A"
  unfolding BLOCK_END_RE_def rests_simps(1) [of "lit nl"] rests_lit by (simp split: if_splits del: rests_simps lit.simps)

lemma before_group_lines:
  "list_all (\<lambda>gc. group_label (fst gc)) gcs \<Longrightarrow> gcs \<noteq> [] \<Longrightarrow> block_end tail \<Longrightarrow>
   before_match BLOCK_END_RE (join nl (map group_line gcs) @ tail) = join nl (map group_line gcs)"
proof (induction gcs)
  case (Cons gc gcs)
  have plain: "rests BLOCK_END_RE (b @ s) = {}" if ab: "group_line gc = a @ b" "b \<noteq> []" for a b s
  proof -
    obtain c cs where b: "b = c # cs" using ab(2) by (cases b) auto
    then have "c \<noteq> CHR 0x0A" using group_line_plain [of gc] ab(1) Cons.prems(1) by auto
    then show ?thesis using rests_BLOCK_END [of c "cs @ s"] b by auto
  qed
  show ?case
  proof (cases gcs)
    case Nil
    have "before_match BLOCK_END_RE tail = []"
      using block_end_ne [OF Cons.prems(3)] matches_ne [of BLOCK_END_RE tail] by (simp add: before_match.simps split: list.split)
    then show ?thesis using before_match_append [of "group_line gc" BLOCK_END_RE tail] plain Nil by simp
  next
    case (Cons g gs)
    define J where "J = join nl (map group_line gcs)"
    have IH: "before_match BLOCK_END_RE (J @ tail) = J" using Cons.IH Cons.prems Cons by (simp add: J_def)
    have "\<exists>v. J = group_line g @ v" unfolding J_def Cons by (cases gs) auto
    then obtain v where v: "J = group_line g @ v" ..
    have "before_match BLOCK_END_RE ((group_line gc @ nl) @ J @ tail) = (group_line gc @ nl) @ before_match BLOCK_END_RE (J @ tail)"
    proof (rule before_match_append)
      fix a b assume ab: "group_line gc @ nl = a @ b" "b \<noteq> []"
      then obtain b' where b': "b = b' @ nl" "group_line gc = a @ b'"
        by (metis append_butlast_last_id append_eq_append_conv2 butlast_append butlast_snoc last_appendR last_snoc)
      show "rests BLOCK_END_RE (b @ J @ tail) = {}"
      proof (cases "b' = []")
        case True
        have "group_label (fst g)" using \<open>list_all _ (gc # gcs)\<close> Cons by simp
        from line_not_end [OF this, of "v @ tail"] show ?thesis using True b' v by simp
      next
        case False
        then show ?thesis using plain [OF b'(2)] b'(1) by simp
      qed
    qed
    then show ?thesis using Cons IH by (simp add: J_def)
  qed
qed simp

subsection \<open>The groups of a section\<close>

text \<open>\<open>w\<close> does not begin in \<open>a\<close> when \<open>a\<close> stands in front of it.\<close>

definition free_of :: "string \<Rightarrow> string \<Rightarrow> bool" where "free_of w a \<longleftrightarrow> \<not> contains w (a @ butlast w)"

lemma trace_groups_block:
  assumes "gcs \<noteq> []" "list_all (\<lambda>gc. group_label (fst gc)) gcs" "CHR 0x0A \<notin> set header" "block_end tail" "free_of SUPPORTED_MARK pre"
  shows "trace_groups (pre @ group_block header gcs @ tail) = map fst gcs"
proof -
  have "split_first SUPPORTED_MARK (pre @ SUPPORTED_MARK @ header @ nl @ join nl (map group_line gcs) @ tail) =
      Some (pre, header @ nl @ join nl (map group_line gcs) @ tail)"
    by (rule split_first_append) (use assms(5) in \<open>simp_all add: free_of_def SUPPORTED_MARK_def\<close>)
  moreover have "split_first nl (header @ nl @ join nl (map group_line gcs) @ tail) = Some (header, join nl (map group_line gcs) @ tail)"
    by (rule split_first_append) (use assms(3) in \<open>auto simp: contains_iff\<close>)
  moreover have "map hd (find_all line_starts TRACE_GROUP_RE None (before_match BLOCK_END_RE (join nl (map group_line gcs) @ tail))) = map fst gcs"
    unfolding before_group_lines [OF assms(2,1,4)] find_all_group_lines [OF assms(2) line_starts_simps(1)] by simp
  ultimately show ?thesis by (simp add: trace_groups_def group_block_def)
qed

lemma partition_at_append: "free_of sep a \<Longrightarrow> sep \<noteq> [] \<Longrightarrow> partition_at sep (a @ sep @ b) = (a, b)"
  by (simp add: partition_at_def free_of_def split_first_append)

lemma parse_group_openssl: "\<exists>n. parse_group ''openssl'' text = Inr n \<and> n \<noteq> Some []"
proof -
  obtain re where re: "GROUP_RE ''openssl'' = Some re" by (simp add: GROUP_RE_def)
  show ?thesis
  proof (cases "search re text")
    case (Some gs)
    with search_word [OF GROUP_RE_word [OF re] Some] show ?thesis by (auto simp: parse_group_def re Let_def)
  qed (simp add: parse_group_def re)
qed

text \<open>
  C39. The audit of a trace log reads back what the log says. Take a log of \<open>s_client -trace\<close> in which the
  client lists its groups in the first hello (one line for the extension, one indented line per group,
  then the next extension or the next record), then a \<open>ServerHello\<close> and anything else (a second hello
  after a HelloRetryRequest, for instance), and in \<open>EncryptedExtensions\<close> the groups of the server. The
  audit never fails; it reports exactly the names of both lists in the printed order, also names with blanks
  and brackets such as \<open>secp256r1 (P-256)\<close> (a name is anything that stays on its line, does not begin with a blank,
  and does not read \<open>extension_type=\<close> or a word and \<open>TLS Record\<close> at its beginning), whatever other
  indented lists with code points the log contains; and it says that one output holds the advertised and
  the negotiated group exactly if the log names a negotiated group.
\<close>

theorem trace_audit_reads_back:
  assumes "gcs \<noteq> []" "hcs \<noteq> []" "list_all (\<lambda>gc. group_label (fst gc)) (gcs @ hcs)" "CHR 0x0A \<notin> set header \<union> set header'"
    and "block_end tail" "block_end tail'" "free_of SUPPORTED_MARK pre" "free_of SUPPORTED_MARK pre'"
    and "hello = pre @ group_block header gcs @ tail" "free_of ''ServerHello, Length='' hello"
    and "front = hello @ ''ServerHello, Length='' @ mid" "free_of ''EncryptedExtensions, Length='' front"
  shows "\<exists>t. trace_audit (front @ ''EncryptedExtensions, Length='' @ pre' @ group_block header' hcs @ tail') = Inr t \<and>
    advertised_groups t = map fst gcs \<and> server_groups t = map fst hcs \<and> single_output t = (trace_negotiated t \<noteq> None)"
proof -
  let ?log = "front @ ''EncryptedExtensions, Length='' @ pre' @ group_block header' hcs @ tail'"
  have words: "list_all (\<lambda>gc. group_label (fst gc)) gcs" "list_all (\<lambda>gc. group_label (fst gc)) hcs" using assms(3) by simp_all
  have nl: "CHR 0x0A \<notin> set header" "CHR 0x0A \<notin> set header'" using assms(4) by simp_all
  have "?log = hello @ ''ServerHello, Length='' @ mid @ ''EncryptedExtensions, Length='' @ pre' @ group_block header' hcs @ tail'"
    by (simp only: assms(11) append_assoc)
  then have "partition_at ''ServerHello, Length='' ?log =
      (hello, mid @ ''EncryptedExtensions, Length='' @ pre' @ group_block header' hcs @ tail')"
    using partition_at_append [OF assms(10)] by simp
  then have adv: "trace_groups (fst (partition_at ''ServerHello, Length='' ?log)) = map fst gcs"
    using trace_groups_block [OF assms(1) words(1) nl(1) assms(5,7)] unfolding assms(9) by simp
  have srv: "trace_groups (snd (partition_at ''EncryptedExtensions, Length='' ?log)) = map fst hcs"
    using partition_at_append [OF assms(12)] trace_groups_block [OF assms(2) words(2) nl(2) assms(6,8)] by simp
  obtain n where n: "parse_group ''openssl'' ?log = Inr n" "n \<noteq> Some []" using parse_group_openssl by blast
  have "(map fst gcs \<noteq> [] \<and> n \<noteq> None \<and> n \<noteq> Some []) = (n \<noteq> None)" using n(2) assms(1) by auto
  note single = this
  show ?thesis unfolding trace_audit_def Let_def n(1) rbind_simps adv srv
    by (rule exI, rule conjI, rule refl) (simp only: trace_report.select_convs single simp_thms)
qed

definition sample_hello :: string where
  "sample_hello = ''    ClientHello, Length=200'' @ nl @ ''        '' @
     group_block ''(10), length=6'' [(''ecdh_x25519'', 29), (''X25519MLKEM768'', 4588)] @
     nl @ ''        '' @ ''extension_type='' @ ''session_ticket(35), length=0'' @ nl"

lemma sample_lines:
  "group_line (''ecdh_x25519'', 29) = ''          ecdh_x25519 (29)''"
  "group_line (''X25519MLKEM768'', 4588) = ''          X25519MLKEM768 (4588)''"
  "group_line (''secp256r1 (P-256)'', 23) = ''          secp256r1 (P-256) (23)''"
proof -
  have c: "char_of (51 :: nat) = CHR ''3''" "char_of (50 :: nat) = CHR ''2''" "char_of (57 :: nat) = CHR ''9''" "char_of (52 :: nat) = CHR ''4''"
    "char_of (53 :: nat) = CHR ''5''" "char_of (56 :: nat) = CHR ''8''" by code_simp+
  have r: "replicate 10 CHR '' '' = ''          ''" by (simp add: eval_nat_numeral)
  show "group_line (''ecdh_x25519'', 29) = ''          ecdh_x25519 (29)''"
    "group_line (''X25519MLKEM768'', 4588) = ''          X25519MLKEM768 (4588)''"
    "group_line (''secp256r1 (P-256)'', 23) = ''          secp256r1 (P-256) (23)''"
    by (simp_all add: group_line_def dec_def base_digits.simps digit_char_def c r)
qed

theorem trace_audit_reads_back_witness:
  "\<exists>t. trace_audit (sample_hello @ ''ServerHello, Length='' @ ''118'' @ nl @ ''    EncryptedExtensions, Length='' @ ''12'' @ nl @ ''        '' @
      group_block ''(10), length=8'' [(''X25519MLKEM768'', 4588), (''ecdh_x25519'', 29), (''secp256r1 (P-256)'', 23)] @
      nl @ nl @ ''Received'' @ '' TLS Record'' @ nl @ ''Peer Temp Key: X25519, 253 bits'') = Inr t \<and>
    advertised_groups t = [''ecdh_x25519'', ''X25519MLKEM768''] \<and> server_groups t = [''X25519MLKEM768'', ''ecdh_x25519'', ''secp256r1 (P-256)''] \<and>
    single_output t = (trace_negotiated t \<noteq> None)"
proof -
  let ?tail = "nl @ ''        '' @ ''extension_type='' @ ''session_ticket(35), length=0'' @ nl"
  let ?tail' = "nl @ nl @ ''Received'' @ '' TLS Record'' @ nl @ ''Peer Temp Key: X25519, 253 bits''"
  let ?front = "sample_hello @ ''ServerHello, Length='' @ (''118'' @ nl @ ''    '')"
  have e: "block_end ?tail" unfolding block_end_def
    by (rule exI [of _ "''        ''"], rule exI, rule exI [of _ "''session_ticket(35), length=0'' @ nl"]) simp
  have e': "block_end ?tail'" unfolding block_end_def
    by (rule exI [of _ nl], rule exI [of _ "''Received''"], rule exI [of _ "nl @ ''Peer Temp Key: X25519, 253 bits''"]) (simp add: is_space_def)
  have w: "group_label ''ecdh_x25519''" "group_label ''X25519MLKEM768''" "group_label ''secp256r1 (P-256)''" by code_simp+
  have f: "free_of SUPPORTED_MARK (''    ClientHello, Length=200'' @ nl @ ''        '')" "free_of SUPPORTED_MARK (''12'' @ nl @ ''        '')"
    "free_of ''ServerHello, Length='' sample_hello" "free_of ''EncryptedExtensions, Length='' ?front"
    by (simp_all add: free_of_def SUPPORTED_MARK_def sample_hello_def group_block_def sample_lines)
  have h: "sample_hello = (''    ClientHello, Length=200'' @ nl @ ''        '') @
      group_block ''(10), length=6'' [(''ecdh_x25519'', 29), (''X25519MLKEM768'', 4588)] @ ?tail"
    by (simp add: sample_hello_def)
  have "\<exists>t. trace_audit (?front @ ''EncryptedExtensions, Length='' @ (''12'' @ nl @ ''        '') @
      group_block ''(10), length=8'' [(''X25519MLKEM768'', 4588), (''ecdh_x25519'', 29), (''secp256r1 (P-256)'', 23)] @ ?tail') = Inr t \<and>
    advertised_groups t = map fst [(''ecdh_x25519'', 29 :: nat), (''X25519MLKEM768'', 4588)] \<and>
    server_groups t = map fst [(''X25519MLKEM768'', 4588 :: nat), (''ecdh_x25519'', 29), (''secp256r1 (P-256)'', 23)] \<and> single_output t = (trace_negotiated t \<noteq> None)"
    by (rule trace_audit_reads_back [OF _ _ _ _ e e' f(1,2) h f(3) refl f(4)]) (simp_all add: w)
  then show ?thesis by (simp only: append_assoc append_Cons append_Nil list.map fst_conv)
qed

section \<open>The runs\<close>

lemma browser_spec_fields:
  "browser_spec environ browser rep out_dir = Inr sp \<Longrightarrow>
   identifier_of sp = run_id ''openssl'' ''client-default'' rep browser \<and> sp_out_dir sp = out_dir"
  unfolding browser_spec_def by (auto simp: res_simps new_spec_def or_default_def)

lemma trace_spec_fields:
  assumes "trace_spec environ version setting rep out_dir paths = Inr sp"
  shows "identifier_of sp = run_id ''openssl'' ''server-setting-trace'' rep (version @ ''-'' @ setting) \<and> sp_out_dir sp = out_dir"
proof -
  obtain sp0 where sp0: "v12_spec environ version setting rep out_dir paths CLIENT_GROUPS_V12 = Inr sp0"
    and sp: "sp = sp0\<lparr>sp_fault_type := ''server-setting-trace'',
         sp_client_cmd := map (\<lambda>arg. if arg \<noteq> ''-msg'' then arg else ''-trace'') (sp_client_cmd sp0)\<rparr>"
    using assms unfolding trace_spec_def by (auto simp: res_simps)
  show ?thesis using v12_spec_fields [OF sp0] by (simp add: sp)
qed

text \<open>A record that is stored once more under its own identifier.\<close>

lemma stored_twice:
  assumes "docs w1 = (docs w)(doc_path dir i \<mapsto> x)" "store_record dir r w1 = Some (y, w')" "rec_run_id r = i"
  shows "y = Inr r \<and> docs w' = (docs w)(doc_path dir i \<mapsto> asdict_record r)"
  using assms by (auto simp: store_record_result)

lemma evaluate_browser_stores:
  assumes "evaluate_browser sha256 d dir browser sp r w = Some (y, w')"
  shows "case y of Inl e \<Rightarrow> \<forall>p. p \<noteq> doc_path dir (rec_run_id r) \<longrightarrow> docs w' p = docs w p
    | Inr r' \<Rightarrow> rec_run_id r' = rec_run_id r \<and> (docs w')(doc_path dir (rec_run_id r) := None) = (docs w)(doc_path dir (rec_run_id r) := None)
        \<and> docs w' (doc_path dir (rec_run_id r)) = Some (asdict_record r')"
proof -
  obtain z w1 where z: "evaluate_v16 sha256 d dir sp r w = Some (z, w1)"
    using assms unfolding evaluate_browser_def seqp_def by (auto split: option.splits)
  show ?thesis
  proof (cases z)
    case (Inl e)
    then show ?thesis using assms evaluate_v16_stores [OF z] z by (auto simp: evaluate_browser_def seqp_def)
  next
    case (Inr r1)
    then have r1: "rec_run_id r1 = rec_run_id r" "docs w1 = (docs w)(doc_path dir (rec_run_id r) \<mapsto> asdict_record r1)"
      using evaluate_v16_stores [OF z] by simp_all
    have rest: "seqp (lift_result (look (map_of BROWSERS) browser)) (\<lambda>cmd. if length cmd \<le> 2 then raise IndexError else
       store_record dir (r1\<lparr>provenance := dict_set ''binary_sha256'' (jopt JStr (sha256_file sha256 d (cmd ! 2)))
         (dict_set ''browser'' (JBool True) (provenance r1))\<rparr>)) w1 = Some (y, w')"
      using assms z Inr by (simp add: evaluate_browser_def seqp_def [of "evaluate_v16 sha256 d dir sp r"])
    show ?thesis
    proof (cases y)
      case (Inl e)
      have "docs w' = docs w1"
        using rest Inl by (cases "look (map_of BROWSERS) browser") (auto simp: raise_def store_record_result split: if_splits)
      then show ?thesis using Inl r1 by simp
    next
      case (Inr r')
      then obtain cmd where "store_record dir (r1\<lparr>provenance := dict_set ''binary_sha256'' (jopt JStr (sha256_file sha256 d (cmd ! 2)))
         (dict_set ''browser'' (JBool True) (provenance r1))\<rparr>) w1 = Some (y, w')"
        using rest by (cases "look (map_of BROWSERS) browser") (auto simp: raise_def split: if_splits)
      from stored_twice [OF r1(2) this] show ?thesis using Inr r1(1) by auto
    qed
  qed
qed

lemma evaluate_trace_stores:
  assumes "evaluate_trace runner d dir paths hashes sp r w = Some (y, w')"
  shows "case y of Inl e \<Rightarrow> \<forall>p. p \<noteq> doc_path dir (rec_run_id r) \<longrightarrow> docs w' p = docs w p
    | Inr r' \<Rightarrow> rec_run_id r' = rec_run_id r \<and> (docs w')(doc_path dir (rec_run_id r) := None) = (docs w)(doc_path dir (rec_run_id r) := None)
        \<and> docs w' (doc_path dir (rec_run_id r)) = Some (asdict_record r')"
proof (cases "provenance_for sp paths hashes")
  case (Inr prov)
  have ev: "seqp (evaluate_v12 runner d dir prov r) (\<lambda>r w.
     seqp (lift_result (with_trace (visible_texts d w) dir r)) (store_record dir) w) w = Some (y, w')"
    using assms Inr by (simp add: evaluate_trace_def)
  then obtain z w1 where z: "evaluate_v12 runner d dir prov r w = Some (z, w1)"
    unfolding seqp_def by (auto split: option.splits)
  show ?thesis
  proof (cases z)
    case (Inl e)
    then show ?thesis using ev z evaluate_v12_result [OF z] by (auto simp: seqp_def)
  next
    case (Inr r1)
    then have r1: "rec_run_id r1 = rec_run_id r" "docs w1 = (docs w)(doc_path dir (rec_run_id r) \<mapsto> asdict_record r1)"
      using evaluate_v12_result [OF z] evaluated_v12_fields(1) by auto
    have rest: "seqp (lift_result (with_trace (visible_texts d w1) dir r1)) (store_record dir) w1 = Some (y, w')"
      using ev z Inr by (simp add: seqp_def [of "evaluate_v12 runner d dir prov r"])
    show ?thesis
    proof (cases "with_trace (visible_texts d w1) dir r1")
      case (Inl e)
      then have "y = Inl e" "w' = w1" using rest by simp_all
      then show ?thesis using r1 by simp
    next
      case (Inr r')
      then have "rec_run_id r' = rec_run_id r" using r1(1) unfolding with_trace_def by (auto simp: res_simps)
      from stored_twice [OF r1(2) _ this, of y w'] show ?thesis using rest Inr \<open>rec_run_id r' = rec_run_id r\<close> by auto
    qed
  qed
qed (use assms in \<open>auto simp: evaluate_trace_def\<close>)

interpretation browsers: item_driver "browser_step_run envs disks sha256 environ out_dir"
    "\<lambda>x. run_id ''openssl'' ''client-default'' (fst x) (snd x)" "\<lambda>_. True" out_dir
  for envs disks sha256 environ out_dir
  unfolding browser_step_run_def
  by (rule building_driver) (use browser_spec_fields evaluate_browser_stores in blast)+

interpretation traces: item_driver "trace_step_run envs disks runners environ out_dir paths hashes"
    "\<lambda>x. run_id ''openssl'' ''server-setting-trace'' (fst x) (fst (snd x) @ ''-'' @ snd (snd x))" "\<lambda>_. True" out_dir
  for envs disks runners environ out_dir paths hashes
  unfolding trace_step_run_def
  by (rule building_driver) (use trace_spec_fields evaluate_trace_stores in blast)+

text \<open>
  Both parts of the experiment store what they return and leave every other document alone; the
  conditions \<open>3.5.5-S1\<close>, \<open>3.5.5-S3\<close> and \<open>3.5.6-S3\<close> are three different files per repetition.
\<close>

lemma trace_keys_distinct:
  "distinct (map (\<lambda>x. run_id ''openssl'' ''server-setting-trace'' (fst x) (fst (snd x) @ ''-'' @ snd (snd x))) (List.product [1..<n + 1] TRACE_CONDITIONS))"
  by (rule product_keys_distinct [where cond = "\<lambda>c. fst c @ ''-'' @ snd c"]) (simp_all add: TRACE_CONDITIONS_def)

lemma run_trace_stores:
  assumes "run_trace envs disks runners sha256 environ n out_dir w = Some (Inr rs, w')"
  shows "length rs = n * 3 \<and> (\<forall>r \<in> set rs. docs w' (doc_path out_dir (rec_run_id r)) = Some (asdict_record r))"
proof -
  obtain paths hashes where "for_each (trace_step_run envs disks runners environ out_dir paths hashes) 0 (List.product [1..<n + 1] TRACE_CONDITIONS) w = Some (Inr rs, w')"
    using assms unfolding run_trace_def by (cases "v12_paths trace_versions"; cases "v12_hashes sha256 (disks 0) (projr (v12_paths trace_versions)) trace_versions") auto
  from traces.records_stored [OF this _ trace_keys_distinct]
  have st: "map rec_run_id rs = map (\<lambda>x. run_id ''openssl'' ''server-setting-trace'' (fst x) (fst (snd x) @ ''-'' @ snd (snd x)))
      (List.product [1..<n + 1] TRACE_CONDITIONS)" "\<forall>r \<in> set rs. docs w' (doc_path out_dir (rec_run_id r)) = Some (asdict_record r)" by simp_all
  from arg_cong [OF st(1), of length] have "length rs = n * 3" by (simp add: TRACE_CONDITIONS_def)
  then show ?thesis using st(2) by simp
qed

end
