(* ===== verification/Repro_Package.thy ===== *)
theory Repro_Package
  imports Py_Str "HOL-Library.Multiset"
begin

text \<open>
  Model of \<open>tools/make_repro_package.py\<close>: the eight reproduction packages, how one is built from the
  repository and how it is verified.

  The repository is a tree: the names in a directory (none for a path that is not a directory) and the
  content of a regular file; paths are relative to \<open>REPO_ROOT\<close>. An archive is its list of members, a
  name with a content each; compression and time stamps are not modelled. A pattern of \<open>glob\<close> is a
  directory, a slash and an asterisk followed by a suffix, as in every pattern of the file.

  The theorems: the members of a built archive are files of the repository with their content, each
  once; and a built archive verifies exactly if the repository holds what the package promises, so the
  table of packages is consistent: whatever is required of an archive is also put into it.
\<close>

section \<open>Definitions\<close>

definition RAW_V11_DIR :: string where "RAW_V11_DIR = ''docs/research/baselines/raw/v1.1''"
definition FAULTINJECT_DIR :: string where "FAULTINJECT_DIR = ''tools/faultinject''"
definition REPRODUCTION_MD :: string where "REPRODUCTION_MD = ''docs/research/REPRODUCTION.md''"
definition PAPER_MD :: string where "PAPER_MD = ''docs/PAPER.md''"
definition EVIDENCE_MD :: string where "EVIDENCE_MD = ''docs/EVIDENCE.md''"

text \<open>
  One entry of \<open>PACKAGES\<close>. Artifacts have a label, a suffix and a minimum, extra artifacts a directory in
  addition; an optional entry that is absent is the empty list that \<open>config.get\<close> gives.
\<close>

record package =
  pk_raw :: string
  pk_extra_raw :: "string list"
  pk_documents :: "string list"
  pk_required_files :: "string list"
  pk_artifacts :: "(string \<times> string \<times> nat) list"
  pk_extra_artifacts :: "(string \<times> string \<times> string \<times> nat) list"
  pk_excluded :: "string list"
  pk_out :: string
  pk_extra_globs :: "string list"

definition REQUIRED_FILES :: "string list" where
  "REQUIRED_FILES = [FAULTINJECT_DIR @ ''/run.py'', FAULTINJECT_DIR @ ''/aggregate.py'', FAULTINJECT_DIR @ ''/analyze.py'',
      REPRODUCTION_MD, PAPER_MD, EVIDENCE_MD]"

definition REQUIRED_ARTIFACTS :: "(string \<times> string \<times> nat) list" where
  "REQUIRED_ARTIFACTS = [(''v1.1 JSON records'', ''.json'', 90), (''v1.1 PCAPs'', ''.pcapng'', 90),
      (''v1.1 client logs'', ''-client.log'', 90), (''v1.1 capture logs'', ''-capture.log'', 90),
      (''v1.1 proxy logs'', ''-proxy.log'', 30)]"

definition package_v11 :: package where
  "package_v11 = \<lparr>pk_raw = RAW_V11_DIR,
    pk_extra_raw = [],
    pk_documents = [REPRODUCTION_MD, PAPER_MD, EVIDENCE_MD],
    pk_required_files = REQUIRED_FILES,
    pk_artifacts = REQUIRED_ARTIFACTS,
    pk_extra_artifacts = [],
    pk_excluded = [''v1.1-diagnose'', ''v1.1-pre-'', ''v1.1-preflight''],
    pk_out = ''dist/pq-hybrid-downgrade-v11-repro.zip'',
    pk_extra_globs = []\<rparr>"

definition package_v12 :: package where
  "package_v12 = \<lparr>pk_raw = ''docs/research/baselines/raw/v1.2'',
    pk_extra_raw = [],
    pk_documents = [REPRODUCTION_MD, PAPER_MD, EVIDENCE_MD, ''tools/v12_a0_smoke.sh'', ''tools/v12_build_openssl_356.sh'',
      ''tools/v12_boringssl_survey.sh''],
    pk_required_files = [FAULTINJECT_DIR @ ''/v12.py'', FAULTINJECT_DIR @ ''/pcap_hello.py'', FAULTINJECT_DIR @ ''/audit.py'',
      FAULTINJECT_DIR @ ''/analyze.py'', REPRODUCTION_MD, PAPER_MD, EVIDENCE_MD],
    pk_artifacts = [(''v1.2 JSON records'', ''.json'', 60), (''v1.2 PCAPs'', ''.pcapng'', 60),
      (''v1.2 client logs'', ''-client.log'', 60), (''v1.2 server logs'', ''-server.log'', 60),
      (''v1.2 capture logs'', ''-capture.log'', 60)],
    pk_extra_artifacts = [],
    pk_excluded = [''v1.2-s4'', ''v12-smoke'', ''/raw/v1.1/''],
    pk_out = ''dist/pq-hybrid-downgrade-v12-repro.zip'',
    pk_extra_globs = [FAULTINJECT_DIR @ ''/tests/*.py'']\<rparr>"

definition package_v13 :: package where
  "package_v13 = \<lparr>pk_raw = ''docs/research/baselines/raw/v1.3'',
    pk_extra_raw = [],
    pk_documents = [REPRODUCTION_MD, PAPER_MD, EVIDENCE_MD, ''tools/v12_build_openssl_356.sh'', ''tools/v13_build_variants.sh'',
      ''docs/research/baselines/raw/v1.3-build.log''],
    pk_required_files = [FAULTINJECT_DIR @ ''/v12.py'', FAULTINJECT_DIR @ ''/pcap_hello.py'', FAULTINJECT_DIR @ ''/analyze.py'',
      ''tools/v13_build_variants.sh'', REPRODUCTION_MD, PAPER_MD, EVIDENCE_MD],
    pk_artifacts = [(''v1.3 JSON records'', ''.json'', 120), (''v1.3 PCAPs'', ''.pcapng'', 120),
      (''v1.3 client logs'', ''-client.log'', 120), (''v1.3 server logs'', ''-server.log'', 120),
      (''v1.3 capture logs'', ''-capture.log'', 120)],
    pk_extra_artifacts = [],
    pk_excluded = [''v13-smoke'', ''/raw/v1.1/'', ''/raw/v1.2/''],
    pk_out = ''dist/pq-hybrid-downgrade-v13-repro.zip'',
    pk_extra_globs = [FAULTINJECT_DIR @ ''/tests/*.py'']\<rparr>"

definition package_v14 :: package where
  "package_v14 = \<lparr>pk_raw = ''docs/research/baselines/raw/v1.4'',
    pk_extra_raw = [],
    pk_documents = [REPRODUCTION_MD, PAPER_MD, EVIDENCE_MD],
    pk_required_files = [FAULTINJECT_DIR @ ''/v12.py'', FAULTINJECT_DIR @ ''/pcap_hello.py'', FAULTINJECT_DIR @ ''/analyze.py'',
      REPRODUCTION_MD, PAPER_MD, EVIDENCE_MD],
    pk_artifacts = [(''v1.4 JSON records'', ''.json'', 60), (''v1.4 PCAPs'', ''.pcapng'', 60),
      (''v1.4 client logs'', ''-client.log'', 60), (''v1.4 server logs'', ''-server.log'', 60),
      (''v1.4 capture logs'', ''-capture.log'', 60)],
    pk_extra_artifacts = [],
    pk_excluded = [''v14-smoke'', ''/raw/v1.1/'', ''/raw/v1.2/'', ''/raw/v1.3/''],
    pk_out = ''dist/pq-hybrid-downgrade-v14-repro.zip'',
    pk_extra_globs = [FAULTINJECT_DIR @ ''/tests/*.py'']\<rparr>"

definition package_v15 :: package where
  "package_v15 = \<lparr>pk_raw = ''docs/research/baselines/raw/v1.5'',
    pk_extra_raw = [],
    pk_documents = [REPRODUCTION_MD, PAPER_MD, EVIDENCE_MD, ''tools/v15_setup.sh'', ''tools/v15/goserver/main.go'',
      ''tools/v15/goserver/go.mod'', ''tools/v15/rustserver/Cargo.toml'', ''tools/v15/rustserver/Cargo.lock'',
      ''tools/v15/rustserver/src/main.rs'', ''docs/research/baselines/raw/v1.5-setup.log''],
    pk_required_files = [FAULTINJECT_DIR @ ''/v15.py'', FAULTINJECT_DIR @ ''/pcap_hello.py'', ''tools/v15_setup.sh'', REPRODUCTION_MD,
      PAPER_MD, EVIDENCE_MD],
    pk_artifacts = [(''v1.5 JSON records'', ''.json'', 105), (''v1.5 PCAPs'', ''.pcapng'', 105),
      (''v1.5 client logs'', ''-client.log'', 105), (''v1.5 server logs'', ''-server.log'', 105),
      (''v1.5 capture logs'', ''-capture.log'', 105)],
    pk_extra_artifacts = [],
    pk_excluded = [''v15-smoke'', ''/raw/v1.1/'', ''/raw/v1.2/'', ''/raw/v1.3/'', ''/raw/v1.4/''],
    pk_out = ''dist/pq-hybrid-downgrade-v15-repro.zip'',
    pk_extra_globs = [FAULTINJECT_DIR @ ''/tests/*.py'']\<rparr>"

definition package_v16 :: package where
  "package_v16 = \<lparr>pk_raw = ''docs/research/baselines/raw/v1.6'',
    pk_extra_raw = [''docs/research/baselines/raw/v1.5-boringssl-latest'', ''docs/research/baselines/raw/v1.6-direct'',
      ''docs/research/baselines/raw/v1.6-caddy-2.11.4''],
    pk_documents = [REPRODUCTION_MD, PAPER_MD, EVIDENCE_MD, ''tools/v16_setup.sh'', ''tools/v15/goclient/main.go'',
      ''tools/v15/goclient/go.mod'', ''tools/v15/rustserver/Cargo.toml'', ''tools/v15/rustserver/Cargo.lock'',
      ''tools/v15/rustserver/src/bin/client.rs'', ''docs/research/baselines/raw/v1.6-setup.log'',
      ''docs/research/baselines/raw/nss-ubuntu-patches-20260929.log'', ''tools/v15_build_boringssl_latest.sh'',
      ''tools/v15_run_boringssl_latest.sh'', ''tools/v16_run_direct_defaults.sh'', ''tools/v16_run_caddy_2114.sh''],
    pk_required_files = [FAULTINJECT_DIR @ ''/v16.py'', FAULTINJECT_DIR @ ''/v15.py'', FAULTINJECT_DIR @ ''/pcap_hello.py'',
      ''tools/v16_setup.sh'', ''tools/v15_build_boringssl_latest.sh'', ''tools/v15_run_boringssl_latest.sh'',
      ''tools/v16_run_direct_defaults.sh'', ''tools/v16_run_caddy_2114.sh'',
      ''docs/research/baselines/raw/nss-ubuntu-patches-20260929.log'', REPRODUCTION_MD, PAPER_MD, EVIDENCE_MD],
    pk_artifacts = [(''v1.6 JSON records'', ''.json'', 36), (''v1.6 PCAPs'', ''.pcapng'', 36),
      (''v1.6 client logs'', ''-client.log'', 36), (''v1.6 server logs'', ''-server.log'', 36),
      (''v1.6 capture logs'', ''-capture.log'', 36)],
    pk_extra_artifacts = [(''latest BoringSSL JSON records'', ''docs/research/baselines/raw/v1.5-boringssl-latest'', ''.json'', 9),
      (''direct matrix JSON records'', ''docs/research/baselines/raw/v1.6-direct'', ''.json'', 36),
      (''latest Caddy JSON records'', ''docs/research/baselines/raw/v1.6-caddy-2.11.4'', ''.json'', 36)],
    pk_excluded = [''v16-smoke'', ''/raw/v1.1/'', ''/raw/v1.2/'', ''/raw/v1.3/'', ''/raw/v1.4/'', ''/raw/v1.5/''],
    pk_out = ''dist/pq-hybrid-downgrade-v16-repro.zip'',
    pk_extra_globs = [FAULTINJECT_DIR @ ''/tests/*.py'']\<rparr>"

definition package_v17 :: package where
  "package_v17 = \<lparr>pk_raw = ''docs/research/baselines/raw/v1.7'',
    pk_extra_raw = [''docs/research/baselines/raw/v1.7-openssl36''],
    pk_documents = [REPRODUCTION_MD, PAPER_MD, EVIDENCE_MD, ''tools/v17_setup.sh'', ''tools/v13_build_variants.sh'',
      ''docs/research/baselines/raw/v1.7-setup.log'', ''docs/research/baselines/raw/v1.7-build36.log'',
      ''docs/research/baselines/raw/v1.7-ldd36.log'', ''docs/research/baselines/raw/v1.7-tshark-version.log'',
      ''docs/research/baselines/raw/v1.7-tshark-verbose-audit.json''],
    pk_required_files = [FAULTINJECT_DIR @ ''/v17.py'', FAULTINJECT_DIR @ ''/v16.py'', FAULTINJECT_DIR @ ''/v12.py'',
      FAULTINJECT_DIR @ ''/analyze.py'', ''tools/v17_setup.sh'', ''tools/v13_build_variants.sh'',
      ''docs/research/baselines/raw/v1.7-tshark-verbose-audit.json'', REPRODUCTION_MD, PAPER_MD, EVIDENCE_MD],
    pk_artifacts = [(''v1.7 JSON records'', ''.json'', 15), (''v1.7 PCAPs'', ''.pcapng'', 15),
      (''v1.7 client logs'', ''-client.log'', 15), (''v1.7 server logs'', ''-server.log'', 15),
      (''v1.7 capture logs'', ''-capture.log'', 15)],
    pk_extra_artifacts = [
      (''OpenSSL 3.6 causal-isolation JSON records'', ''docs/research/baselines/raw/v1.7-openssl36'', ''.json'', 60),
      (''OpenSSL 3.6 causal-isolation PCAPs'', ''docs/research/baselines/raw/v1.7-openssl36'', ''.pcapng'', 60)],
    pk_excluded = [''v17-smoke'', ''/raw/v1.1/'', ''/raw/v1.2/'', ''/raw/v1.3/'', ''/raw/v1.4/'', ''/raw/v1.5/'', ''/raw/v1.6/''],
    pk_out = ''dist/pq-hybrid-downgrade-v17-repro.zip'',
    pk_extra_globs = [FAULTINJECT_DIR @ ''/tests/*.py'']\<rparr>"

definition package_v18 :: package where
  "package_v18 = \<lparr>pk_raw = ''docs/research/baselines/raw/v1.8'',
    pk_extra_raw = [''docs/research/baselines/raw/v1.8-e8''],
    pk_documents = [REPRODUCTION_MD, PAPER_MD, EVIDENCE_MD, ''tools/v18_setup.sh'', ''tools/v18_build_s2n.sh'',
      ''tools/v18_build_s2n_awslc_recovery.sh'', ''tools/v18_run.sh'', ''tools/v18_run_mbedtls.sh'',
      ''tools/v18_run_s2n.sh'', ''tools/v18_run_e8.sh'', ''tools/v18_run_e8_order.sh'',
      ''tools/v18/JavaTlsClient.java'', ''tools/v18/mbedtls_client.c'', ''tools/v18/node_tls_client.js'',
      ''tools/v18/python_tls_client.py'', ''tools/v18/wolfssl_client.c''],
    pk_required_files = [FAULTINJECT_DIR @ ''/v18.py'', FAULTINJECT_DIR @ ''/v16.py'', FAULTINJECT_DIR @ ''/v15.py'',
      FAULTINJECT_DIR @ ''/pcap_hello.py'', ''tools/v18_setup.sh'', ''tools/v18_build_s2n.sh'',
      ''tools/v18_run_e8_order.sh'', REPRODUCTION_MD, PAPER_MD, EVIDENCE_MD],
    pk_artifacts = [(''v1.8 JSON records'', ''.json'', 25), (''v1.8 PCAPs'', ''.pcapng'', 24),
      (''v1.8 client logs'', ''-client.log'', 24), (''v1.8 server logs'', ''-server.log'', 24),
      (''v1.8 capture logs'', ''-capture.log'', 24)],
    pk_extra_artifacts = [(''v1.8 Botan C3 JSON records'', ''docs/research/baselines/raw/v1.8-e8'', ''.json'', 16),
      (''v1.8 Botan C3 PCAPs'', ''docs/research/baselines/raw/v1.8-e8'', ''.pcapng'', 15)],
    pk_excluded = [''v1.8-diagnose'', ''/raw/v1.1/'', ''/raw/v1.2/'', ''/raw/v1.3/'', ''/raw/v1.4/'', ''/raw/v1.5/'',
      ''/raw/v1.6/'', ''/raw/v1.7/''],
    pk_out = ''dist/pq-hybrid-downgrade-v18-repro.zip'',
    pk_extra_globs = [FAULTINJECT_DIR @ ''/tests/*.py'']\<rparr>"

definition PACKAGES :: "(string \<times> package) list" where
  "PACKAGES = [(''v1.1'', package_v11), (''v1.2'', package_v12), (''v1.3'', package_v13), (''v1.4'', package_v14), (''v1.5'', package_v15), (''v1.6'', package_v16), (''v1.7'', package_v17), (''v1.8'', package_v18)]"
record tree =
  entries :: "string \<Rightarrow> string list"
  content :: "string \<Rightarrow> bytes option"

type_synonym archive = "(string \<times> bytes) list"

definition path_in :: "string \<Rightarrow> string \<Rightarrow> string" where "path_in dir name = dir @ ''/'' @ name"

text \<open>\<open>sorted(directory.glob("*" + suffix))\<close>; in one directory paths are ordered by their last component.\<close>

definition glob_in :: "tree \<Rightarrow> string \<Rightarrow> string \<Rightarrow> string list" where
  "glob_in t dir suffix = map (path_in dir) (sort (filter (ends_with suffix) (entries t dir)))"

text \<open>\<open>sorted(REPO_ROOT.glob(pattern))\<close> for a pattern of the form \<open>dir/*suffix\<close>; a name without asterisk is itself.\<close>

definition glob :: "tree \<Rightarrow> string \<Rightarrow> string list" where
  "glob t pat = (case rsplit_once CHR ''/'' pat of
     Some (dir, CHR ''*'' # suffix) \<Rightarrow> glob_in t dir suffix
   | Some (dir, name) \<Rightarrow> if List.member (entries t dir) name then [pat] else []
   | None \<Rightarrow> [])"

definition zip_members :: "tree \<Rightarrow> package \<Rightarrow> string list" where
  "zip_members t config =
     glob_in t (pk_raw config) [] @
     concat (map (\<lambda>raw_dir. glob_in t raw_dir []) (pk_extra_raw config)) @
     glob_in t FAULTINJECT_DIR ''.py'' @
     pk_documents config @
     concat (map (glob t) (pk_extra_globs config))"

definition build_zip :: "tree \<Rightarrow> string \<Rightarrow> archive result" where
  "build_zip t package = (case map_of PACKAGES package of
     None \<Rightarrow> Inl (KeyError package)
   | Some config \<Rightarrow> Inr (List.map_filter (\<lambda>m. map_option (Pair m) (content t m)) (zip_members t config)))"

definition verify_missing :: "string list \<Rightarrow> string \<Rightarrow> package \<Rightarrow> string list" where
  "verify_missing names package config =
     filter (\<lambda>required. \<not> List.member names required) (pk_required_files config) @
     (let raw_names = filter (starts_with (pk_raw config @ ''/'')) names in
      List.map_filter (\<lambda>(label, suffix, minimum). if length (filter (ends_with suffix) raw_names) < minimum then Some label else None)
        (pk_artifacts config)) @
     List.map_filter (\<lambda>(label, raw_dir, suffix, minimum).
        if length (filter (\<lambda>name. starts_with (raw_dir @ ''/'') name \<and> ends_with suffix name) names) < minimum then Some label else None)
       (pk_extra_artifacts config) @
     (if list_ex (\<lambda>name. list_ex (\<lambda>marker. contains marker name) (pk_excluded config)) names
      then [''excluded '' @ package @ '' diagnostic or partial data''] else [])"

definition verify_zip :: "archive \<Rightarrow> string \<Rightarrow> (bool \<times> string list) result" where
  "verify_zip a package = (case map_of PACKAGES package of
     None \<Rightarrow> Inl (KeyError package)
   | Some config \<Rightarrow> (let missing = verify_missing (map fst a) package config in Inr (missing = [], missing)))"

section \<open>Members of an archive\<close>

lemma build_zip_Inr:
  "map_of PACKAGES package = Some config \<Longrightarrow>
   build_zip t package = Inr (map (\<lambda>m. (m, the (content t m))) (filter (\<lambda>m. content t m \<noteq> None) (zip_members t config)))"
proof -
  assume "map_of PACKAGES package = Some config"
  moreover have "List.map_filter (\<lambda>m. map_option (Pair m) (content t m)) ms = map (\<lambda>m. (m, the (content t m))) (filter (\<lambda>m. content t m \<noteq> None) ms)" for ms
    unfolding List.map_filter_def by (simp add: comp_def) auto
  ultimately show ?thesis by (simp add: build_zip_def)
qed

text \<open>A tree as a file system gives it: names are single components, and a file is an entry of its directory.\<close>

definition tree_ok :: "tree \<Rightarrow> bool" where
  "tree_ok t \<longleftrightarrow> (\<forall>d. distinct (entries t d) \<and> (\<forall>n \<in> set (entries t d). CHR ''/'' \<notin> set n)) \<and>
     (\<forall>d n. CHR ''/'' \<notin> set n \<longrightarrow> content t (path_in d n) \<noteq> None \<longrightarrow> n \<in> set (entries t d))"

text \<open>The files of a directory with a suffix, and the directories from which a package takes files.\<close>

definition dir_files :: "tree \<Rightarrow> string \<Rightarrow> string \<Rightarrow> string set" where
  "dir_files t d s = {n \<in> set (entries t d). ends_with s n \<and> content t (path_in d n) \<noteq> None}"

lemma path_in_inj [simp]: "path_in d n = path_in d m \<longleftrightarrow> n = m"
  by (simp add: path_in_def)

lemma files_glob_in:
  assumes "tree_ok t"
  shows "filter (\<lambda>m. content t m \<noteq> None) (glob_in t d s) = map (path_in d) (sorted_list_of_set (dir_files t d s))"
proof -
  have d: "distinct (entries t d)" using assms by (simp add: tree_ok_def)
  let ?l = "filter (\<lambda>n. content t (path_in d n) \<noteq> None) (sort (filter (ends_with s) (entries t d)))"
  have "filter (\<lambda>m. content t m \<noteq> None) (glob_in t d s) = map (path_in d) ?l" by (simp add: glob_in_def filter_map comp_def)
  moreover have "sorted_list_of_set (dir_files t d s) = ?l"
  proof (rule sorted_distinct_set_unique)
    show "sorted ?l" by (intro sorted_wrt_filter sorted_sort)
    show "set (sorted_list_of_set (dir_files t d s)) = set ?l" by (auto simp: dir_files_def)
  qed (use d in auto)
  ultimately show ?thesis by simp
qed

text \<open>The entry of a pattern of a package: the directory and the suffix.\<close>

definition glob_parts :: "string \<Rightarrow> (string \<times> string) option" where
  "glob_parts pat = (case rsplit_once CHR ''/'' pat of Some (dir, CHR ''*'' # suffix) \<Rightarrow> Some (dir, suffix) | _ \<Rightarrow> None)"

lemma glob_of_parts: "glob_parts pat = Some (d, s) \<Longrightarrow> glob t pat = glob_in t d s"
  by (auto simp: glob_parts_def glob_def split: option.splits prod.splits list.splits if_splits char.splits bool.splits)

section \<open>The table of packages\<close>

definition parent_dir :: "string \<Rightarrow> string" where
  "parent_dir p = (case rsplit_once CHR ''/'' p of Some (d, _) \<Rightarrow> d | None \<Rightarrow> [])"

definition sources :: "package \<Rightarrow> (string \<times> string) list" where
  "sources config = (pk_raw config, []) # map (\<lambda>d. (d, [])) (pk_extra_raw config) @ [(FAULTINJECT_DIR, ''.py'')] @
     List.map_filter glob_parts (pk_extra_globs config)"

definition package_layout :: "package \<Rightarrow> bool" where
  "package_layout config \<longleftrightarrow>
     (let dirs = map fst (sources config); raws = pk_raw config # pk_extra_raw config in
      distinct dirs \<and> distinct (pk_documents config) \<and>
      list_all (\<lambda>doc. CHR ''/'' \<in> set doc \<and> \<not> List.member dirs (parent_dir doc)) (pk_documents config) \<and>
      list_all (\<lambda>pat. glob_parts pat \<noteq> None) (pk_extra_globs config) \<and>
      list_all (\<lambda>raw. list_all (\<lambda>d. d = raw \<or> \<not> starts_with (raw @ ''/'') (d @ ''/'')) dirs \<and>
                     list_all (\<lambda>doc. \<not> starts_with (raw @ ''/'') doc) (pk_documents config)) raws \<and>
      list_all (\<lambda>f. List.member (pk_documents config) f \<or>
                   CHR ''/'' \<in> set f \<and> parent_dir f = FAULTINJECT_DIR \<and> ends_with ''.py'' f) (pk_required_files config) \<and>
      list_all (\<lambda>(l, s, m). CHR ''/'' \<notin> set s) (pk_artifacts config) \<and>
      list_all (\<lambda>(l, d, s, m). List.member (pk_extra_raw config) d \<and> CHR ''/'' \<notin> set s) (pk_extra_artifacts config))"

lemma packages_layout: "list_all (\<lambda>(n, config). package_layout config) PACKAGES"
  by code_simp

section \<open>Paths\<close>

lemma parent_path_in: "CHR ''/'' \<notin> set n \<Longrightarrow> parent_dir (path_in d n) = d"
  using rsplit_once_append [of "CHR ''/''" n d] by (simp add: parent_dir_def path_in_def)

lemma path_in_cong: "CHR ''/'' \<notin> set n \<Longrightarrow> CHR ''/'' \<notin> set m \<Longrightarrow> path_in d n = path_in e m \<longleftrightarrow> d = e \<and> n = m"
  using parent_path_in [of n d] parent_path_in [of m e] by (metis path_in_inj)

lemma path_parts:
  assumes "CHR ''/'' \<in> set p"
  obtains n where "CHR ''/'' \<notin> set n" "p = path_in (parent_dir p) n"
proof -
  obtain d n where "p = d @ CHR ''/'' # n" "CHR ''/'' \<notin> set n" using split_list_last [OF assms] by blast
  then show thesis using that [of n] parent_path_in [of n d] by (simp add: path_in_def)
qed

text \<open>A path below a directory: the directory of the path is this directory or one below it.\<close>

lemma below_dir:
  assumes "starts_with (raw @ ''/'') (path_in d n)" "CHR ''/'' \<notin> set n"
  shows "starts_with (raw @ ''/'') (d @ ''/'')"
proof -
  obtain t where t: "(d @ ''/'') @ n = (raw @ ''/'') @ t" using assms(1) by (auto simp: starts_with_iff path_in_def)
  from iffD1 [OF append_eq_append_conv2 t] obtain us
    where "d @ ''/'' = (raw @ ''/'') @ us \<and> us @ n = t \<or> (d @ ''/'') @ us = raw @ ''/'' \<and> n = us @ t" ..
  then consider "d @ ''/'' = (raw @ ''/'') @ us" | "(d @ ''/'') @ us = raw @ ''/''" "n = us @ t" by (elim disjE conjE)
  then show ?thesis
  proof cases
    case 1
    then show ?thesis by (auto simp: starts_with_iff)
  next
    case 2
    have "us = []"
    proof (rule ccontr)
      assume "us \<noteq> []"
      then have "last us = last (raw @ ''/'')" using 2(1) by (metis last_appendR)
      then have "last us = CHR ''/''" by simp
      then show False using 2(2) assms(2) \<open>us \<noteq> []\<close> by (metis last_in_set Un_iff set_append)
    qed
    then show ?thesis using 2(1) by (simp add: starts_with_iff)
  qed
qed

lemma ends_with_path_in: "CHR ''/'' \<notin> set s \<Longrightarrow> ends_with s (path_in d n) \<longleftrightarrow> ends_with s n"
proof
  assume s: "CHR ''/'' \<notin> set s" and "ends_with s (path_in d n)"
  then obtain t where t: "(d @ ''/'') @ n = t @ s" by (auto simp: ends_with_iff path_in_def)
  from iffD1 [OF append_eq_append_conv2 t] obtain us
    where "d @ ''/'' = t @ us \<and> us @ n = s \<or> (d @ ''/'') @ us = t \<and> n = us @ s" ..
  then consider "n = us @ s" | "s = us @ n" "d @ ''/'' = t @ us" by (elim disjE conjE) auto
  then show "ends_with s n"
  proof cases
    case 2
    have "us = []"
    proof (rule ccontr)
      assume "us \<noteq> []"
      then have "last us = CHR ''/''" using 2(2) by (metis last_appendR last_snoc)
      then show False using s 2(1) \<open>us \<noteq> []\<close> by (metis last_in_set Un_iff set_append)
    qed
    then show ?thesis using 2(1) by (auto simp: ends_with_iff)
  qed (auto simp: ends_with_iff)
next
  assume "ends_with s n"
  then show "ends_with s (path_in d n)" by (auto simp: ends_with_iff path_in_def)
qed

section \<open>What an archive holds\<close>

definition source_files :: "tree \<Rightarrow> string \<times> string \<Rightarrow> string list" where
  "source_files t = (\<lambda>(d, s). map (path_in d) (sorted_list_of_set (dir_files t d s)))"

lemma packages_layoutD: "map_of PACKAGES package = Some config \<Longrightarrow> package_layout config"
  using packages_layout by (auto simp: list_all_iff dest: map_of_SomeD)

lemma glob_parts_layout: "package_layout config \<Longrightarrow> pat \<in> set (pk_extra_globs config) \<Longrightarrow> \<exists>d s. glob_parts pat = Some (d, s)"
  by (auto simp: package_layout_def Let_def list_all_iff)

lemma filter_glob_in: "tree_ok t \<Longrightarrow> filter (\<lambda>m. content t m \<noteq> None) (glob_in t d s) = source_files t (d, s)"
  unfolding source_files_def prod.case by (rule files_glob_in)

lemma member_names:
  assumes "tree_ok t" "package_layout config"
  shows "filter (\<lambda>m. content t m \<noteq> None) (zip_members t config) =
    source_files t (pk_raw config, []) @ concat (map (\<lambda>d. source_files t (d, [])) (pk_extra_raw config)) @
    source_files t (FAULTINJECT_DIR, ''.py'') @ filter (\<lambda>m. content t m \<noteq> None) (pk_documents config) @
    concat (map (source_files t) (List.map_filter glob_parts (pk_extra_globs config)))"
proof -
  let ?f = "filter (\<lambda>m. content t m \<noteq> None)"
  have "?f (concat (map (glob t) pats)) = concat (map (source_files t) (List.map_filter glob_parts pats))"
    if "set pats \<subseteq> set (pk_extra_globs config)" for pats
    using that
  proof (induction pats)
    case (Cons pat pats)
    obtain d s where "glob_parts pat = Some (d, s)" using glob_parts_layout [OF assms(2), of pat] Cons.prems by auto
    then show ?case using Cons by (simp add: glob_of_parts filter_glob_in [OF assms(1)] List.map_filter_simps(1) del: not_None_eq)
  qed (simp add: List.map_filter_simps(2))
  moreover have "?f (concat (map (\<lambda>d. glob_in t d []) ds)) = concat (map (\<lambda>d. source_files t (d, [])) ds)" for ds
    by (induction ds) (simp_all add: filter_glob_in [OF assms(1)] del: not_None_eq)
  ultimately show ?thesis by (simp add: zip_members_def filter_glob_in [OF assms(1)] del: not_None_eq)
qed

lemma source_files_set: "set (source_files t (d, s)) = path_in d ` dir_files t d s"
  by (simp add: source_files_def dir_files_def)

lemma source_files_distinct: "distinct (source_files t (d, s))"
  by (simp add: source_files_def distinct_map inj_on_def)

text \<open>The files that a package takes from the repository.\<close>

definition bundled :: "tree \<Rightarrow> package \<Rightarrow> string set" where
  "bundled t config = {p. content t p \<noteq> None \<and>
     (p \<in> set (pk_documents config) \<or> (\<exists>(d, s) \<in> set (sources config). \<exists>n \<in> dir_files t d s. p = path_in d n))}"

lemma member_set:
  assumes "tree_ok t" "package_layout config"
  shows "set (filter (\<lambda>m. content t m \<noteq> None) (zip_members t config)) = bundled t config"
proof -
  have "set (filter (\<lambda>m. content t m \<noteq> None) (zip_members t config)) =
      (\<Union>x \<in> set (sources config). set (source_files t x)) \<union> {p \<in> set (pk_documents config). content t p \<noteq> None}"
    unfolding member_names [OF assms] sources_def by (simp add: Un_ac)
  also have "\<dots> = bundled t config"
  proof -
    have "set (source_files t x) = {p. content t p \<noteq> None \<and> (case x of (d, s) \<Rightarrow> \<exists>n \<in> dir_files t d s. p = path_in d n)}" for x
      by (cases x) (auto simp: source_files_set dir_files_def)
    note e = this
    show ?thesis unfolding bundled_def e set_eq_iff Un_iff UN_iff mem_Collect_eq by blast
  qed
  finally show ?thesis .
qed

lemma source_files_parent: "tree_ok t \<Longrightarrow> p \<in> set (source_files t (d, s)) \<Longrightarrow> CHR ''/'' \<in> set p \<and> parent_dir p = d"
  by (auto simp: source_files_set dir_files_def tree_ok_def parent_path_in) (simp add: path_in_def)

text \<open>No member occurs twice: the directories of a package differ, and none of its documents lies in one of them.\<close>

lemma distinct_concat_sources:
  assumes "tree_ok t" "distinct (map fst xs)"
  shows "distinct (concat (map (source_files t) xs))"
  using assms(2)
proof (induction xs)
  case (Cons x xs)
  obtain d s where x: "x = (d, s)" by (cases x)
  have "p \<notin> set (source_files t y)" if "p \<in> set (source_files t (d, s))" "y \<in> set xs" for p y
  proof
    assume "p \<in> set (source_files t y)"
    then have "fst y = d" using source_files_parent [OF assms(1)] that(1) by (metis prod.collapse)
    then show False using Cons.prems that(2) by (auto simp: x)
  qed
  then show ?case using Cons source_files_distinct [of t d s] by (auto simp: x)
qed simp

lemma member_names_distinct:
  assumes "tree_ok t" "package_layout config"
  shows "distinct (filter (\<lambda>m. content t m \<noteq> None) (zip_members t config))"
proof -
  let ?docs = "filter (\<lambda>m. content t m \<noteq> None) (pk_documents config)"
  have "distinct (concat (map (source_files t) (sources config)))"
    by (rule distinct_concat_sources [OF assms(1)]) (use assms(2) in \<open>simp add: package_layout_def Let_def\<close>)
  moreover have "distinct ?docs" using assms(2) by (simp add: package_layout_def Let_def)
  moreover have "set ?docs \<inter> set (concat (map (source_files t) (sources config))) = {}"
  proof -
    have "p \<notin> set (pk_documents config)" if "x \<in> set (sources config)" "p \<in> set (source_files t x)" for p x
    proof -
      have "parent_dir p = fst x" using source_files_parent [OF assms(1), of p "fst x" "snd x"] that(2) by simp
      then have "List.member (map fst (sources config)) (parent_dir p)" using that(1) by simp
      then show ?thesis using assms(2) by (auto simp: package_layout_def Let_def list_all_iff)
    qed
    then show ?thesis by auto
  qed
  moreover have "mset (filter (\<lambda>m. content t m \<noteq> None) (zip_members t config)) =
      mset (?docs @ concat (map (source_files t) (sources config)))"
    unfolding member_names [OF assms] sources_def by (simp add: comp_def add_ac)
  ultimately show ?thesis unfolding distinct_append mset_eq_imp_distinct_iff by (metis distinct_append mset_eq_imp_distinct_iff)
qed

section \<open>Building and verifying\<close>

text \<open>What a package promises, in terms of the repository alone.\<close>

definition package_complete :: "tree \<Rightarrow> package \<Rightarrow> bool" where
  "package_complete t config \<longleftrightarrow>
     (\<forall>f \<in> set (pk_required_files config). content t f \<noteq> None) \<and>
     (\<forall>(label, suffix, minimum) \<in> set (pk_artifacts config). minimum \<le> card (dir_files t (pk_raw config) suffix)) \<and>
     (\<forall>(label, dir, suffix, minimum) \<in> set (pk_extra_artifacts config). minimum \<le> card (dir_files t dir suffix)) \<and>
     (\<forall>p \<in> bundled t config. \<forall>marker \<in> set (pk_excluded config). \<not> contains marker p)"

lemma verify_missing_empty:
  "verify_missing names package config = [] \<longleftrightarrow>
     (\<forall>f \<in> set (pk_required_files config). f \<in> set names) \<and>
     (\<forall>(label, suffix, minimum) \<in> set (pk_artifacts config).
        minimum \<le> length (filter (\<lambda>p. starts_with (pk_raw config @ ''/'') p \<and> ends_with suffix p) names)) \<and>
     (\<forall>(label, dir, suffix, minimum) \<in> set (pk_extra_artifacts config).
        minimum \<le> length (filter (\<lambda>p. starts_with (dir @ ''/'') p \<and> ends_with suffix p) names)) \<and>
     (\<forall>p \<in> set names. \<forall>marker \<in> set (pk_excluded config). \<not> contains marker p)"
proof -
  have mf: "List.map_filter f xs = [] \<longleftrightarrow> (\<forall>x \<in> set xs. f x = None)" for f :: "'x \<Rightarrow> 'y option" and xs
    by (induction xs) (auto simp: List.map_filter_simps split: option.splits)
  have ff: "filter P (filter Q xs) = filter (\<lambda>x. Q x \<and> P x) xs" for P Q and xs :: "string list" by (induction xs) auto
  show ?thesis
    unfolding verify_missing_def Let_def append_is_Nil_conv mf ff
    by (simp add: filter_empty_conv list_ex_iff case_prod_beta not_less conj_ac del: not_None_eq)
qed

text \<open>A suffix is counted below a raw directory exactly for the files of this directory.\<close>

lemma raw_count:
  assumes ok: "tree_ok t" and l: "package_layout config" and raw: "raw \<in> set (pk_raw config # pk_extra_raw config)" and s: "CHR ''/'' \<notin> set s"
  shows "length (filter (\<lambda>p. starts_with (raw @ ''/'') p \<and> ends_with s p) (filter (\<lambda>m. content t m \<noteq> None) (zip_members t config))) =
    card (dir_files t raw s)"
proof -
  let ?names = "filter (\<lambda>m. content t m \<noteq> None) (zip_members t config)" and ?P = "\<lambda>p. starts_with (raw @ ''/'') p \<and> ends_with s p"
  have lay: "d = raw \<or> \<not> starts_with (raw @ ''/'') (d @ ''/'')" if "(d, s') \<in> set (sources config)" for d s'
    using l raw that unfolding package_layout_def Let_def list_all_iff by fastforce
  have docs: "\<not> starts_with (raw @ ''/'') p" if "p \<in> set (pk_documents config)" for p
    using l raw that unfolding package_layout_def Let_def list_all_iff by blast
  have src: "(raw, []) \<in> set (sources config)" using raw by (auto simp: sources_def)
  have "set (filter ?P ?names) = path_in raw ` dir_files t raw s"
  proof (rule set_eqI, rule iffI)
    fix p assume "p \<in> set (filter ?P ?names)"
    then have p: "p \<in> bundled t config" "?P p" unfolding member_set [OF ok l, symmetric] by simp_all
    then obtain d s' n where n: "(d, s') \<in> set (sources config)" "n \<in> dir_files t d s'" "p = path_in d n"
      using docs by (auto simp: bundled_def)
    have nd: "CHR ''/'' \<notin> set n" using n(2) ok by (auto simp: dir_files_def tree_ok_def)
    have "d = raw" using lay [OF n(1)] below_dir [of raw d n] p(2) n(3) nd by blast
    then have "n \<in> dir_files t raw s" using n(2,3) p(2) ends_with_path_in [OF s, of d n] by (simp add: dir_files_def)
    then show "p \<in> path_in raw ` dir_files t raw s" using n(3) \<open>d = raw\<close> by simp
  next
    fix p assume "p \<in> path_in raw ` dir_files t raw s"
    then obtain n where n: "n \<in> dir_files t raw s" "p = path_in raw n" by blast
    then have "n \<in> dir_files t raw []" "content t p \<noteq> None" by (simp_all add: dir_files_def ends_with_def)
    then have "p \<in> bundled t config" unfolding bundled_def mem_Collect_eq using src n(2) by blast
    moreover have "?P p" using n by (simp add: dir_files_def ends_with_path_in [OF s]) (simp add: path_in_def starts_with_iff)
    ultimately show "p \<in> set (filter ?P ?names)" unfolding member_set [OF ok l, symmetric] by simp
  qed
  moreover have "card (set (filter ?P ?names)) = length (filter ?P ?names)"
    by (rule distinct_card [OF distinct_filter [OF member_names_distinct [OF ok l]]])
  moreover have "card (path_in raw ` dir_files t raw s) = card (dir_files t raw s)" by (rule card_image) (simp add: inj_on_def)
  ultimately show ?thesis by (simp only:)
qed

lemma required_bundled:
  assumes "tree_ok t" "package_layout config" "f \<in> set (pk_required_files config)"
  shows "f \<in> bundled t config \<longleftrightarrow> content t f \<noteq> None"
proof
  assume c: "content t f \<noteq> None"
  have "f \<in> set (pk_documents config) \<or> CHR ''/'' \<in> set f \<and> parent_dir f = FAULTINJECT_DIR \<and> ends_with ''.py'' f"
    using assms(2,3) unfolding package_layout_def Let_def list_all_iff by auto
  then show "f \<in> bundled t config"
  proof
    assume f: "CHR ''/'' \<in> set f \<and> parent_dir f = FAULTINJECT_DIR \<and> ends_with ''.py'' f"
    obtain n where n: "CHR ''/'' \<notin> set n" "f = path_in FAULTINJECT_DIR n" using path_parts [of f] f by metis
    have "n \<in> set (entries t FAULTINJECT_DIR)" using assms(1) c n by (auto simp: tree_ok_def)
    moreover have "ends_with ''.py'' n" using f n(2) ends_with_path_in [of "''.py''" FAULTINJECT_DIR n] by simp
    ultimately have "n \<in> dir_files t FAULTINJECT_DIR ''.py''" using c n(2) by (simp add: dir_files_def)
    moreover have "(FAULTINJECT_DIR, ''.py'') \<in> set (sources config)" by (simp add: sources_def)
    ultimately show ?thesis using c n(2) unfolding bundled_def mem_Collect_eq by blast
  qed (use c in \<open>simp add: bundled_def\<close>)
qed (simp add: bundled_def)

text \<open>
  C38. A built archive verifies exactly if the repository holds what the package promises. For every one
  of the eight packages, whatever the repository contains: the archive that is built is accepted if and
  only if every required file exists, every kind of artifact reaches its minimum number of files in the
  raw directory it belongs to, and no bundled path contains a marker of excluded data. So each required
  file is put into the archive by the documents or the globs of its own package, the artifacts are
  counted where they lie and nowhere else, and a file that is missing is reported by its name.
\<close>

theorem build_zip_verifies:
  assumes "tree_ok t" "map_of PACKAGES package = Some config"
  shows "\<exists>a missing. build_zip t package = Inr a \<and> verify_zip a package = Inr (package_complete t config, missing) \<and>
    (\<forall>f \<in> set (pk_required_files config). content t f = None \<longrightarrow> f \<in> set missing)"
proof -
  let ?names = "filter (\<lambda>m. content t m \<noteq> None) (zip_members t config)"
  let ?a = "map (\<lambda>m. (m, the (content t m))) ?names"
  have l: "package_layout config" by (rule packages_layoutD [OF assms(2)])
  have fst: "map fst ?a = ?names" by (simp add: comp_def)
  note set = member_set [OF assms(1) l]
  have art: "minimum \<le> length (filter (\<lambda>p. starts_with (pk_raw config @ ''/'') p \<and> ends_with suffix p) ?names) \<longleftrightarrow>
      minimum \<le> card (dir_files t (pk_raw config) suffix)" if "(label, suffix, minimum) \<in> set (pk_artifacts config)" for label suffix minimum
  proof -
    have "CHR ''/'' \<notin> set suffix" using l that unfolding package_layout_def Let_def list_all_iff by fastforce
    then show ?thesis using raw_count [OF assms(1) l, of "pk_raw config" suffix] by simp
  qed
  have extra: "minimum \<le> length (filter (\<lambda>p. starts_with (dir @ ''/'') p \<and> ends_with suffix p) ?names) \<longleftrightarrow>
      minimum \<le> card (dir_files t dir suffix)" if "(label, dir, suffix, minimum) \<in> set (pk_extra_artifacts config)" for label dir suffix minimum
  proof -
    have "CHR ''/'' \<notin> set suffix" "dir \<in> set (pk_extra_raw config)" using l that unfolding package_layout_def Let_def list_all_iff by fastforce+
    then show ?thesis using raw_count [OF assms(1) l, of dir suffix] by simp
  qed
  have "verify_missing ?names package config = [] \<longleftrightarrow> package_complete t config"
    unfolding verify_missing_empty package_complete_def set
    using required_bundled [OF assms(1) l] art extra by (simp add: case_prod_beta del: not_None_eq) fastforce
  moreover have "f \<in> set (verify_missing ?names package config)" if "f \<in> set (pk_required_files config)" "content t f = None" for f
    using that required_bundled [OF assms(1) l that(1)] set by (simp add: verify_missing_def)
  moreover have "verify_zip ?a package = Inr (verify_missing ?names package config = [], verify_missing ?names package config)"
    unfolding verify_zip_def assms(2) fst option.case Let_def ..
  ultimately show ?thesis using build_zip_Inr [OF assms(2), of t] by (intro exI conjI) (simp_all only: ball_simps, blast)
qed

text \<open>The tree that unpacking an archive gives: its members, and the directories they lie in.\<close>

definition unpack :: "archive \<Rightarrow> tree" where
  "unpack a = \<lparr>entries = (\<lambda>d. remdups (List.map_filter (\<lambda>p. if starts_with (d @ ''/'') p
       then Some (takeWhile (\<lambda>c. c \<noteq> CHR ''/'') (drop (length d + 1) p)) else None) (map fst a))), content = map_of a\<rparr>"

lemma unpack_entries:
  "n \<in> set (entries (unpack a) d) \<longleftrightarrow> (\<exists>q. d @ ''/'' @ q \<in> fst ` set a \<and> n = takeWhile (\<lambda>c. c \<noteq> CHR ''/'') q)"
proof -
  have mf: "y \<in> set (List.map_filter f xs) \<longleftrightarrow> (\<exists>x \<in> set xs. f x = Some y)" for f :: "string \<Rightarrow> string option" and y xs
    by (induction xs) (auto simp: List.map_filter_simps split: option.splits)
  have "n \<in> set (entries (unpack a) d) \<longleftrightarrow>
      (\<exists>p \<in> fst ` set a. starts_with (d @ ''/'') p \<and> n = takeWhile (\<lambda>c. c \<noteq> CHR ''/'') (drop (length d + 1) p))"
    by (auto simp: unpack_def mf split: if_splits)
  also have "\<dots> \<longleftrightarrow> (\<exists>q. d @ ''/'' @ q \<in> fst ` set a \<and> n = takeWhile (\<lambda>c. c \<noteq> CHR ''/'') q)" (is "?L \<longleftrightarrow> ?R")
  proof
    assume ?L
    then obtain p where p: "p \<in> fst ` set a" "starts_with (d @ ''/'') p" "n = takeWhile (\<lambda>c. c \<noteq> CHR ''/'') (drop (length d + 1) p)" by blast
    from p(2) obtain q where "p = d @ ''/'' @ q" by (auto simp: starts_with_iff)
    then show ?R using p(1,3) by (intro exI [of _ q]) simp
  next
    assume ?R
    then obtain q where q: "d @ ''/'' @ q \<in> fst ` set a" "n = takeWhile (\<lambda>c. c \<noteq> CHR ''/'') q" by blast
    show ?L by (rule bexI [OF _ q(1)]) (simp add: q(2) starts_with_iff)
  qed
  finally show ?thesis .
qed

lemma takeWhile_component: "CHR ''/'' \<notin> set n \<Longrightarrow> takeWhile (\<lambda>c. c \<noteq> CHR ''/'') n = n"
  by (induction n) auto

lemma unpack_ok: "tree_ok (unpack a)"
proof -
  have "distinct (entries (unpack a) d)" for d by (simp add: unpack_def)
  moreover have "CHR ''/'' \<notin> set n" if "n \<in> set (entries (unpack a) d)" for d n
    using that by (auto simp: unpack_entries dest: set_takeWhileD)
  moreover have "n \<in> set (entries (unpack a) d)" if "CHR ''/'' \<notin> set n" "content (unpack a) (path_in d n) \<noteq> None" for d n
  proof -
    have "path_in d n \<in> fst ` set a" using that(2) by (auto simp: unpack_def map_of_eq_None_iff)
    then show ?thesis unfolding unpack_entries path_in_def by (intro exI [of _ n] conjI takeWhile_component [OF that(1), symmetric])
  qed
  ultimately show ?thesis unfolding tree_ok_def by blast
qed

text \<open>What the unpacked archive of a package holds: the bundled files and nothing else.\<close>

lemma unpacked_content:
  assumes "tree_ok t" "package_layout config" "a = map (\<lambda>m. (m, the (content t m))) (filter (\<lambda>m. content t m \<noteq> None) (zip_members t config))"
  shows "fst ` set a = bundled t config" "content (unpack a) p = (if p \<in> bundled t config then content t p else None)"
proof -
  have "map fst a = filter (\<lambda>m. content t m \<noteq> None) (zip_members t config)" by (simp add: assms(3) comp_def)
  then show set: "fst ` set a = bundled t config" using member_set [OF assms(1,2)] by (metis set_map)
  show "content (unpack a) p = (if p \<in> bundled t config then content t p else None)"
  proof (cases "map_of a p")
    case None
    then show ?thesis by (simp add: unpack_def map_of_eq_None_iff set)
  next
    case (Some v)
    then have m: "(p, v) \<in> set a" by (rule map_of_SomeD)
    then have "p \<in> bundled t config" using set by force
    moreover have "content t p = Some v" using m by (auto simp: assms(3))
    ultimately show ?thesis using Some by (simp add: unpack_def)
  qed
qed

lemma unpacked_dirs:
  assumes "tree_ok t" "package_layout config" "a = map (\<lambda>m. (m, the (content t m))) (filter (\<lambda>m. content t m \<noteq> None) (zip_members t config))"
    and "(d, s) \<in> set (sources config)"
  shows "dir_files (unpack a) d s = dir_files t d s"
proof (rule set_eqI, rule iffI)
  note cont = unpacked_content [OF assms(1-3)]
  fix n
  {
    assume n: "n \<in> dir_files (unpack a) d s"
    then have "CHR ''/'' \<notin> set n" using unpack_ok [of a] by (auto simp: dir_files_def tree_ok_def)
    moreover have "content t (path_in d n) \<noteq> None" using n cont(2) by (auto simp: dir_files_def split: if_splits)
    ultimately show "n \<in> dir_files t d s" using assms(1) n by (simp add: dir_files_def tree_ok_def)
  next
    assume n: "n \<in> dir_files t d s"
    then have b: "path_in d n \<in> bundled t config" using assms(4) by (auto simp: bundled_def dir_files_def)
    have nd: "CHR ''/'' \<notin> set n" using n assms(1) by (auto simp: dir_files_def tree_ok_def)
    have "n \<in> set (entries (unpack a) d)"
      using b unfolding unpack_entries cont(1) path_in_def by (intro exI [of _ n] conjI takeWhile_component [OF nd, symmetric])
    then show "n \<in> dir_files (unpack a) d s" using n b cont(2) by (simp add: dir_files_def)
  }
qed

text \<open>
  C40. Unpacked anywhere, an archive can be built and verified again: building the package from the tree
  that unpacking gives returns the very same archive, member by member and in the same order, so the
  bundle is closed under its own build, no member occurs twice, and every member is a file of the
  repository under its relative path with its content.
\<close>

theorem rebuild_unpacked:
  assumes "tree_ok t" "build_zip t package = Inr a"
  shows "build_zip (unpack a) package = Inr a \<and> distinct (map fst a) \<and> list_all (\<lambda>(p, c). content t p = Some c) a"
proof -
  obtain config where c: "map_of PACKAGES package = Some config"
    using assms(2) by (auto simp: build_zip_def split: option.splits)
  have l: "package_layout config" by (rule packages_layoutD [OF c])
  let ?f = "\<lambda>t. filter (\<lambda>m. content t m \<noteq> None) (zip_members t config)"
  have a: "a = map (\<lambda>m. (m, the (content t m))) (?f t)" using assms(2) build_zip_Inr [OF c, of t] by simp
  have names: "map fst a = ?f t" by (simp add: a comp_def)
  have val: "content t p = Some v" if "(p, v) \<in> set a" for p v using that by (auto simp: a)
  note cont = unpacked_content(2) [OF assms(1) l a]
  have "dir_files (unpack a) d s = dir_files t d s" if "(d, s) \<in> set (sources config)" for d s
    by (rule unpacked_dirs [OF assms(1) l a that])
  then have src: "source_files (unpack a) x = source_files t x" if "x \<in> set (sources config)" for x
    using that by (cases x) (simp add: source_files_def)
  have docs: "filter (\<lambda>m. content (unpack a) m \<noteq> None) (pk_documents config) = filter (\<lambda>m. content t m \<noteq> None) (pk_documents config)"
    by (rule filter_cong) (auto simp: cont bundled_def)
  have maps: "map (\<lambda>d. source_files (unpack a) (d, [])) (pk_extra_raw config) = map (\<lambda>d. source_files t (d, [])) (pk_extra_raw config)"
    "map (source_files (unpack a)) (List.map_filter glob_parts (pk_extra_globs config)) =
      map (source_files t) (List.map_filter glob_parts (pk_extra_globs config))"
    by (rule map_cong [OF refl], rule src, simp add: sources_def)+
  have "?f (unpack a) = ?f t"
    unfolding member_names [OF unpack_ok l] member_names [OF assms(1) l] docs maps using src by (simp add: sources_def)
  then have "build_zip (unpack a) package = Inr (map (\<lambda>m. (m, the (content (unpack a) m))) (?f t))"
    unfolding build_zip_Inr [OF c] by simp
  also have "map (\<lambda>m. (m, the (content (unpack a) m))) (?f t) = a"
  proof -
    have "\<forall>m \<in> set (?f t). (m, the (content (unpack a) m)) = (m, the (content t m))"
      using member_set [OF assms(1) l] cont by auto
    then show ?thesis unfolding a by (intro map_cong) auto
  qed
  finally show ?thesis using member_names_distinct [OF assms(1) l] names val by (auto simp: list_all_iff)
qed

theorem build_zip_verifies_witness:
  "\<exists>a missing. build_zip (unpack [(''docs/PAPER.md'', [1])]) ''v1.8'' = Inr a \<and> verify_zip a ''v1.8'' = Inr (False, missing) \<and>
     ''docs/EVIDENCE.md'' \<in> set missing"
proof -
  have c: "map_of PACKAGES ''v1.8'' = Some package_v18" by (simp add: PACKAGES_def)
  have f: "EVIDENCE_MD \<in> set (pk_required_files package_v18)" "content (unpack [(''docs/PAPER.md'', [1])]) EVIDENCE_MD = None"
    by (simp_all add: package_v18_def unpack_def EVIDENCE_MD_def)
  then have n: "\<not> package_complete (unpack [(''docs/PAPER.md'', [1])]) package_v18" unfolding package_complete_def by blast
  show ?thesis using build_zip_verifies [OF unpack_ok c] f n unfolding EVIDENCE_MD_def by metis
qed

theorem rebuild_unpacked_witness:
  "build_zip (unpack [(''tools/faultinject/run.py'', [7]), (''docs/PAPER.md'', [1])]) ''v1.1'' =
     Inr [(''tools/faultinject/run.py'', [7]), (''docs/PAPER.md'', [1])] \<and>
   distinct (map fst [(''tools/faultinject/run.py'', [7 :: byte]), (''docs/PAPER.md'', [1])])"
proof -
  let ?a = "[(''tools/faultinject/run.py'', [7 :: byte]), (''docs/PAPER.md'', [1])]"
  have b: "build_zip (unpack ?a) ''v1.1'' = Inr ?a" by code_simp
  from rebuild_unpacked [OF unpack_ok b] show ?thesis using b by blast
qed

end
