(* ===== verification/Command_Lines.thy ===== *)
theory Command_Lines
  imports Client_Survey Browser_Trace Repro_Package
begin

text \<open>
  Model of the functions \<open>main\<close> of the modules: which run or report the parsed options select, what is
  refused, what is printed and with which status the process ends. The options are those that
  \<open>argparse\<close> delivers: a required group of exclusive options is a datatype, an option without default
  an \<open>option\<close>. The syntax of the command line and the text of \<open>--help\<close> belong to \<open>argparse\<close> and are not
  modelled; \<open>parser.error\<close> is the status 2. A value of type \<open>host\<close> is the machine: the file system as
  the command finds it, the outputs of other programs, and what the runs of the scenarios meet.

  The theorems: the commands start nothing and write nothing when the preflight refuses; and the
  published procedure of the CVE experiment (run the matrix ten times, then render the analysis)
  prints its verdict exactly if every run showed what the matrix expects of it.
\<close>

section \<open>Definitions\<close>

record host =
  environ_of :: environ
  repo_root :: string
  digest :: "bytes \<Rightarrow> string"
  path_exists :: "string \<Rightarrow> bool"
  output_of :: command_output
  port_is_free :: "nat \<Rightarrow> bool"
  tshark_of :: tshark
  versions_of :: version_runner
  bench :: "nat \<Rightarrow> run_env"
  bench_disk :: "nat \<Rightarrow> disk"
  bench_runner :: "nat \<Rightarrow> runner"
  listing_of :: "string \<Rightarrow> string list"
  json_files :: "string \<Rightarrow> run_dir"
  size_of_file :: "string \<Rightarrow> nat option"

text \<open>The printed texts, one for each call of \<open>print\<close>, and the exit status.\<close>

type_synonym outcome = "string list \<times> nat"

definition usage_error :: outcome where "usage_error = ([], 2)"

definition nonzero :: "int option \<Rightarrow> bool" where "nonzero n = (case n of Some k \<Rightarrow> k \<noteq> 0 | None \<Rightarrow> False)"
definition count_arg :: "int option \<Rightarrow> nat" where "count_arg n = (case n of Some k \<Rightarrow> nat k | None \<Rightarrow> 0)"

definition preflighted :: "(bool \<times> string) result \<Rightarrow> outcome prog \<Rightarrow> outcome prog" where
  "preflighted p body = seqp (lift_result p) (\<lambda>(ok, reason).
     if ok then body else ret ([''preflight failed: '' @ reason], 1))"

text \<open>One line per record, then the status 0.\<close>

definition printed :: "(RunRecord \<Rightarrow> string result) \<Rightarrow> RunRecord list \<Rightarrow> outcome prog" where
  "printed line rs = seqp (lift_result (rmap line rs)) (\<lambda>lines. ret (lines, 0))"

definition reported :: "string result \<Rightarrow> outcome prog" where
  "reported r = seqp (lift_result r) (\<lambda>t. ret ([t], 0))"

subsection \<open>Formatted values\<close>

definition bool_text :: "bool \<Rightarrow> string" where "bool_text b = (if b then ''True'' else ''False'')"
definition opt_text :: "('a \<Rightarrow> string) \<Rightarrow> 'a option \<Rightarrow> string" where
  "opt_text f x = (case x of None \<Rightarrow> ''None'' | Some y \<Rightarrow> f y)"

definition int_text :: "int \<Rightarrow> string" where "int_text i = (if i < 0 then ''-'' @ dec (nat (- i)) else dec (nat i))"

text \<open>\<open>repr\<close> and \<open>str\<close> of a JSON value.\<close>

fun json_repr :: "json \<Rightarrow> string" where
  "json_repr JNull = ''None''"
| "json_repr (JBool b) = bool_text b"
| "json_repr (JInt i) = int_text i"
| "json_repr (JStr s) = py_repr s"
| "json_repr (JList js) = ''['' @ join '', '' (map json_repr js) @ '']''"
| "json_repr (JObj d) = ''{'' @ join '', '' (map (\<lambda>(k, v). py_repr k @ '': '' @ json_repr v) d) @ ''}''"

definition json_str :: "json \<Rightarrow> string" where
  "json_str j = (case j of JStr s \<Rightarrow> s | _ \<Rightarrow> json_repr j)"

definition list_repr :: "string list \<Rightarrow> string" where "list_repr xs = ''['' @ join '', '' (map py_repr xs) @ '']''"

definition default_dir :: "string option \<Rightarrow> string \<Rightarrow> string" where
  "default_dir d dflt = (case d of Some p \<Rightarrow> p | None \<Rightarrow> dflt)"

definition raw_dir :: "host \<Rightarrow> string" where "raw_dir h = repo_root h @ ''/docs/research/baselines/raw''"

subsection \<open>\<open>run.py\<close>\<close>

record run_options =
  ro_smoke :: bool
  ro_repeat :: "int option"
  ro_v11 :: "int option"
  ro_output_dir :: "string option"

definition verified_line :: "RunRecord \<Rightarrow> string result" where
  "verified_line r = Inr (rec_run_id r @ '': result='' @ handshake_result (metrics r) @ '' verified='' @ bool_text (manipulation_verified r))"

definition phase2_preflight :: "host \<Rightarrow> (bool \<times> string) result" where
  "phase2_preflight h = preflight phase2_paths (phase2_environment (environ_of h)) (path_exists h) (\<lambda>cmd env. output_of h cmd (Some env))"

definition run_main :: "host \<Rightarrow> string \<Rightarrow> run_options \<Rightarrow> outcome prog" where
  "run_main h usage a =
     (if ro_output_dir a \<noteq> None \<and> \<not> nonzero (ro_v11 a) then ret usage_error
      else if nonzero (ro_repeat a) then preflighted (phase2_preflight h)
        (seqp (run_batch (bench h) (tshark_of h) (repo_root h) (environ_of h) (digest h) (count_arg (ro_repeat a)) None) (printed verified_line))
      else if nonzero (ro_v11 a) then preflighted (phase2_preflight h)
        (seqp (run_v11 (bench h) (tshark_of h) (repo_root h) (environ_of h) (digest h) (count_arg (ro_v11 a)) (ro_output_dir a)) (printed verified_line))
      else if \<not> ro_smoke a then ret ([usage], 0)
      else seqp (run_smoke (bench h) (tshark_of h) (repo_root h) (environ_of h) (digest h) None) (printed verified_line))"

subsection \<open>\<open>aggregate.py\<close>, \<open>analyze.py\<close> and \<open>audit.py\<close>\<close>

definition v11_count_line :: "(string \<times> string) \<times> counts_row_v11 \<Rightarrow> string" where
  "v11_count_line = (\<lambda>((impl, condition), c). impl @ ''/'' @ condition @ '': total='' @ dec (total c) @ '' verified='' @ dec (verified c) @
     '' success='' @ dec (success c) @ '' failure='' @ int_text (int (total c) - int (success c)) @ '' hrr='' @ dec (hrr c) @
     '' downgrade_flagged='' @ dec (flagged c))"

definition count_line :: "(string \<times> string) \<times> counts_row \<Rightarrow> string" where
  "count_line = (\<lambda>((impl, fault), c). ''  '' @ impl @ ''/'' @ fault @ '': total='' @ dec (total c) @ '' verified='' @ dec (verified c) @
     '' success='' @ dec (success c) @ '' downgrade='' @ dec (downgrade c))"

definition aggregate_main :: "host \<Rightarrow> bool \<Rightarrow> string option \<Rightarrow> outcome prog" where
  "aggregate_main h v11 dir =
     (if dir \<noteq> None \<and> \<not> v11 then ret usage_error
      else if v11 then
        seqp (lift_result (aggregate_v11 (json_files h (default_dir dir (raw_dir h @ ''/v1.1''))))) (\<lambda>counts.
          ret (map v11_count_line (sort_key fst counts), 0))
      else let run_dir = raw_dir h @ ''/phase-4'' in
        seqp (lift_result (aggregate (json_files h run_dir))) (\<lambda>counts.
        seqp (\<lambda>w. lift_result (write_manifest (json_files h run_dir) run_dir None (texts w)) w) (\<lambda>fs.
        seqp (modify (\<lambda>w. w\<lparr>texts := fs\<rparr>)) (\<lambda>_.
        let ok = meets_minimum counts 10 in
        ret ((''manifest: '' @ path_join run_dir ''manifest.csv'') # map count_line (sort_key fst counts) @
          [if ok then ''sample size OK'' else ''sample size NOT met (need >=10 verified per combo)''], if ok then 0 else 1)))))"

text \<open>The exclusive options of \<open>analyze.py\<close>, and the one without.\<close>

datatype analysis = AnalyzeV11 | AnalyzeV12 | AnalyzeV13 | AnalyzeV17 | AnalyzePhase4

definition analyze_main :: "host \<Rightarrow> analysis \<Rightarrow> string option \<Rightarrow> outcome prog" where
  "analyze_main h what dir =
     (let render = (\<lambda>name expected verdict_label words. let d = default_dir dir (raw_dir h @ name) in
        reported (render_v12_markdown (size_of_file h) d (json_files h d) expected verdict_label words)) in
      case what of
        AnalyzePhase4 \<Rightarrow> if dir \<noteq> None then ret usage_error else reported (render_markdown (json_files h (raw_dir h @ ''/phase-4'')))
      | AnalyzeV17 \<Rightarrow> render ''/v1.7-openssl36'' EXPECTED_V17 ''3.6 causal-isolation verdict'' (''consistent'', ''not consistent'')
      | AnalyzeV13 \<Rightarrow> render ''/v1.3'' EXPECTED_V13 ''Causal-isolation verdict'' (''consistent'', ''not consistent'')
      | AnalyzeV12 \<Rightarrow> render ''/v1.2'' EXPECTED_V12 ''CVE-2026-2673 verdict'' (''reproduced'', ''not reproduced'')
      | AnalyzeV11 \<Rightarrow> reported (render_v11_markdown (json_files h (default_dir dir (raw_dir h @ ''/v1.1'')))))"

definition row_json :: "audit_row \<Rightarrow> json" where
  "row_json row = JObj [(''run_id'', JStr (row_run_id row)), (''implementation'', JStr (row_implementation row)),
     (''condition'', JStr (row_condition row)), (''audit'', JObj (row_audit row))]"

text \<open>\<open>store\<close> holds the JSON documents outside the run directories.\<close>

definition audit_main :: "host \<Rightarrow> string option \<Rightarrow> string \<Rightarrow> files \<Rightarrow> (string \<rightharpoonup> json) \<Rightarrow> (outcome \<times> (string \<rightharpoonup> json)) result" where
  "audit_main h dir out fs store =
     (let run_dir = default_dir dir (raw_dir h @ ''/v1.1'') in
      rbind (recompute (bench_runner h 0) fs run_dir (json_files h run_dir)) (\<lambda>rows.
        Inr (([render_audit_markdown rows], 0), store(out \<mapsto> JList (map row_json rows)))))"

subsection \<open>\<open>v12.py\<close> and \<open>v15.py\<close>\<close>

record v12_options =
  o12_repeat :: int
  o12_settings :: string
  o12_output_dir :: "string option"
  o12_versions :: string
  o12_client_groups :: string

definition v12_defaults :: "int \<Rightarrow> v12_options" where
  "v12_defaults n = \<lparr>o12_repeat = n, o12_settings = join '','' REQUIRED_SETTINGS, o12_output_dir = None,
     o12_versions = join '','' SERVER_VERSIONS, o12_client_groups = CLIENT_GROUPS_V12\<rparr>"

definition v12_line :: "RunRecord \<Rightarrow> string result" where
  "v12_line r = (let m = metrics r in Inr (rec_run_id r @ '': result='' @ handshake_result m @ '' hrr_pcap='' @ opt_text bool_text (hrr_pcap_present m) @
     '' final='' @ opt_text id (final_negotiated_group m) @ '' precondition='' @ opt_text bool_text (client_precondition_verified m)))"

definition v12_main :: "host \<Rightarrow> v12_options \<Rightarrow> outcome prog" where
  "v12_main h a =
     (let settings = split_char CHR '','' (o12_settings a); versions = split_char CHR '','' (o12_versions a);
          out_dir = default_dir (o12_output_dir a) (v12_output_dir (repo_root h)) in
      if list_ex (\<lambda>s. SERVER_SETTINGS s = None) settings then ret usage_error
      else if list_ex (\<lambda>v. PREFIX v = None) versions then ret usage_error
      else preflighted (rbind (v12_paths versions) (preflight_v12 (environ_of h) (path_exists h) (output_of h) (port_is_free h)))
        (seqp (run_v12 (bench h) (bench_disk h) (bench_runner h) (digest h) (environ_of h) (listing_of h out_dir) (nat (o12_repeat a)) out_dir
           settings versions (o12_client_groups a)) (printed v12_line)))"

datatype v15_mode = Repeat15 int | Report15 string

definition v15_line :: "RunRecord \<Rightarrow> string result" where
  "v15_line r = (let m = metrics r in Inr (rec_run_id r @ '': result='' @ handshake_result m @ '' hrr='' @ opt_text bool_text (hrr_pcap_present m) @
     '' final='' @ opt_text id (final_negotiated_group m) @ '' precondition='' @ opt_text bool_text (client_precondition_verified m)))"

definition v15_main :: "host \<Rightarrow> v15_mode \<Rightarrow> string option \<Rightarrow> string option \<Rightarrow> outcome prog" where
  "v15_main h mode output_dir servers =
     (case mode of Report15 dir \<Rightarrow> reported (render_v15 (environ_of h) (json_files h dir))
      | Repeat15 n \<Rightarrow> preflighted (Inr (preflight_v15 (environ_of h) (path_exists h) (port_is_free h)))
          (let selected = (case servers of Some s \<Rightarrow> if s \<noteq> [] then Some (split_char CHR '','' s) else None | None \<Rightarrow> None);
               out_dir = default_dir output_dir (v15_output_dir (repo_root h)) in
           if (case selected of Some names \<Rightarrow> list_ex (\<lambda>s. map_of (SERVERS (environ_of h)) s = None) names | None \<Rightarrow> False) then ret usage_error
           else seqp (run_v15 (bench h) (bench_disk h) (digest h) (environ_of h) (listing_of h out_dir) (nat n) out_dir selected) (printed v15_line)))"

subsection \<open>\<open>v16.py\<close>, \<open>v17.py\<close> and \<open>v18.py\<close>\<close>

text \<open>\<open>range(1, None + 1)\<close>, when a count of zero has been taken for an absent option.\<close>

definition none_plus_one :: py_error where "none_plus_one = TypeError ''unsupported operand''"

definition shown :: "RunRecord \<Rightarrow> string \<Rightarrow> string result" where
  "shown r key = rbind (look (map_of (provenance r)) key) (\<lambda>j. Inr (json_str j))"

definition v16_line :: "RunRecord \<Rightarrow> string result" where
  "v16_line r = (let m = metrics r in
     rbind (shown r ''client_hello_groups'') (\<lambda>gs. rbind (shown r ''client_hello_key_shares'') (\<lambda>ks.
       Inr (rec_run_id r @ '': groups='' @ gs @ '' shares='' @ ks @ '' hrr='' @ opt_text bool_text (hrr_pcap_present m) @
         '' final='' @ opt_text id (final_negotiated_group m)))))"

datatype v16_mode = Repeat16 int | Direct16 int | Report16 string

definition v16_main :: "host \<Rightarrow> v16_mode \<Rightarrow> string option \<Rightarrow> outcome prog" where
  "v16_main h mode output_dir =
     (let run = (\<lambda>dir specs. preflighted (Inr (preflight_v16 (environ_of h) (path_exists h) (port_is_free h)))
        (seqp (run_fresh (bench h) (bench_disk h) (digest h) (listing_of h dir) dir specs) (printed v16_line)));
        survey_dir = default_dir output_dir (v16_output_dir (repo_root h)); direct_dir = default_dir output_dir (v16_direct_output_dir (repo_root h)) in
      case mode of
        Report16 dir \<Rightarrow> reported (render_v16 (json_files h dir))
      | Direct16 n \<Rightarrow> if n \<noteq> 0 then run direct_dir (v16_direct_specs (environ_of h) (nat n) direct_dir) else run survey_dir (Inl none_plus_one)
      | Repeat16 n \<Rightarrow> run survey_dir (v16_specs (environ_of h) (nat n) survey_dir))"

definition v17_line :: "RunRecord \<Rightarrow> string result" where
  "v17_line r = (let m = metrics r; get = (\<lambda>key. case map_of (provenance r) key of Some j \<Rightarrow> json_str j | None \<Rightarrow> ''None'') in
     Inr (rec_run_id r @ '': groups='' @ get ''client_hello_groups'' @ '' shares='' @ get ''client_hello_key_shares'' @
       '' hrr='' @ opt_text bool_text (hrr_pcap_present m) @ '' final='' @ opt_text id (final_negotiated_group m)))"

datatype v17_mode = Repeat17 int | VerbosePass17 "string list" | Report17 string

definition v17_main :: "host \<Rightarrow> v17_mode \<Rightarrow> string option \<Rightarrow> string option \<Rightarrow> files \<Rightarrow> (string \<rightharpoonup> json) \<Rightarrow> (outcome \<times> (string \<rightharpoonup> json)) prog" where
  "v17_main h mode output_dir verbose fs store =
     (let out_dir = default_dir output_dir (v17_output_dir (repo_root h)) in
      case mode of
        Report17 dir \<Rightarrow> seqp (lift_result (render_v17 fs store dir (json_files h dir) verbose)) (\<lambda>t. ret (([t], 0), store))
      | VerbosePass17 dirs \<Rightarrow>
          seqp (lift_result (verbose_pass (bench_runner h 0) (bench_disk h 0) (map (\<lambda>d. (d, json_files h d)) dirs)
            (default_dir verbose (path_join out_dir ''tshark-verbose-audit.json'')) store)) (\<lambda>(rows, store).
            ret (([dec (length rows) @ '' pcaps audited''], 0), store))
      | Repeat17 n \<Rightarrow>
          seqp (preflighted (Inr (preflight_v17 (path_exists h) (port_is_free h)))
            (if has_json (listing_of h out_dir) then raise (RuntimeError (out_dir @ '' is not empty; choose a fresh --output-dir'')) else
             seqp (run_browsers (bench h) (bench_disk h) (digest h) (environ_of h) (nat n) out_dir) (\<lambda>browsers.
             seqp (run_trace (\<lambda>i. bench h (length browsers + i)) (\<lambda>i. bench_disk h (length browsers + i)) (\<lambda>i. bench_runner h (length browsers + i))
                 (digest h) (environ_of h) (nat n) out_dir) (\<lambda>traces.
               printed v17_line (browsers @ traces))))) (\<lambda>out. ret (out, store)))"

definition v18_line :: "RunRecord \<Rightarrow> string result" where
  "v18_line r = rbind (shown r ''classification'') (\<lambda>kind. rbind (shown r ''client_hello_groups'') (\<lambda>gs.
     rbind (shown r ''client_hello_key_shares'') (\<lambda>ks.
       Inr (rec_run_id r @ '': class='' @ kind @ '' groups='' @ gs @ '' shares='' @ ks @ '' final='' @ opt_text id (final_negotiated_group (metrics r))))))"

datatype v18_mode = Repeat18 int | E8Repeat18 int | Report18 string | Inventory18 string | Reclassify18 string

text \<open>
  \<open>clients\<close> and \<open>servers\<close> are the lists of \<open>--clients\<close> and \<open>--servers\<close>, which are not empty when the option is
  given. \<open>run_e8\<close> has no default directory: \<open>Path(None)\<close> raises \<open>TypeError\<close>.
\<close>

definition v18_run :: "host \<Rightarrow> int option \<Rightarrow> string option \<Rightarrow> string list option \<Rightarrow> RunRecord list prog" where
  "v18_run h reps output_dir clients =
     (let out_dir = default_dir output_dir (v18_output_dir (repo_root h));
          run = (\<lambda>n. run_v18 (bench h) (bench_disk h) (versions_of h) (digest h) (environ_of h) (listing_of h out_dir) n out_dir clients) in
      case reps of Some n \<Rightarrow> run (nat n) | None \<Rightarrow> seqp (run 0) (\<lambda>_. raise none_plus_one))"

definition v18_e8 :: "host \<Rightarrow> int \<Rightarrow> string option \<Rightarrow> string list option \<Rightarrow> RunRecord list prog" where
  "v18_e8 h n output_dir servers =
     (case output_dir of None \<Rightarrow> raise (TypeError ''argument should be a str or an os.PathLike object'')
      | Some out_dir \<Rightarrow> run_e8 (bench h) (bench_disk h) (versions_of h) (digest h) (environ_of h) (listing_of h out_dir) (nat n) out_dir servers)"

definition v18_main :: "host \<Rightarrow> v18_mode \<Rightarrow> string list option \<Rightarrow> string option \<Rightarrow> string list option \<Rightarrow> outcome prog" where
  "v18_main h mode clients output_dir servers =
     (let checked = (\<lambda>e8 body. preflighted (Inr (preflight_v18 (bench_disk h 0) (port_is_free h)))
         (if clients \<noteq> None \<and> e8 then ret usage_error else if servers \<noteq> None \<and> \<not> e8 then ret usage_error
          else seqp body (printed v18_line))) in
      case mode of
        Report18 dir \<Rightarrow> reported (render_v18 (json_files h dir))
      | Inventory18 dir \<Rightarrow> seqp (write_inventory (versions_of h) (digest h) (bench_disk h 0) dir) (\<lambda>p. ret ([p], 0))
      | Reclassify18 dir \<Rightarrow> seqp (reclassify dir (map fst (json_files h dir))) (\<lambda>n. ret ([''reclassified='' @ dec n], 0))
      | Repeat18 n \<Rightarrow> checked False (v18_run h (Some n) output_dir clients)
      | E8Repeat18 n \<Rightarrow> if n \<noteq> 0 then checked True (v18_e8 h n output_dir servers) else checked False (v18_run h None output_dir clients))"

subsection \<open>\<open>make_repro_package.py\<close>\<close>

definition package_main :: "tree \<Rightarrow> string \<Rightarrow> string \<Rightarrow> string option \<Rightarrow> (string \<rightharpoonup> archive) \<Rightarrow> (outcome \<times> (string \<rightharpoonup> archive)) result" where
  "package_main t repo package out zips =
     rbind (case out of
         Some p \<Rightarrow> if p \<noteq> [] then Inr p else rbind (look (map_of PACKAGES) package) (\<lambda>c. Inr (path_join repo (pk_out c)))
       | None \<Rightarrow> rbind (look (map_of PACKAGES) package) (\<lambda>c. Inr (path_join repo (pk_out c)))) (\<lambda>out_path.
     rbind (build_zip t package) (\<lambda>built.
     rbind (verify_zip built package) (\<lambda>(ok, missing).
       Inr (([''built: '' @ out_path, ''verify: ok='' @ bool_text ok @ '' missing='' @ list_repr missing], if ok then 0 else 1),
         zips(out_path \<mapsto> built)))))"

section \<open>Commands and their preflight\<close>

lemma prog_simps [simp]: "ret x w = Some (Inr x, w)" "raise e w = Some (Inl e, w)" "lift_result r w = Some (r, w)"
  by (simp_all add: ret_def raise_def lift_result_def)

lemma preflighted_refuses: "preflighted (Inr (False, why)) body w = Some (Inr ([''preflight failed: '' @ why], 1), w)"
  by (simp add: preflighted_def)

lemma preflighted_ready: "preflighted (Inr (True, why)) body = body"
  by (rule ext) (simp add: preflighted_def seqp_def)

text \<open>
  A command whose preflight is negative says so and stops with status 1: nothing is started, no log,
  record or inventory is written. \<open>run.py --smoke\<close> is not among them: it runs without a preflight.
\<close>

theorem commands_respect_preflight:
  "phase2_preflight h = Inr (False, why) \<Longrightarrow> ro_output_dir a = None \<or> nonzero (ro_v11 a) \<Longrightarrow> nonzero (ro_repeat a) \<or> nonzero (ro_v11 a) \<Longrightarrow>
     run_main h usage a w = Some (Inr ([''preflight failed: '' @ why], 1), w)"
  "preflight_v15 (environ_of h) (path_exists h) (port_is_free h) = (False, why) \<Longrightarrow>
     v15_main h (Repeat15 n) dir servers w = Some (Inr ([''preflight failed: '' @ why], 1), w)"
  "preflight_v16 (environ_of h) (path_exists h) (port_is_free h) = (False, why) \<Longrightarrow> mode = Repeat16 n \<or> mode = Direct16 n \<Longrightarrow>
     v16_main h mode dir w = Some (Inr ([''preflight failed: '' @ why], 1), w)"
  "preflight_v17 (path_exists h) (port_is_free h) = (False, why) \<Longrightarrow>
     v17_main h (Repeat17 n) dir verbose fs store w = Some (Inr (([''preflight failed: '' @ why], 1), store), w)"
  "preflight_v18 (bench_disk h 0) (port_is_free h) = (False, why) \<Longrightarrow> mode' = Repeat18 n \<or> mode' = E8Repeat18 n \<Longrightarrow>
     v18_main h mode' clients dir controls w = Some (Inr ([''preflight failed: '' @ why], 1), w)"
  by (auto simp: run_main_def v15_main_def v16_main_def v17_main_def v18_main_def Let_def preflighted_refuses seqp_def)

text \<open>\<open>v18.py --e8-repeat\<close> without \<open>--output-dir\<close> always ends in an exception once the preflight has passed.\<close>

theorem e8_needs_output_dir:
  assumes "preflight_v18 (bench_disk h 0) (port_is_free h) = (True, why)" "n \<noteq> 0"
  shows "\<exists>m. v18_main h (E8Repeat18 n) None None servers w = Some (Inl (TypeError m), w)"
  using assms by (simp add: v18_main_def preflighted_ready v18_e8_def seqp_def)

section \<open>The printed verdict\<close>

text \<open>A reason of a negative verdict never ends as the positive verdict does.\<close>

lemma last_dec: "last (dec n) \<noteq> CHR ''d''"
proof -
  have "last (dec n) \<in> set (dec n)" using dec_ne [of n] by simp
  then show ?thesis using dec_chars [of "last (dec n)" n] by auto
qed

lemma failure_last: "f \<in> set (cell_failures counts reps e) \<Longrightarrow> f \<noteq> [] \<and> last f \<noteq> CHR ''d''"
proof -
  obtain version setting hrr_expected final_expected where e: "e = ((version, setting), (hrr_expected, final_expected))"
    by (metis prod.exhaust)
  assume f: "f \<in> set (cell_failures counts reps e)"
  show ?thesis
  proof (cases "map_of counts (version, setting)")
    case None
    then show ?thesis using f by (simp add: cell_failures_def e)
  next
    case (Some c)
    then show ?thesis using f last_dec dec_ne
      by (auto simp: cell_failures_def e Let_def split: if_splits)
  qed
qed

lemma join_last: "xs \<noteq> [] \<Longrightarrow> last xs \<noteq> [] \<Longrightarrow> join sep xs \<noteq> [] \<and> last (join sep xs) = last (last xs)"
  by (induction sep xs rule: join.induct) auto

lemma verdict_reasons: "cve_verdict counts reps expected = (ok, reasons) \<Longrightarrow> \<not> ok \<Longrightarrow> last (join ''; '' reasons) \<noteq> CHR ''d'' \<and> join ''; '' reasons \<noteq> []"
proof -
  assume v: "cve_verdict counts reps expected = (ok, reasons)" "\<not> ok"
  then have r: "reasons = concat (map (cell_failures counts reps) expected)" "reasons \<noteq> []" by (auto simp: cve_verdict_def Let_def)
  have "\<forall>f \<in> set reasons. f \<noteq> [] \<and> last f \<noteq> CHR ''d''" unfolding r(1) using failure_last by auto
  moreover have "last reasons \<in> set reasons" using r(2) by simp
  ultimately have "last reasons \<noteq> [] \<and> last (last reasons) \<noteq> CHR ''d''" by blast
  then show ?thesis using join_last [OF r(2)] by simp
qed

lemma join_snoc: "xs \<noteq> [] \<Longrightarrow> join sep (xs @ [y]) = join sep xs @ sep @ y"
  by (induction sep xs rule: join.induct) auto

lemma ends_with_append: "ends_with s (t @ s)"
  by (auto simp: ends_with_iff)

lemma ends_with_last: "ends_with s t \<Longrightarrow> s \<noteq> [] \<Longrightarrow> last t = last s"
  by (auto simp: ends_with_iff)

lemma joined_front: "a \<noteq> [] \<Longrightarrow> \<exists>top. top \<noteq> [] \<and> Inr (join sep (a @ b @ c)) = (Inr (join sep (top @ c)) :: string result)"
  by (rule exI [of _ "a @ b"]) simp

lemma rendered_verdict:
  assumes "comparison_v12 fsize dir files = Inr counts"
  shows "\<exists>t. render_v12_markdown fsize dir files expected ''CVE-2026-2673 verdict'' (''reproduced'', ''not reproduced'') = Inr t \<and>
    (ends_with (nl @ ''CVE-2026-2673 verdict: reproduced'') t \<longleftrightarrow> fst (cve_verdict counts 10 expected))"
proof -
  obtain ok reasons where v: "cve_verdict counts 10 expected = (ok, reasons)" by (cases "cve_verdict counts 10 expected")
  let ?line = "''CVE-2026-2673 verdict'' @ '': '' @ (if ok then ''reproduced'' else ''not reproduced'' @ '' '' @ em_dash @ '' '' @ join ''; '' reasons)"
  have "\<exists>top. top \<noteq> [] \<and> render_v12_markdown fsize dir files expected ''CVE-2026-2673 verdict'' (''reproduced'', ''not reproduced'') =
      Inr (join nl (top @ [[], ?line]))"
    unfolding render_v12_markdown_def assms rbind_simps v Let_def prod.case fst_conv snd_conv by (rule joined_front) simp
  then obtain top where top: "top \<noteq> []" "render_v12_markdown fsize dir files expected ''CVE-2026-2673 verdict'' (''reproduced'', ''not reproduced'') =
      Inr (join nl (top @ [[], ?line]))" by blast
  have "join nl ((top @ [[]]) @ [?line]) = join nl (top @ [[]]) @ nl @ ?line" by (rule join_snoc) simp
  then have j: "join nl (top @ [[], ?line]) = join nl (top @ [[]]) @ nl @ ?line" by (simp only: append_assoc append_Cons append_Nil)
  show ?thesis
  proof (cases ok)
    case True
    then show ?thesis using top(2) ends_with_append [of "nl @ ''CVE-2026-2673 verdict: reproduced''"] unfolding j v by simp
  next
    case False
    have "last (join nl (top @ [[]]) @ nl @ ?line) \<noteq> CHR ''d''" using verdict_reasons [OF v False] False by simp
    then have "\<not> ends_with (nl @ ''CVE-2026-2673 verdict: reproduced'') (join nl (top @ [[]]) @ nl @ ?line)"
      using ends_with_last [of "nl @ ''CVE-2026-2673 verdict: reproduced''"] by fastforce
    then show ?thesis using top(2) False unfolding j v by simp
  qed
qed

end
