(* ===== verification/Scenario_Order.thy ===== *)
theory Scenario_Order
  imports Scenario
begin

text \<open>
  The order in which \<open>run_scenario\<close> (\<open>tools/faultinject/harness.py\<close>) starts its processes. The trace of a
  run, whatever its outcome, is divided into the actions up to the start of the server, those of the body
  and those of the clean-up and the writing of the record. The theorem: the client is started only behind
  the server, the capture and the proxy, on a bench that passed every check, and the next action stops
  the server.
\<close>

section \<open>Programs and the actions they add\<close>

text \<open>Programs whose new actions all satisfy a condition.\<close>

definition appends :: "(action \<Rightarrow> bool) \<Rightarrow> 'a prog \<Rightarrow> bool" where
  "appends P p \<longleftrightarrow> (\<forall>w r w'. p w = Some (r, w') \<longrightarrow> (\<exists>as. trace w' = trace w @ as \<and> list_all P as))"

lemma appendsD: "appends P p \<Longrightarrow> p w = Some (r, w') \<Longrightarrow> \<exists>as. trace w' = trace w @ as \<and> list_all P as"
  by (auto simp: appends_def)

lemma appends_seqp:
  assumes "appends P p" "\<And>x. appends P (g x)"
  shows "appends P (seqp p g)"
  unfolding appends_def
proof (intro allI impI)
  fix w r w'
  assume "seqp p g w = Some (r, w')"
  then consider e where "p w = Some (Inl e, w')" | x w1 where "p w = Some (Inr x, w1)" "g x w1 = Some (r, w')"
    unfolding seqp_Some by blast
  then show "\<exists>as. trace w' = trace w @ as \<and> list_all P as"
  proof cases
    case (2 x w1)
    from appendsD [OF assms(1) 2(1)] appendsD [OF assms(2) 2(2)] obtain as bs where
      "trace w1 = trace w @ as" "trace w' = trace w1 @ bs" "list_all P as" "list_all P bs" by blast
    then show ?thesis by (intro exI [of _ "as @ bs"]) simp
  qed (use appendsD [OF assms(1)] in blast)
qed

lemma appends_pure: "(\<And>w r w'. p w = Some (r, w') \<Longrightarrow> trace w' = trace w) \<Longrightarrow> appends P p"
  by (fastforce simp: appends_def)

lemma appends_intros [prog_intros]:
  "appends P (ret x)" "appends P (raise e)" "appends P (lift_result r)" "appends P (lift_poll q)"
  "(\<And>w. trace (h w) = trace w) \<Longrightarrow> appends P (modify h)"
  by (rule appends_pure; force simp: ret_def raise_def lift_result_def lift_poll_def modify_def)+

lemma appends_act [prog_intros]: "P a \<Longrightarrow> appends P (act env a)"
  by (auto simp: appends_def act_def)

lemma appends_whenp [prog_intros]: "appends P u \<Longrightarrow> appends P (whenp b u)"
  by (simp add: whenp_def appends_intros)

lemma appends_except_expired [prog_intros]:
  assumes "appends P u" "appends P v"
  shows "appends P (except_expired u v)"
  unfolding appends_def
proof (intro allI impI)
  fix w r w'
  assume x: "except_expired u v w = Some (r, w')"
  show "\<exists>as. trace w' = trace w @ as \<and> list_all P as"
  proof (cases "\<exists>w1. u w = Some (Inl TimeoutExpired, w1)")
    case True
    then obtain w1 where w1: "u w = Some (Inl TimeoutExpired, w1)" by blast
    then have "v w1 = Some (r, w')" using x by (simp add: except_expired_def)
    from appendsD [OF assms(1) w1] appendsD [OF assms(2) this] obtain as bs where
      "trace w1 = trace w @ as" "trace w' = trace w1 @ bs" "list_all P as" "list_all P bs" by blast
    then show ?thesis by (intro exI [of _ "as @ bs"]) simp
  next
    case False
    then have "u w = Some (r, w')"
      using x unfolding except_expired_def by (auto split: option.splits sum.splits py_error.splits)
    then show ?thesis by (rule appendsD [OF assms(1)])
  qed
qed

lemma appends_pointwise: "(\<And>v. appends P (g v)) \<Longrightarrow> appends P (\<lambda>w. g w w)"
  unfolding appends_def by blast

definition is_start :: "action \<Rightarrow> bool" where
  "is_start a = (case a of StartServer _ _ \<Rightarrow> True | StartCapture _ \<Rightarrow> True | StartProxy _ _ \<Rightarrow> True | RunClient _ _ \<Rightarrow> True | _ \<Rightarrow> False)"

lemma finish_starts_nothing: "appends (\<lambda>a. \<not> is_start a) (finish env sp client)"
proof -
  have "appends (\<lambda>a. \<not> is_start a) check_proxy"
    by (rule appends_pure) (auto simp: check_proxy_def ret_def raise_def split: if_splits)
  moreover have "appends (\<lambda>a. \<not> is_start a) (write_record env sp ms)" for ms
    by (auto simp: appends_def write_record_def is_start_def ret_def Let_def split: sum.splits)
  ultimately show ?thesis unfolding finish_def Let_def
    by (cases client) (auto intro!: appends_seqp prog_intros simp: is_start_def)
qed

lemma cleanup_starts_nothing:
  assumes "cleanup env sp w = Some (r, w')"
  shows "\<exists>rest. trace w' = trace w @ TerminateServer # rest \<and> list_all (\<lambda>a. \<not> is_start a) rest"
proof -
  define tl where "tl = seqp (act env WaitServer) (\<lambda>_.
     seqp (\<lambda>w. whenp (has_capture w)
       (except_expired (act env (WaitCapture (sp_capture_seconds sp + 2)))
          (seqp (act env InterruptCapture) (\<lambda>_. act env WaitCaptureAgain))) w) (\<lambda>_.
     \<lambda>w. whenp (has_proxy w) (join_proxy env sp) w))"
  have "appends (\<lambda>a. \<not> is_start a) (join_proxy env sp)"
    by (auto simp: appends_def join_proxy_def ret_def modify_def is_start_def split: option.splits sum.splits)
  then have tl: "appends (\<lambda>a. \<not> is_start a) tl" unfolding tl_def
    by (intro appends_seqp prog_intros appends_pointwise [where g = "\<lambda>w. whenp (has_capture w) _"]
        appends_pointwise [where g = "\<lambda>w. whenp (has_proxy w) _"]) (simp_all add: is_start_def)
  have "cleanup env sp w = seqp (act env TerminateServer) (\<lambda>_. tl) w" by (simp only: cleanup_def tl_def)
  then have c: "(case outcome env TerminateServer of Inl e \<Rightarrow> Some (Inl e, w\<lparr>trace := trace w @ [TerminateServer]\<rparr>)
      | Inr x \<Rightarrow> tl (w\<lparr>trace := trace w @ [TerminateServer]\<rparr>)) = Some (r, w')"
    using assms by (simp only: seqp_simps)
  show ?thesis
  proof (cases "outcome env TerminateServer")
    case (Inr x)
    then have "tl (w\<lparr>trace := trace w @ [TerminateServer]\<rparr>) = Some (r, w')" using c by simp
    from appendsD [OF tl this] show ?thesis by auto
  qed (use c in auto)
qed

section \<open>The start of the client\<close>

text \<open>What the code checks before it starts the client, and the actions in front of it.\<close>

definition with_proxy :: "ScenarioSpec \<Rightarrow> bool" where
  "with_proxy sp \<longleftrightarrow> sp_proxy_upstream_port sp \<noteq> None \<and> sp_proxy_mutate sp \<noteq> None"

definition client_ready :: "run_env \<Rightarrow> ScenarioSpec \<Rightarrow> bool" where
  "client_ready env sp \<longleftrightarrow>
     wait_for_listener ''127.0.0.1'' (server_port_of sp) (listener_started env) 5000 (listener_obs env) = Some (Inr ()) \<and>
     (sp_capture_traffic sp \<longrightarrow>
        wait_for_capture (capture_started env + 5000) (capture_obs env) = Some (Inr ()) \<and> \<not> capture_exited env) \<and>
     (with_proxy sp \<longrightarrow> proxy_in_time env \<and> proxy_listening env = Inr ())"

definition body_starts :: "ScenarioSpec \<Rightarrow> action list" where
  "body_starts sp =
     (if sp_capture_traffic sp
      then [StartCapture (capture_command (path_join (sp_out_dir sp) (identifier_of sp @ ''.pcapng'')) (server_port_of sp) (sp_capture_seconds sp))]
      else []) @
     (if with_proxy sp then [StartProxy (sp_listen_port sp) (the (sp_proxy_upstream_port sp))] else [])"

definition server_starts_actions :: "ScenarioSpec \<Rightarrow> action list" where
  "server_starts_actions sp = [MkDir (sp_out_dir sp), OpenLog (path_join (sp_out_dir sp) (identifier_of sp @ ''-server.log'')),
       OpenLog (path_join (sp_out_dir sp) (identifier_of sp @ ''-capture.log'')),
       StartServer (sp_server_cmd sp) (or_default (sp_server_env sp) (\<lambda>e. e \<noteq> []) (sp_env sp))]"

definition is_client :: "action \<Rightarrow> bool" where
  "is_client a = (case a of RunClient _ _ \<Rightarrow> True | _ \<Rightarrow> False)"


lemma start_capture_starts:
  assumes "start_capture env sp w = Some (r, w')" "\<not> has_capture w"
  defines "as \<equiv> if sp_capture_traffic sp
      then [StartCapture (capture_command (path_join (sp_out_dir sp) (identifier_of sp @ ''.pcapng'')) (server_port_of sp) (sp_capture_seconds sp))]
      else []"
  shows "trace w' = trace w @ as"
    "r = Inr () \<Longrightarrow> sp_capture_traffic sp \<Longrightarrow> has_capture w' \<and> wait_for_capture (capture_started env + 5000) (capture_obs env) = Some (Inr ())"
  using assms(1,2) unfolding as_def start_capture_def whenp_def
  by (auto simp: ret_def lift_poll_def split: if_splits sum.splits)

lemma start_proxy_starts:
  assumes "start_proxy env sp w = Some (r, w')"
  defines "as \<equiv> if with_proxy sp then [StartProxy (sp_listen_port sp) (the (sp_proxy_upstream_port sp))] else []"
  shows "trace w' = trace w @ as" "r = Inr () \<Longrightarrow> with_proxy sp \<Longrightarrow> proxy_in_time env \<and> proxy_listening env = Inr ()"
  using assms(1) unfolding as_def start_proxy_def with_proxy_def
  by (auto simp: ret_def raise_def proxy_run_def run_proxy_def split: option.splits if_splits sum.splits)

lemma body_order:
  assumes "run_body env sp w = Some (q, w1)" "\<not> has_capture w"
  shows "(\<exists>as. trace w1 = trace w @ as \<and> list_all (\<lambda>a. \<not> is_client a) as \<and> (\<exists>e. q = Inl e)) \<or>
    client_ready env sp \<and> trace w1 = trace w @ body_starts sp @ [RunClient (sp_client_cmd sp) (sp_env sp)]"
proof -
  have nc: "list_all (\<lambda>a. \<not> is_client a) (body_starts sp)" by (simp add: body_starts_def is_client_def)
  let ?cap = "if sp_capture_traffic sp
      then [StartCapture (capture_command (path_join (sp_out_dir sp) (identifier_of sp @ ''.pcapng'')) (server_port_of sp) (sp_capture_seconds sp))]
      else []"
  have ncap: "list_all (\<lambda>a. \<not> is_client a) ?cap" by (simp add: is_client_def)
  obtain r1 v1 where v1: "start_capture env sp w = Some (r1, v1)"
    using assms(1) unfolding run_body_def seqp_def by (auto split: option.splits)
  note c = start_capture_starts [OF v1 assms(2)]
  show ?thesis
  proof (cases r1)
    case (Inl e)
    then have "q = Inl e" "w1 = v1" using assms(1) v1 by (auto simp: run_body_def seqp_def)
    then show ?thesis using c(1) ncap by auto
  next
    case (Inr u)
    then have ok1: "r1 = Inr ()" by simp
    have b1: "seqp (lift_poll (wait_for_listener ''127.0.0.1'' (server_port_of sp) (listener_started env) 5000 (listener_obs env))) (\<lambda>_.
       seqp (check_capture env) (\<lambda>_. seqp (start_proxy env sp) (\<lambda>_. run_client env sp))) v1 = Some (q, w1)"
      using assms(1) v1 Inr by (simp add: run_body_def seqp_def [of "start_capture env sp"])
    then consider e where "q = Inl e" "w1 = v1"
      | "wait_for_listener ''127.0.0.1'' (server_port_of sp) (listener_started env) 5000 (listener_obs env) = Some (Inr ())"
        "seqp (check_capture env) (\<lambda>_. seqp (start_proxy env sp) (\<lambda>_. run_client env sp)) v1 = Some (q, w1)"
      unfolding seqp_Some [of "lift_poll _"] by (auto simp: lift_poll_def)
    then show ?thesis
    proof cases
      case 1
      then show ?thesis using c(1) ncap by auto
    next
      case 2
      show ?thesis
      proof (cases "has_capture v1 \<and> capture_exited env")
        case True
        then have "w1 = v1 \<and> (\<exists>e. q = Inl e)" using 2(2) by (auto simp: seqp_Some check_capture_def raise_def)
        then show ?thesis using c(1) ncap by auto
      next
        case False
        then have b2: "seqp (start_proxy env sp) (\<lambda>_. run_client env sp) v1 = Some (q, w1)"
          using 2(2) by (auto simp: seqp_def [of "check_capture env"] check_capture_def ret_def)
        then obtain r2 v2 where v2: "start_proxy env sp v1 = Some (r2, v2)"
          unfolding seqp_def by (auto split: option.splits)
        note p = start_proxy_starts [OF v2]
        have tr: "trace v2 = trace w @ body_starts sp" using c(1) p(1) by (simp add: body_starts_def)
        show ?thesis
        proof (cases r2)
          case (Inl e)
          then have "q = Inl e" "w1 = v2" using b2 v2 by (auto simp: seqp_def)
          then show ?thesis using tr nc by auto
        next
          case (Inr u2)
          then have "r2 = Inr ()" by simp
          then have "client_ready env sp" using c(2) [OF ok1] p(2) 2(1) False by (auto simp: client_ready_def)
          moreover have "trace w1 = trace v2 @ [RunClient (sp_client_cmd sp) (sp_env sp)]"
            using b2 v2 Inr by (auto simp: seqp_def [of "start_proxy env sp"] run_client_def lift_result_def split: sum.splits)
          ultimately show ?thesis using tr by simp
        qed
      qed
    qed
  qed
qed

text \<open>A run whose server is not started does not start a client.\<close>

lemma not_started:
  assumes "run_scenario env sp w = Some (r, w')" "\<not> server_starts env sp"
  shows "(\<exists>e. r = Inl e) \<and> (\<exists>as. trace w' = trace w @ as \<and> list_all (\<lambda>a. \<not> is_client a) as)"
  using assms unfolding run_scenario_def server_starts_def
  by (auto simp: is_client_def split: sum.splits)

lemma started_order:
  assumes "run_scenario env sp w = Some (r, w')" "trace w' = trace w @ acts"
    and "list_ex is_client acts \<or> (\<exists>rec. r = Inr rec)"
  shows "server_starts env sp" "client_ready env sp"
    "\<exists>rest. acts = server_starts_actions sp @ body_starts sp @
        [RunClient (sp_client_cmd sp) (sp_env sp), TerminateServer] @ rest \<and>
      list_all (\<lambda>a. \<not> is_start a) rest"
proof -
  show st: "server_starts env sp"
    using not_started [OF assms(1)] assms(2,3) by (auto simp: list_ex_iff list_all_iff)
  obtain q w1 c w2 where ph: "run_body env sp (setup_world sp w) = Some (q, w1)" "cleanup env sp w1 = Some (c, w2)"
    "(\<exists>e. (c = Inl e \<or> c = Inr () \<and> q = Inl e) \<and> r = Inl e \<and> w' = w2) \<or>
     (\<exists>client. c = Inr () \<and> q = Inr client \<and> finish env sp client w2 = Some (r, w'))"
    by (rule run_scenario_phases [OF assms(1) st])
  obtain as where as: "trace w2 = trace w1 @ TerminateServer # as" "list_all (\<lambda>a. \<not> is_start a) as"
    using cleanup_starts_nothing [OF ph(2)] by blast
  obtain bs where bs: "trace w' = trace w2 @ bs" "list_all (\<lambda>a. \<not> is_start a) bs"
  proof -
    from ph(3) have "w' = w2 \<or> (\<exists>client. finish env sp client w2 = Some (r, w'))" by blast
    then show ?thesis
    proof
      assume "\<exists>client. finish env sp client w2 = Some (r, w')"
      then obtain client where "finish env sp client w2 = Some (r, w')" by blast
      from appendsD [OF finish_starts_nothing this] show ?thesis using that by blast
    qed (use that [of "[]"] in simp)
  qed
  have su: "trace (setup_world sp w) = trace w @ server_starts_actions sp" "\<not> has_capture (setup_world sp w)"
    by (simp_all add: setup_world_def server_starts_actions_def)
  have "client_ready env sp \<and> (\<exists>rest. acts = server_starts_actions sp @ body_starts sp @
      [RunClient (sp_client_cmd sp) (sp_env sp), TerminateServer] @ rest \<and> list_all (\<lambda>a. \<not> is_start a) rest)"
    using body_order [OF ph(1) su(2)]
  proof
    assume "\<exists>as. trace w1 = trace (setup_world sp w) @ as \<and> list_all (\<lambda>a. \<not> is_client a) as \<and> (\<exists>e. q = Inl e)"
    then obtain ds where ds: "trace w1 = trace w @ server_starts_actions sp @ ds" "list_all (\<lambda>a. \<not> is_client a) ds" "\<exists>e. q = Inl e"
      using su(1) by auto
    then have "acts = server_starts_actions sp @ ds @ TerminateServer # as @ bs" "\<nexists>rec. r = Inr rec"
      using assms(2) as(1) bs(1) ph(3) by auto
    moreover have "\<not> is_client a" if "\<not> is_start a" for a using that by (cases a) (simp_all add: is_start_def is_client_def)
    ultimately have False
      using assms(3) ds(2) as(2) bs(2) by (auto simp: list_ex_iff list_all_iff server_starts_actions_def is_client_def)
    then show ?thesis ..
  next
    assume b: "client_ready env sp \<and> trace w1 = trace (setup_world sp w) @ body_starts sp @ [RunClient (sp_client_cmd sp) (sp_env sp)]"
    then have "acts = server_starts_actions sp @ body_starts sp @ [RunClient (sp_client_cmd sp) (sp_env sp), TerminateServer] @ as @ bs"
      using assms(2) as(1) bs(1) su(1) by simp
    then show ?thesis using b as(2) bs(2) by (intro conjI exI [of _ "as @ bs"]) auto
  qed
  then show "client_ready env sp" "\<exists>rest. acts = server_starts_actions sp @ body_starts sp @
        [RunClient (sp_client_cmd sp) (sp_env sp), TerminateServer] @ rest \<and> list_all (\<lambda>a. \<not> is_start a) rest" by simp_all
qed

text \<open>
  C20. The client is started on a ready bench, and at the right point of the run. Take any run, whatever
  its outcome, that started a client or returned a record. Then the server had been started, it accepted a
  connection, the capture file existed and tshark was still running (when traffic is captured), and the
  proxy was listening in time (when the scenario has one): in a run where one of these checks fails, no
  client is started at all. And the actions of the run are, in this order: the directory and the two
  logs, the start of the server, of the capture and of the proxy (as far as the scenario has them), then
  the client, once, then the termination of the server; after that nothing is started any more.
\<close>

theorem run_scenario_client_after_ready:
  assumes "run_scenario env sp w = Some (r, w')" "trace w' = trace w @ acts"
    and "list_ex is_client acts \<or> (\<exists>rec. r = Inr rec)"
  shows "server_starts env sp \<and> client_ready env sp \<and>
    (\<exists>rest. acts = server_starts_actions sp @ body_starts sp @
        [RunClient (sp_client_cmd sp) (sp_env sp), TerminateServer] @ rest \<and>
      list_all (\<lambda>a. \<not> is_start a) rest)"
  using started_order [OF assms] by blast

theorem run_scenario_client_after_ready_witness:
  "\<exists>rec w'. run_scenario (demo_env None) demo_spec empty_world = Some (Inr rec, w') \<and> client_ready (demo_env None) demo_spec \<and>
     (\<exists>rest. trace w' = server_starts_actions demo_spec @ body_starts demo_spec @ [RunClient [''ssh''] [], TerminateServer] @ rest)"
proof -
  obtain rec w' where r: "run_scenario (demo_env None) demo_spec empty_world = Some (Inr rec, w')" using demo_scenario_returns by blast
  from run_scenario_client_after_ready [OF r, of "trace w'"] r show ?thesis by (auto simp: demo_spec_def new_spec_def empty_world_def)
qed

section \<open>The proxy of a run that returned a record\<close>

lemma body_texts: "preserves texts (run_body env sp)"
proof -
  have "preserves texts (start_proxy env sp)" "preserves texts (check_capture env)"
    by (auto simp: preserves_def start_proxy_def check_capture_def ret_def raise_def seqp_Some
        split: option.splits if_splits sum.splits)
  then show ?thesis unfolding run_body_def start_capture_def run_client_def
    by (intro prog_intros) auto
qed

lemma body_has_proxy:
  assumes "run_body env sp w = Some (Inr client, w1)" "with_proxy sp"
  shows "has_proxy w1"
proof -
  obtain v v' where v: "start_proxy env sp v = Some (Inr (), v')" "run_client env sp v' = Some (Inr client, w1)"
    using assms(1) by (auto simp: run_body_def seqp_Inr)
  have "has_proxy v'" using v(1) assms(2)
    by (auto simp: start_proxy_def with_proxy_def ret_def raise_def split: option.splits sum.splits if_splits)
  then show ?thesis using v(2) by (auto simp: run_client_def lift_result_def split: sum.splits)
qed

lemma cleanup_joins:
  assumes "cleanup env sp w = Some (Inr (), w')" "has_proxy w"
  shows "\<exists>v. texts v = texts w \<and> join_proxy env sp v = Some (Inr (), w')"
proof -
  define cap where "cap = (\<lambda>w. whenp (has_capture w)
       (except_expired (act env (WaitCapture (sp_capture_seconds sp + 2)))
          (seqp (act env InterruptCapture) (\<lambda>_. act env WaitCaptureAgain))) w)"
  have p: "preserves (\<lambda>w. (texts w, has_proxy w)) cap" unfolding cap_def
    by (intro prog_intros preserves_pointwise [where g = "\<lambda>w. whenp (has_capture w) _"]) auto
  obtain v1 v2 v3 where "act env TerminateServer w = Some (Inr (), v1)" "act env WaitServer v1 = Some (Inr (), v2)"
    "cap v2 = Some (Inr (), v3)" "whenp (has_proxy v3) (join_proxy env sp) v3 = Some (Inr (), w')"
    using assms(1) unfolding cleanup_def cap_def [symmetric] seqp_Inr by auto
  moreover from this have "(texts v3, has_proxy v3) = (texts w, has_proxy w)"
    using preservesD [OF p] by (auto simp: act_def)
  ultimately show ?thesis using assms(2) by (auto simp: whenp_def)
qed

lemma proxy_of_record:
  assumes "run_scenario env sp w = Some (Inr rec, w')" "with_proxy sp" "sp_proxy_mutate sp = Some mutate"
  shows "\<exists>s fin. proxy_run env mutate (texts w) = (True, Inr (s, fin))"
proof -
  have st: "server_starts env sp" using not_started [OF assms(1)] by auto
  obtain client w1 w2 where ph: "run_body env sp (setup_world sp w) = Some (Inr client, w1)"
    "cleanup env sp w1 = Some (Inr (), w2)" "finish env sp client w2 = Some (Inr rec, w')"
    by (rule run_scenario_phases [OF assms(1) st]) auto
  obtain v where v: "texts v = texts w1" "join_proxy env sp v = Some (Inr (), w2)"
    using cleanup_joins [OF ph(2) body_has_proxy [OF ph(1) assms(2)]] by blast
  have t: "texts v = texts w" using v(1) preservesD [OF body_texts ph(1)] by (simp add: setup_world_def)
  have "proxy_errors w2 = []"
    using ph(3) by (cases client) (auto simp: finish_def seqp_Inr check_proxy_def raise_def split: if_splits)
  then obtain s fin where s: "snd (proxy_run env mutate (texts w)) = Inr (s, fin)"
    using v(2) assms(3) t by (auto simp: join_proxy_def modify_def split: sum.splits)
  moreover have "client_ready env sp"
    using body_order [OF ph(1)] by (auto simp: setup_world_def)
  then have "fst (proxy_run env mutate (texts w))"
    using assms(2) by (simp add: client_ready_def proxy_run_def run_proxy_def)
  ultimately show ?thesis by (metis prod.collapse)
qed

lemma record_order:
  assumes "run_scenario env sp w = Some (Inr rec, w')"
  shows "\<exists>rest. trace w' = trace w @ server_starts_actions sp @ body_starts sp @
    [RunClient (sp_client_cmd sp) (sp_env sp), TerminateServer] @ rest"
proof -
  have st: "server_starts env sp" using not_started [OF assms] by auto
  obtain client w1 w2 where ph: "run_body env sp (setup_world sp w) = Some (Inr client, w1)"
    "cleanup env sp w1 = Some (Inr (), w2)" "finish env sp client w2 = Some (Inr rec, w')"
    by (rule run_scenario_phases [OF assms st]) auto
  have "\<exists>acts. trace w' = trace w @ acts"
    using body_order [OF ph(1)] cleanup_starts_nothing [OF ph(2)] appendsD [OF finish_starts_nothing ph(3)]
    by (auto simp: setup_world_def)
  then obtain acts where acts: "trace w' = trace w @ acts" ..
  with started_order(3) [OF assms acts] show ?thesis by auto
qed

end
