(* ===== verification/On_Path.thy ===== *)
theory On_Path
  imports Run_Phases Scenario_Order
begin

text \<open>
  The on-path strip scenario of \<open>tools/faultinject/run.py\<close> from end to end: the scenario that
  \<open>_strip_spec\<close> builds, run by \<open>run_scenario\<close> (\<open>harness.py\<close>) with the proxy of \<open>mitm_proxy.py\<close>, and
  what the capture reader (\<open>pcap_hello.py\<close>) sees of the hello that the server received.
\<close>

section \<open>The wiring of the scenario\<close>

lemma dec_not_address: "dec n \<noteq> ''127.0.0.1:'' @ x"
proof
  assume "dec n = ''127.0.0.1:'' @ x"
  then have "CHR ''.'' \<in> set (dec n)" by simp
  then show False using dec_chars by fastforce
qed

lemma redirect_address:
  "redirect port up (''127.0.0.1:'' @ dec up) = ''127.0.0.1:'' @ dec port"
  "port \<noteq> up \<Longrightarrow> redirect port up v \<noteq> ''127.0.0.1:'' @ dec up"
  using dec_not_address by (auto simp: redirect_def)

lemma strip_spec_wiring:
  assumes "strip_targets impl = Some (TlsGroup g)" "strip_spec sha256 impl rep environment out_dir paths = Inr sp"
  shows "\<exists>port up. strip_ports impl = Some port \<and> PORTS impl = Some up \<and> port \<noteq> up \<and>
    sp_listen_port sp = port \<and> sp_proxy_upstream_port sp = Some up \<and> sp_server_listen_port sp = Some up \<and> up \<noteq> 0 \<and>
    dec up \<in> set (sp_server_cmd sp) \<and> ''127.0.0.1:'' @ dec port \<in> set (sp_client_cmd sp) \<and>
    ''127.0.0.1:'' @ dec up \<notin> set (sp_client_cmd sp) \<and>
    sp_env sp = environment \<and> sp_server_env sp = None \<and> sp_capture_traffic sp \<and>
    sp_proxy_mutate sp = Some (strip_mutator sha256
      (path_join out_dir (impl @ ''_condition_r'' @ dec02 rep @ ''_onpath-strip-proxy.log'')) (TlsGroup g))"
proof -
  obtain base port where b: "condition_spec impl ''base'' rep environment out_dir paths = Inr base" "strip_ports impl = Some port"
    and sp: "sp = base\<lparr>sp_condition := ''onpath-strip'',
       sp_client_cmd := map (redirect port (sp_listen_port base)) (sp_client_cmd base),
       sp_listen_port := port, sp_server_listen_port := Some (sp_listen_port base),
       sp_proxy_upstream_port := Some (sp_listen_port base),
       sp_proxy_mutate := Some (strip_mutator sha256
         (path_join out_dir (impl @ ''_condition_r'' @ dec02 rep @ ''_onpath-strip-proxy.log'')) (TlsGroup g)),
       sp_proxy_log := Some (path_join out_dir (impl @ ''_condition_r'' @ dec02 rep @ ''_onpath-strip-proxy.log'')),
       sp_advertised_hybrid := Some True\<rparr>"
    using assms unfolding strip_spec_def look_def by (auto simp: res_simps Let_def split: option.splits)
  have impl: "impl = ''openssl'' \<or> impl = ''boringssl''" using assms(1) by (auto simp: strip_targets_def split: if_splits)
  obtain up server client where c: "PORTS impl = Some up" "condition_commands impl ''base'' up paths = Inr (server, client)"
    "base = (new_spec impl ''condition'' rep ''base'' server client up environment out_dir)\<lparr>sp_capture_traffic := True\<rparr>"
    using b(1) unfolding condition_spec_def look_def by (auto simp: res_simps split: option.splits)
  have cmd: "dec up \<in> set server \<and> ''127.0.0.1:'' @ dec up \<in> set client"
    using c(2) impl unfolding condition_commands_def by (auto simp: res_simps)
  have ne: "port \<noteq> up" "up \<noteq> 0" using b(2) c(1) impl by (auto simp: strip_ports_def PORTS_def)
  have "''127.0.0.1:'' @ dec port \<in> redirect port up ` set client" using cmd redirect_address(1) by (metis imageI)
  moreover have "''127.0.0.1:'' @ dec up \<notin> redirect port up ` set client" using redirect_address(2) [OF ne(1)] by (metis imageE)
  ultimately show ?thesis using b(2) c(1) cmd ne by (simp add: sp c(3) new_spec_def)
qed

section \<open>A run with a proxy returns\<close>

definition all_calls_return :: "run_env \<Rightarrow> bool" where
  "all_calls_return env \<longleftrightarrow> (\<forall>a. outcome env a = Inr ())"

lemma proxied_body:
  assumes "all_calls_return env" "client_ready env sp" "with_proxy sp" "sp_proxy_mutate sp = Some mutate"
    "client_run env = Inr client" "\<not> has_capture w"
  shows "\<exists>w'. run_body env sp w = Some (Inr client, w') \<and> has_proxy w' \<and> proxy_errors w' = proxy_errors w \<and> texts w' = texts w"
proof -
  have o: "outcome env a = Inr ()" for a using assms(1) by (simp add: all_calls_return_def)
  obtain up where up: "sp_proxy_upstream_port sp = Some up" using assms(3) by (auto simp: with_proxy_def)
  have "fst (proxy_run env mutate fs)" "proxy_in_time env" for fs
    using assms(2,3) by (auto simp: client_ready_def proxy_run_def run_proxy_def)
  then have p: "\<exists>v'. start_proxy env sp v = Some (Inr (), v') \<and> has_proxy v' \<and> proxy_errors v' = proxy_errors v \<and> texts v' = texts v" for v
    using assms(4) up o by (simp add: start_proxy_def ret_def)
  have c: "\<exists>v'. run_client env sp v = Some (Inr client, v') \<and> has_proxy v' = has_proxy v \<and> proxy_errors v' = proxy_errors v \<and> texts v' = texts v" for v
    using o assms(5) by (simp add: run_client_def lift_result_def)
  have s: "\<exists>v'. start_capture env sp w = Some (Inr (), v') \<and> proxy_errors v' = proxy_errors w \<and> texts v' = texts w \<and> check_capture env v' = Some (Inr (), v')"
    using assms(2,6) o by (cases "sp_capture_traffic sp")
      (simp_all add: start_capture_def whenp_def lift_poll_def check_capture_def ret_def client_ready_def)
  have l: "lift_poll (wait_for_listener ''127.0.0.1'' (server_port_of sp) (listener_started env) 5000 (listener_obs env)) v = Some (Inr (), v)" for v
    using assms(2) by (simp add: client_ready_def lift_poll_def)
  obtain v1 where v1: "start_capture env sp w = Some (Inr (), v1)" "proxy_errors v1 = proxy_errors w" "texts v1 = texts w"
    "check_capture env v1 = Some (Inr (), v1)" using s by blast
  obtain v2 where v2: "start_proxy env sp v1 = Some (Inr (), v2)" "has_proxy v2" "proxy_errors v2 = proxy_errors v1" "texts v2 = texts v1"
    using p by blast
  obtain v3 where v3: "run_client env sp v2 = Some (Inr client, v3)" "has_proxy v3 = has_proxy v2" "proxy_errors v3 = proxy_errors v2" "texts v3 = texts v2"
    using c by blast
  show ?thesis unfolding run_body_def using v1 v2 v3 l by (intro exI [of _ v3]) (simp add: seqp_def)
qed

lemma proxied_run_returns:
  assumes "all_calls_return env" "client_ready env sp" "with_proxy sp" "sp_proxy_mutate sp = Some mutate"
    "client_run env = Inr client" "snd (proxy_run env mutate (texts w)) = Inr (s, fin)" "GROUP_RE (sp_impl sp) \<noteq> None"
  shows "\<exists>rec w'. run_scenario env sp w = Some (Inr rec, w')"
proof -
  have o: "outcome env a = Inr ()" for a using assms(1) by (simp add: all_calls_return_def)
  have st: "server_starts env sp" by (simp add: server_starts_def o)
  obtain w1 where w1: "run_body env sp (setup_world sp w) = Some (Inr client, w1)" "has_proxy w1" "proxy_errors w1 = []" "texts w1 = texts w"
    using proxied_body [OF assms(1-5), of "setup_world sp w"] by (auto simp: setup_world_def)
  have "\<exists>w2. cleanup env sp w1 = Some (Inr (), w2) \<and> proxy_errors w2 = []"
    using w1(2-4) assms(4,6) o
    by (cases "has_capture w1") (simp_all add: cleanup_def seqp_def whenp_def act_def except_expired_def ret_def modify_def join_proxy_def)
  then obtain w2 where w2: "cleanup env sp w1 = Some (Inr (), w2)" "proxy_errors w2 = []" by blast
  obtain out err code where c: "client = (out, err, code)" by (cases client) auto
  obtain m where "collect sp (out @ err) code = Inr m" using collect_returns [OF assms(7)] by blast
  then have "\<exists>rec w'. finish env sp client w2 = Some (Inr rec, w')"
    by (simp add: c finish_def check_proxy_def w2(2) seqp_def ret_def Let_def act_def o modify_def lift_result_def write_record_def)
  then show ?thesis unfolding run_scenario_started [OF st] using w1(1) w2(1)
    by (auto simp: seqp_def finally_do_def)
qed

section \<open>Theorem\<close>

lemma strip_on_path:
  assumes "run_proxy listening connected first rounds (strip_mutator sha256 log (TlsGroup g)) fs = (ready, Inr (s, fin))"
    and "from_client s = hello # rest" "strip_hybrid hello g = Inr stripped" "stripped \<noteq> hello"
  shows "to_upstream s = stripped # rest \<and> res_mutated (proxy_result s) \<and>
    (\<exists>groups shares. client_hello hello = Inr (groups, shares) \<and>
      client_hello stripped = Inr (filter (\<lambda>x. x \<noteq> g) groups, filter (\<lambda>x. x \<noteq> g) shares))"
proof -
  have "mutate_stream (strip_mutator sha256 log (TlsGroup g)) (hello # rest) fs = Inr (to_upstream s, mutated s, mstate s)"
    using run_proxy_inv [OF assms(1)] assms(2) by (simp add: proxy_inv_def)
  then have "to_upstream s = stripped # rest" "mutated s"
    using assms(3,4) by (auto simp: strip_mutator_def strip_payload_bytes_def)
  then show ?thesis using client_hello_stripped [OF assms(3)] by (simp add: proxy_result_def)
qed

text \<open>
  C24. The on-path strip works from end to end. Take the on-path scenario of a TLS implementation, as
  \<open>_strip_spec\<close> builds it, and a run of it that returned a record. The server was started on its own port,
  then the capture, then the proxy from the proxy port to the port of the server, then the client, whose command names the
  proxy and nowhere the address of the server. The proxy, run with the mutator of the scenario, raised
  nothing: if the first payload of the client is a ClientHello
  that the strip changes, the server received in its place a ClientHello whose groups and key shares, as
  the capture reader sees them, are those of the client without the hybrid group, and all further payloads
  unchanged.
\<close>

theorem onpath_strip_hides_hybrid:
  assumes "strip_targets impl = Some (TlsGroup g)"
    and "strip_spec sha256 impl rep environment out_dir paths = Inr sp"
    and "run_scenario env sp w = Some (Inr rec, w')"
  shows "\<exists>port up mutate s fin. strip_ports impl = Some port \<and> PORTS impl = Some up \<and>
    dec up \<in> set (sp_server_cmd sp) \<and> ''127.0.0.1:'' @ dec port \<in> set (sp_client_cmd sp) \<and>
    ''127.0.0.1:'' @ dec up \<notin> set (sp_client_cmd sp) \<and>
    (\<exists>setup capture rest. trace w' = trace w @ setup @ [StartServer (sp_server_cmd sp) environment, StartCapture capture,
       StartProxy port up, RunClient (sp_client_cmd sp) environment] @ rest) \<and>
    sp_proxy_mutate sp = Some mutate \<and> proxy_run env mutate (texts w) = (True, Inr (s, fin)) \<and>
    (\<forall>hello rest stripped. from_client s = hello # rest \<and> strip_hybrid hello g = Inr stripped \<and> stripped \<noteq> hello \<longrightarrow>
      to_upstream s = stripped # rest \<and> res_mutated (proxy_result s) \<and>
      (\<exists>groups shares. client_hello hello = Inr (groups, shares) \<and>
        client_hello stripped = Inr (filter (\<lambda>x. x \<noteq> g) groups, filter (\<lambda>x. x \<noteq> g) shares)))"
proof -
  let ?log = "path_join out_dir (impl @ ''_condition_r'' @ dec02 rep @ ''_onpath-strip-proxy.log'')"
  obtain port up where p: "strip_ports impl = Some port" "PORTS impl = Some up" "sp_listen_port sp = port"
      "sp_proxy_upstream_port sp = Some up" "dec up \<in> set (sp_server_cmd sp)" "''127.0.0.1:'' @ dec port \<in> set (sp_client_cmd sp)"
      "''127.0.0.1:'' @ dec up \<notin> set (sp_client_cmd sp)" "sp_env sp = environment" "sp_server_env sp = None" "sp_capture_traffic sp"
      "sp_proxy_mutate sp = Some (strip_mutator sha256 ?log (TlsGroup g))"
    using strip_spec_wiring [OF assms(1,2)] by blast
  have wp: "with_proxy sp" using p by (simp add: with_proxy_def)
  obtain s fin where s: "proxy_run env (strip_mutator sha256 ?log (TlsGroup g)) (texts w) = (True, Inr (s, fin))"
    using proxy_of_record [OF assms(3) wp p(11)] by blast
  obtain rest where "trace w' = trace w @ server_starts_actions sp @ body_starts sp @ [RunClient (sp_client_cmd sp) (sp_env sp), TerminateServer] @ rest"
    using record_order [OF assms(3)] by blast
  then have "\<exists>setup capture rest. trace w' = trace w @ setup @ [StartServer (sp_server_cmd sp) environment, StartCapture capture,
       StartProxy port up, RunClient (sp_client_cmd sp) environment] @ rest"
    using p wp
    by (intro exI [of _ "[MkDir (sp_out_dir sp), OpenLog (path_join (sp_out_dir sp) (identifier_of sp @ ''-server.log'')),
        OpenLog (path_join (sp_out_dir sp) (identifier_of sp @ ''-capture.log''))]"]
        exI [of _ "capture_command (path_join (sp_out_dir sp) (identifier_of sp @ ''.pcapng'')) (server_port_of sp) (sp_capture_seconds sp)"]
        exI [of _ "TerminateServer # rest"])
      (simp add: server_starts_actions_def body_starts_def or_default_def)
  then show ?thesis using p s strip_on_path [OF s [unfolded proxy_run_def]] by blast
qed

definition demo_path_env :: run_env where
  "demo_path_env = \<lparr>outcome = (\<lambda>a. Inr ()), capture_started = 0, capture_obs = [(True, False, 60)],
     listener_started = 100, listener_obs = [(Inr (), 160)], capture_exited = False,
     proxy_listening = Inr (), proxy_connected = Inr (), proxy_first = (Inr demo_record, None),
     proxy_rounds = [[(Client, Inr [1, 2], None)], []], proxy_in_time = True, client_run = Inr ([], [], 1)\<rparr>"

theorem onpath_strip_hides_hybrid_witness:
  "\<exists>sp rec w'. strip_spec (\<lambda>d. ''x'') ''openssl'' 1 [] ''out'' phase2_paths = Inr sp \<and>
     run_scenario demo_path_env sp empty_world = Some (Inr rec, w') \<and>
     (\<exists>log s fin stripped. proxy_run demo_path_env (strip_mutator (\<lambda>d. ''x'') log (TlsGroup 0x11EC)) Map.empty = (True, Inr (s, fin)) \<and>
        strip_hybrid demo_record 0x11EC = Inr stripped \<and> to_upstream s = [stripped, [1, 2]] \<and>
        (\<exists>groups shares. client_hello demo_record = Inr (groups, shares) \<and>
          client_hello stripped = Inr (filter (\<lambda>x. x \<noteq> 0x11EC) groups, filter (\<lambda>x. x \<noteq> 0x11EC) shares)))"
proof -
  obtain st where st: "strip_hybrid demo_record 0x11EC = Inr st" using demo_strip by blast
  have ne: "st \<noteq> demo_record"
    using client_hello_stripped [OF st] client_hello_hello [OF demo_hello] by (auto simp: demo_exts_def)
  have nn: "demo_record \<noteq> []" by (simp add: demo_record_def)
  have run: "\<exists>s. proxy_run demo_path_env (strip_mutator (\<lambda>d. ''x'') log (TlsGroup 0x11EC)) fs = (True, Inr (s, True)) \<and>
      from_client s = [demo_record, [1, 2]]" for log fs
    using st ne nn
    by (simp add: proxy_run_def demo_path_env_def run_proxy_def first_payload_def start_state_def relay_def strip_mutator_def strip_payload_bytes_def)
  obtain sp where sp: "strip_spec (\<lambda>d. ''x'') ''openssl'' 1 [] ''out'' phase2_paths = Inr sp"
    "spec_combo sp = (''openssl'', ''condition'', ''onpath-strip'')"
    using strip_spec_ok [of "''openssl''" "\<lambda>d. ''x''" 1 "[]" "''out''"] by auto
  have tg: "strip_targets ''openssl'' = Some (TlsGroup 0x11EC)" by (simp add: strip_targets_def)
  obtain log where w: "with_proxy sp" "sp_proxy_mutate sp = Some (strip_mutator (\<lambda>d. ''x'') log (TlsGroup 0x11EC))"
    using strip_spec_wiring [OF tg sp(1)] by (auto simp: with_proxy_def)
  have b: "all_calls_return demo_path_env" "client_ready demo_path_env sp" "client_run demo_path_env = Inr ([], [], 1)"
    by (simp_all add: all_calls_return_def client_ready_def demo_path_env_def)
  have "GROUP_RE (sp_impl sp) \<noteq> None" using sp(2) by (simp add: spec_combo_def GROUP_RE_def)
  then obtain rec w' where r: "run_scenario demo_path_env sp empty_world = Some (Inr rec, w')"
    using run [of log "texts empty_world"] proxied_run_returns [OF b(1,2) w b(3), of empty_world] by fastforce
  have "texts empty_world = Map.empty" by (simp add: empty_world_def)
  then obtain s fin where s: "proxy_run demo_path_env (strip_mutator (\<lambda>d. ''x'') log (TlsGroup 0x11EC)) Map.empty = (True, Inr (s, fin))"
    "\<And>hello rest stripped. from_client s = hello # rest \<and> strip_hybrid hello 0x11EC = Inr stripped \<and> stripped \<noteq> hello \<longrightarrow>
      to_upstream s = stripped # rest \<and> res_mutated (proxy_result s) \<and>
      (\<exists>groups shares. client_hello hello = Inr (groups, shares) \<and>
        client_hello stripped = Inr (filter (\<lambda>x. x \<noteq> 0x11EC) groups, filter (\<lambda>x. x \<noteq> 0x11EC) shares))"
    using onpath_strip_hides_hybrid [OF tg sp(1) r] w(2) by auto
  have "from_client s = [demo_record, [1, 2]]" using run [of log Map.empty] s(1) by auto
  with s(2) [of demo_record "[[1, 2]]" st] st ne have
    "to_upstream s = [st, [1, 2]]" "\<exists>groups shares. client_hello demo_record = Inr (groups, shares) \<and>
        client_hello st = Inr (filter (\<lambda>x. x \<noteq> 0x11EC) groups, filter (\<lambda>x. x \<noteq> 0x11EC) shares)" by simp_all
  with s(1) st have "\<exists>log s fin stripped. proxy_run demo_path_env (strip_mutator (\<lambda>d. ''x'') log (TlsGroup 0x11EC)) Map.empty = (True, Inr (s, fin)) \<and>
        strip_hybrid demo_record 0x11EC = Inr stripped \<and> to_upstream s = [stripped, [1, 2]] \<and>
        (\<exists>groups shares. client_hello demo_record = Inr (groups, shares) \<and>
          client_hello stripped = Inr (filter (\<lambda>x. x \<noteq> 0x11EC) groups, filter (\<lambda>x. x \<noteq> 0x11EC) shares))"
    by (intro exI [of _ log] exI [of _ s] exI [of _ fin] exI [of _ st]) simp
  with sp(1) r show ?thesis by (intro exI [of _ sp] exI [of _ rec] exI [of _ w']) simp
qed

end
