(* ===== verification/Spec2Isabelle.thy ===== *)
theory Spec2Isabelle
  imports Command_Lines On_Path
begin

text \<open>
  A verification development for the fault-injection harness of the repository: the Python package
  \<open>src/tools/faultinject\<close> and \<open>src/tools/make_repro_package.py\<close>.

  \<^bold>\<open>The program.\<close> The harness measures what becomes of hybrid post-quantum key exchange when a
  ClientHello or a KEXINIT is manipulated on the way (\<open>run.py\<close>), and which group real servers and clients
  negotiate without an attacker (\<open>v12.py\<close>, \<open>v15.py\<close>, \<open>v16.py\<close>, \<open>v17.py\<close>, \<open>v18.py\<close>). Every experiment is a list
  of scenarios. \<open>run_scenario\<close> of \<open>harness.py\<close> starts a server, a capture and, for an on-path fault, the
  proxy of \<open>mitm_proxy.py\<close>, whose mutator comes from \<open>tls_clienthello.py\<close> or \<open>ssh_kexinit.py\<close>; it runs the
  client, cleans up, reads metrics out of the client log and writes a record (\<open>record.py\<close>). The driver
  then evaluates the record: it verifies the manipulation from the artifacts (\<open>verify_applied.py\<close>), reads
  the hellos of the capture (\<open>pcap_hello.py\<close>), audits the logs (\<open>audit.py\<close>), and writes the record again.
  Reports (\<open>aggregate.py\<close>, \<open>analyze.py\<close> and the report of each driver) count the records of a directory
  and draw the verdicts; \<open>make_repro_package.py\<close> bundles the evidence.

  \<^bold>\<open>Theories and source files.\<close> Definitions keep the names of the source where HOL allows it.
  \<^item> \<open>Prelude\<close>, \<open>Py_Str\<close>, \<open>Py_Regex\<close>: Python exceptions as values (\<open>py_error\<close>, \<open>'a result\<close>, \<open>rbind\<close>), byte strings
    as lists of 8-bit words with slices and big-endian integers, string methods, and a backtracking
    matcher for the fragment of \<open>re\<close> in use. \<open>TLV\<close>: the encoding by tag, length and value, with the locale
    \<open>tlv_walk\<close> for a loop over such a region.
  \<^item> \<open>TLS_ClientHello\<close>, \<open>TLS_Strip\<close>, \<open>TLS_Forge\<close>: \<open>tls_clienthello.py\<close>. \<open>SSH_KexInit\<close>, \<open>SSH_Strip\<close>: \<open>ssh_kexinit.py\<close>.
    \<open>PCAP_Hello\<close>: \<open>pcap_hello.py\<close>. \<open>MITM_Proxy\<close>: \<open>run_proxy\<close> over the rounds of events that \<open>select\<close> reports, and as
    a step relation.
  \<^item> \<open>Run_Record\<close>: \<open>record.py\<close>. \<open>Harness_Logs\<close> and \<open>Scenario\<close>: \<open>harness.py\<close>; the state of \<open>Scenario\<close> is \<open>world\<close> (the
    texts and documents written, the actions on processes so far, the locals that clean-up reads), a
    statement is a \<open>prog\<close> (\<open>None\<close>: it does not return). \<open>Scenario_Order\<close>: the order of the actions of a run.
  \<^item> \<open>Fault_Scenarios\<close>: \<open>conditions.py\<close>, \<open>fault_group_list.py\<close>, \<open>fault_binding.py\<close>. \<open>Verify_Applied\<close>:
    \<open>verify_applied.py\<close>. \<open>Run_Phases\<close>: \<open>run.py\<close>; \<open>On_Path\<close>: its on-path strip scenario from end to end.
  \<^item> \<open>Tally\<close>: the counting that all reports share, with the locale \<open>tally\<close>. \<open>Aggregate\<close>: \<open>aggregate.py\<close> and the
    first half of \<open>analyze.py\<close>; \<open>Analyze_V12\<close>: the second half. \<open>Audit_Paths\<close>: \<open>audit.py\<close>.
  \<^item> \<open>Experiments\<close>: what the drivers have in common, with the locales \<open>item_driver\<close> and \<open>driver\<close>.
    \<open>Server_Settings\<close>: \<open>v12.py\<close>; \<open>Negotiation\<close>: \<open>v15.py\<close>; \<open>Client_Defaults\<close>: \<open>v16.py\<close>; \<open>Browser_Trace\<close>: \<open>v17.py\<close>;
    \<open>Client_Survey\<close>: \<open>v18.py\<close>. \<open>Repro_Package\<close>: \<open>make_repro_package.py\<close>.
  \<^item> \<open>Command_Lines\<close>: the functions \<open>main\<close>, from the parsed options to the printed lines and the exit
    status. This theory puts two commands together.

  \<^bold>\<open>What is proved.\<close>
  \<^item> Mutators (C1-C8): stripping removes exactly the named group, keeps all length fields consistent and
    raises nothing that the proxy does not catch; forging inverts exactly the post-quantum bytes. The
    stripped SSH packet is no longer a multiple of the block size (C7).
  \<^item> Wire formats (C9-C11) and proxy (C12-C15): what a capture shows of a stripped hello, a reader that never
    raises, the refinement of the relay loop by streams, at most one changed payload, nothing sent
    after a shutdown, and that a run ends exactly when both sides have closed or \<open>select\<close> has timed out.
  \<^item> Records, logs and one run (C16-C22): round trips of the record and of logged groups; clean-up on every
    path, the order of the starts, polling loops that return, the log of a mutation.
  \<^item> Experiments (C23-C24, C26-C29, C32-C33, C36): complete and distinct lists of scenarios; which documents a
    run stores and that it overwrites no other (the inventory of the survey apart); an on-path run from its
    scenario to the hello that the server received; from a run to its table; a preflight that is exact.
  \<^item> Reports (C25, C30-C31, C34-C35, C37, C39): counts that are numbers of records, verdicts that are statements
    about every record, labels and classes in terms of code points, audits of logs, the repair of
    stored classifications. Packages (C38, C40): a built archive verifies exactly if the repository holds
    what is promised, and it can be rebuilt from itself.
  \<^item> C27, in this theory, is the published procedure of the CVE experiment from the command line to the
    printed verdict.

  \<^bold>\<open>Interfaces.\<close> \<open>tlv_walk\<close> is interpreted on the five loops over extensions and key shares; \<open>polling\<close> on both
  waiting loops; \<open>tally\<close> on the eight tables of records; \<open>driver\<close> and its generalization \<open>item_driver\<close> on the runs
  of all six drivers. The facts of the experiments on stored documents are instances of theirs.

  \<^bold>\<open>Bounds and termination.\<close> No definition uses fuel. The loops over bytes and strings decrease a length; a
  loop over time is a function of the observations it makes (polls, rounds of \<open>select\<close>), is \<open>None\<close> when they
  run out, and C15 and C21 say which are enough. 16-bit and 32-bit fields are natural numbers below
  their bound, with \<open>OverflowError\<close> where \<open>to_bytes\<close> raises it. Characters have code points below 256.

  \<^bold>\<open>What is a parameter.\<close> Processes, sockets, clocks and the file system appear as what they deliver:
  \<open>run_env\<close> (one scenario), \<open>disk\<close> (files of other programs), \<open>runner\<close> and \<open>command_output\<close> (outputs of commands),
  \<open>listing\<close> and \<open>files\<close> (a directory), \<open>sha256\<close> (a digest), \<open>environ\<close> (the environment). The theorems hold for
  all of them unless a hypothesis says otherwise; the witnesses instantiate them.

  \<^bold>\<open>Not modelled.\<close> The text layer of \<open>json\<close> (a document is a value), the encoding of ZIP archives (a list of
  members), \<open>argparse\<close> (the syntax of options), and the normalization of paths by \<open>pathlib\<close>. The shell
  scripts, the clients and servers in other languages and the tests have no part in the results.

  \<^bold>\<open>Divergences found.\<close> Each is listed with its place in the manifest; those with a theorem are C7
  (unaligned SSH packet), C22 (a missing log raises), C35 (other hybrids count as classical),
  \<open>strip_kexinit_drops_trailing\<close> (a second packet in one read is lost), \<open>run_proxy_mutates_later_payload\<close> (the
  docstring says the first payload only), \<open>run_scenario_skips_cleanup\<close> (an expired wait skips the rest of
  the clean-up) and \<open>e8_needs_output_dir\<close>.
\<close>


section \<open>The published procedure of the CVE experiment\<close>

abbreviation cve_dir :: "host \<Rightarrow> string" where "cve_dir h \<equiv> v12_output_dir (repo_root h)"

lemma default_lists:
  "split_char CHR '','' (o12_settings (v12_defaults n)) = REQUIRED_SETTINGS"
  "split_char CHR '','' (o12_versions (v12_defaults n)) = SERVER_VERSIONS"
  by (simp_all add: v12_defaults_def REQUIRED_SETTINGS_def SERVER_VERSIONS_def)

lemma default_options:
  "o12_output_dir (v12_defaults n) = None" "o12_client_groups (v12_defaults n) = CLIENT_GROUPS_V12" "o12_repeat (v12_defaults n) = n"
  by (simp_all add: v12_defaults_def)

lemma defaults_known:
  "\<not> list_ex (\<lambda>s. SERVER_SETTINGS s = None) REQUIRED_SETTINGS" "\<not> list_ex (\<lambda>v. PREFIX v = None) SERVER_VERSIONS"
  by (simp_all add: REQUIRED_SETTINGS_def SERVER_SETTINGS_def SERVER_VERSIONS_def PREFIX_def)

lemma default_paths: "\<exists>paths. v12_paths SERVER_VERSIONS = Inr paths"
  by (simp add: v12_paths_def look_def PREFIX_def SERVER_VERSIONS_def)

text \<open>The command with its default options: refused, or the run and one line per record.\<close>

lemma v12_main_default:
  obtains why where "v12_main h (v12_defaults n) = preflighted
      (Inr (bench_ready (environ_of h) (path_exists h) (output_of h) (port_is_free h) SERVER_VERSIONS, why))
      (seqp (run_v12 (bench h) (bench_disk h) (bench_runner h) (digest h) (environ_of h) (listing_of h (cve_dir h)) (nat n) (cve_dir h)
         REQUIRED_SETTINGS SERVER_VERSIONS CLIENT_GROUPS_V12) (printed v12_line))"
proof -
  obtain paths where p: "v12_paths SERVER_VERSIONS = Inr paths" using default_paths by blast
  obtain why where "preflight_v12 (environ_of h) (path_exists h) (output_of h) (port_is_free h) paths =
      Inr (bench_ready (environ_of h) (path_exists h) (output_of h) (port_is_free h) SERVER_VERSIONS, why)"
    using preflight_v12_iff [OF p] by blast
  then show thesis
    using that [of why] by (simp add: v12_main_def Let_def default_lists default_options defaults_known p default_dir_def)
qed

lemma lines_printed: "seqp p (printed line) w = Some (Inr (lines, status), w') \<Longrightarrow>
   \<exists>rs. p w = Some (Inr rs, w') \<and> rmap line rs = Inr lines \<and> status = 0"
  by (auto simp: seqp_Inr printed_def)

lemma expected_cells: "distinct (map fst EXPECTED_V12)" "fst ` set EXPECTED_V12 = set SERVER_VERSIONS \<times> set REQUIRED_SETTINGS"
  "distinct SERVER_VERSIONS" "distinct REQUIRED_SETTINGS"
  by (simp_all add: EXPECTED_V12_def expected_matrix_def SERVER_VERSIONS_def REQUIRED_SETTINGS_def insert_Times_insert insert_commute)

text \<open>
  C27. The published procedure of the CVE experiment: \<open>python -m faultinject.v12 --repeat 10\<close>, then
  \<open>python -m faultinject.analyze --v12\<close>. If the first command ends with status 0, the bench was ready (all
  binaries native releases of their version, all ports free, nothing left over), sixty records were
  made, one line printed for each, and each is stored under its identifier in \<open>raw/v1.2\<close>. The second
  command, on a directory that holds exactly these files, in any order, prints one report and ends
  with status 0; and the last line of the report is \<open>CVE-2026-2673 verdict: reproduced\<close> exactly if each of
  the sixty records shows what the matrix expects of its server and setting.
\<close>

theorem cve_procedure_verdict:
  assumes "v12_main h (v12_defaults 10) w = Some (Inr (lines, 0), w')"
  shows "bench_ready (environ_of h) (path_exists h) (output_of h) (port_is_free h) SERVER_VERSIONS \<and>
    (\<exists>rs. rmap v12_line rs = Inr lines \<and> length rs = 60 \<and>
      (\<forall>r \<in> set rs. docs w' (doc_path (cve_dir h) (rec_run_id r)) = Some (asdict_record r)) \<and>
      (\<forall>files fsize. mset files = mset (map stored rs) \<longrightarrow>
         (\<exists>t. analyze_main (h\<lparr>json_files := (json_files h)(cve_dir h := files), size_of_file := fsize\<rparr>) AnalyzeV12 None w' =
            Some (Inr ([t], 0), w') \<and>
          (ends_with (nl @ ''CVE-2026-2673 verdict: reproduced'') t \<longleftrightarrow> list_all (run_ok fsize (cve_dir h) EXPECTED_V12) rs))))"
proof -
  let ?ready = "bench_ready (environ_of h) (path_exists h) (output_of h) (port_is_free h) SERVER_VERSIONS"
  let ?run = "run_v12 (bench h) (bench_disk h) (bench_runner h) (digest h) (environ_of h) (listing_of h (cve_dir h)) (nat 10) (cve_dir h)
    REQUIRED_SETTINGS SERVER_VERSIONS CLIENT_GROUPS_V12"
  obtain why where m: "v12_main h (v12_defaults 10) = preflighted (Inr (?ready, why)) (seqp ?run (printed v12_line))"
    by (rule v12_main_default)
  have ready: ?ready using assms unfolding m by (cases ?ready) (simp_all add: preflighted_refuses)
  then have "seqp ?run (printed v12_line) w = Some (Inr (lines, 0), w')" using assms unfolding m by (simp add: preflighted_ready)
  from lines_printed [OF this] obtain rs where rs: "?run w = Some (Inr rs, w')" "rmap v12_line rs = Inr lines" by blast
  have "map (\<lambda>r. (repetition r, cell_of r)) rs = List.product [1..<nat 10 + 1] (List.product SERVER_VERSIONS REQUIRED_SETTINGS)"
    by (rule run_v12_records(1) [OF rs(1)])
  from arg_cong [OF this, of length] have len: "length rs = 60" by (simp add: SERVER_VERSIONS_def REQUIRED_SETTINGS_def)
  have docs: "\<forall>r \<in> set rs. docs w' (doc_path (cve_dir h) (rec_run_id r)) = Some (asdict_record r)"
    using run_v12_keeps_documents [OF rs(1)] expected_cells(3,4) by simp
  have "\<exists>t. analyze_main (h\<lparr>json_files := (json_files h)(cve_dir h := files), size_of_file := fsize\<rparr>) AnalyzeV12 None w' =
        Some (Inr ([t], 0), w') \<and>
      (ends_with (nl @ ''CVE-2026-2673 verdict: reproduced'') t \<longleftrightarrow> list_all (run_ok fsize (cve_dir h) EXPECTED_V12) rs)"
    if files: "mset files = mset (map stored rs)" for files fsize
  proof -
    obtain counts where c: "comparison_v12 fsize (cve_dir h) files = Inr counts"
      "fst (cve_verdict counts (nat 10) EXPECTED_V12) \<longleftrightarrow> list_all (run_ok fsize (cve_dir h) EXPECTED_V12) rs"
      using run_v12_verdict [OF rs(1) _ files expected_cells(3,4,1,2)] by auto
    obtain t where t: "render_v12_markdown fsize (cve_dir h) files EXPECTED_V12 ''CVE-2026-2673 verdict'' (''reproduced'', ''not reproduced'') = Inr t"
      "ends_with (nl @ ''CVE-2026-2673 verdict: reproduced'') t \<longleftrightarrow> fst (cve_verdict counts 10 EXPECTED_V12)"
      using rendered_verdict [OF c(1)] by blast
    show ?thesis
      using t c(2) by (intro exI [of _ t]) (simp add: analyze_main_def Let_def default_dir_def raw_dir_def v12_output_dir_def reported_def)
  qed
  then show ?thesis using ready rs(2) len docs by blast
qed

text \<open>A machine on which the procedure runs: native releases, free ports, clients and servers that start.\<close>

definition demo_output :: command_output where
  "demo_output cmd env =
     (if List.member cmd ''pgrep'' then []
      else if last cmd = ''version'' then
        (let v = (if hd cmd = server_bin ''3.5.6'' then ''3.5.6'' else ''3.5.5'') in ''OpenSSL '' @ v @ '' x (Library: OpenSSL '' @ v @ '' x)'')
      else if last cmd = ''-tls1_3'' then ''X25519MLKEM768'' else ''default'')"

definition demo_host :: host where
  "demo_host = \<lparr>environ_of = [], repo_root = ''/repo'', digest = \<lambda>_. [], path_exists = \<lambda>_. True, output_of = demo_output,
     port_is_free = \<lambda>_. True, tshark_of = \<lambda>_. (1, [], []), versions_of = \<lambda>_. Inr ([], []), bench = \<lambda>_. working_env ([], [], 0),
     bench_disk = \<lambda>_. \<lparr>disk_bytes = \<lambda>_. None, disk_texts = Map.empty\<rparr>, bench_runner = \<lambda>_ _. Inr (1, []),
     listing_of = \<lambda>_. [], json_files = \<lambda>_. [], size_of_file = \<lambda>_. None\<rparr>"

lemma server_bins: "server_bin ''3.5.5'' = PHASE2_ROOT @ ''/install/openssl/bin/openssl''"
  "server_bin ''3.5.6'' = PHASE2_ROOT @ ''/install/openssl-3.5.6/bin/openssl''"
  by (simp_all add: server_bin_def PREFIX_def)

lemma demo_native: "native_release [] demo_output ''3.5.5''" "native_release [] demo_output ''3.5.6''"
proof -
  obtain env5 env6 where e: "native_environment [] ''3.5.5'' = Inr env5" "native_environment [] ''3.5.6'' = Inr env6"
    by (simp add: native_environment_def look_def PREFIX_def Let_def)
  show "native_release [] demo_output ''3.5.5''" "native_release [] demo_output ''3.5.6''"
    by (simp_all add: native_release_def e Let_def demo_output_def server_bins PHASE2_ROOT_def reported_version_def REPORTED_VERSION_def)
qed

theorem cve_procedure_verdict_witness:
  "\<exists>lines w' rs t. v12_main demo_host (v12_defaults 10) empty_world = Some (Inr (lines, 0), w') \<and> length rs = 60 \<and>
    rmap v12_line rs = Inr lines \<and>
    analyze_main (demo_host\<lparr>json_files := (json_files demo_host)(cve_dir demo_host := map stored rs), size_of_file := \<lambda>_. None\<rparr>)
      AnalyzeV12 None w' = Some (Inr ([t], 0), w') \<and>
    (ends_with (nl @ ''CVE-2026-2673 verdict: reproduced'') t \<longleftrightarrow> list_all (run_ok (\<lambda>_. None) (cve_dir demo_host) EXPECTED_V12) rs)"
proof -
  let ?h = demo_host
  have ready: "bench_ready (environ_of ?h) (path_exists ?h) (output_of ?h) (port_is_free ?h) SERVER_VERSIONS"
    using demo_native by (simp add: bench_ready_def demo_host_def SERVER_VERSIONS_def list_all_iff demo_output_def strip_def lstrip_def)
  obtain rs w' where r: "run_v12 (bench ?h) (bench_disk ?h) (bench_runner ?h) (digest ?h) (environ_of ?h) (listing_of ?h (cve_dir ?h)) (nat 10)
      (cve_dir ?h) REQUIRED_SETTINGS SERVER_VERSIONS CLIENT_GROUPS_V12 empty_world = Some (Inr rs, w')"
    using run_v12_completes [of "listing_of ?h (cve_dir ?h)" SERVER_VERSIONS REQUIRED_SETTINGS "bench ?h" "bench_runner ?h" "bench_disk ?h"
        "digest ?h" "environ_of ?h" "nat 10" "cve_dir ?h" CLIENT_GROUPS_V12 empty_world] defaults_known
    by (auto simp: demo_host_def has_json_def tshark_starts_def list_ex_iff)
  obtain lines where l: "rmap v12_line rs = Inr lines" using rmap_returns [of rs v12_line] by (auto simp: v12_line_def Let_def)
  obtain why where "v12_main ?h (v12_defaults 10) = preflighted (Inr (bench_ready (environ_of ?h) (path_exists ?h) (output_of ?h) (port_is_free ?h) SERVER_VERSIONS, why))
      (seqp (run_v12 (bench ?h) (bench_disk ?h) (bench_runner ?h) (digest ?h) (environ_of ?h) (listing_of ?h (cve_dir ?h)) (nat 10) (cve_dir ?h)
         REQUIRED_SETTINGS SERVER_VERSIONS CLIENT_GROUPS_V12) (printed v12_line))"
    by (rule v12_main_default)
  then have main: "v12_main ?h (v12_defaults 10) empty_world = Some (Inr (lines, 0), w')"
    by (simp only: ready preflighted_ready seqp_def r option.case prod.case sum.case printed_def l prog_simps)
  from conjunct2 [OF cve_procedure_verdict [OF main]] obtain rs' where rs: "rmap v12_line rs' = Inr lines" "length rs' = 60"
    and an: "\<forall>files fsize. mset files = mset (map stored rs') \<longrightarrow>
         (\<exists>t. analyze_main (?h\<lparr>json_files := (json_files ?h)(cve_dir ?h := files), size_of_file := fsize\<rparr>) AnalyzeV12 None w' =
            Some (Inr ([t], 0), w') \<and>
          (ends_with (nl @ ''CVE-2026-2673 verdict: reproduced'') t \<longleftrightarrow> list_all (run_ok fsize (cve_dir ?h) EXPECTED_V12) rs'))"
    by blast
  from an [rule_format, of "map stored rs'" "\<lambda>_. None", OF refl] main rs show ?thesis by blast
qed

end
